(* ===== verification/Prelude.thy ===== *)
theory Prelude
  imports Main "HOL-Library.Word" "HOL-Library.Monad_Syntax"
begin

text \<open>
  Shared vocabulary of the development: the machine integer types of the kernel, big- and
  little-endian byte encodings, slices and indexing with Rust's bounds checks, tables of
  optional slots, and the serial console that every component prints to.

  A computation that can panic returns an option: \<open>None\<close> is the panic (the handler of
  \<open>kernel/src/main.rs\<close> prints a message and halts for ever), \<open>Some\<close> carries the result.
  Arithmetic follows the development profile of the build, in which an overflow panics;
  an \<open>as\<close> cast truncates.
\<close>

named_theorems byte_simps \<open>evaluation of byte encodings and slices\<close>
named_theorems slot_simps \<open>tables of optional slots\<close>

type_synonym byte = "8 word"
type_synonym u8 = "8 word"
type_synonym u16 = "16 word"
type_synonym u32 = "32 word"
type_synonym u64 = "64 word"

section \<open>Strings and bytes\<close>

text \<open>A Rust string is its UTF-8 bytes; \<open>str\<close> turns an ASCII literal into bytes.\<close>

definition str :: "string \<Rightarrow> byte list" where
  "str s = map of_char s"

lemma str_simps [byte_simps]:
  "str [] = []" "str (c # cs) = of_char c # str cs"
  by (simp_all add: str_def)

lemma length_str [simp]: "length (str s) = length s"
  by (simp add: str_def)

section \<open>Endian encodings\<close>

fun be_bytes :: "nat \<Rightarrow> nat \<Rightarrow> byte list" where
  "be_bytes 0 v = []"
| "be_bytes (Suc n) v = be_bytes n (v div 256) @ [word_of_nat v]"

definition be_val :: "byte list \<Rightarrow> nat" where
  "be_val bs = foldl (\<lambda>a b. a * 256 + unat b) 0 bs"

definition le_val :: "byte list \<Rightarrow> nat" where
  "le_val bs = be_val (rev bs)"

lemma length_be_bytes [simp]: "length (be_bytes n v) = n"
  by (induction n arbitrary: v) auto

lemma be_val_Nil [simp]: "be_val [] = 0"
  by (simp add: be_val_def)

lemma be_val_snoc [simp]: "be_val (bs @ [b]) = be_val bs * 256 + unat b"
  by (simp add: be_val_def)

lemma unat_byte [simp]: "unat (word_of_nat v :: byte) = v mod 256"
  by (simp add: unat_of_nat)

lemma unat_byte_less [simp]: "unat (b :: byte) < 256"
proof -
  have "unat b < 2 ^ LENGTH(8)"
    by (rule unsigned_less)
  then show ?thesis
    by simp
qed

lemma unat_less: "unat (x :: 'w::len word) < 2 ^ LENGTH('w)"
  by (rule unsigned_less)

lemma unat_u16_less: "unat (x :: u16) < 65536"
  using unat_less [of x] by simp

lemma unat_u64_less: "unat (x :: u64) < 18446744073709551616"
  using unat_less [of x] by simp

lemma be_val_be_bytes: "be_val (be_bytes n v) = v mod 256 ^ n"
proof (induction n arbitrary: v)
  case (Suc n)
  have "be_val (be_bytes (Suc n) v) = (v div 256) mod 256 ^ n * 256 + v mod 256"
    by (simp add: Suc)
  also have "\<dots> = v mod 256 ^ Suc n"
    by (simp add: mod_mult2_eq mult.commute)
  finally show ?case .
qed simp

lemma be_bytes_be_val: "be_bytes (length bs) (be_val bs) = bs"
proof (induction bs rule: rev_induct)
  case (snoc b bs)
  have "(be_val bs * 256 + unat b) div 256 = be_val bs"
    by simp
  moreover have "(word_of_nat (be_val bs * 256 + unat b) :: byte) = b"
    by (intro word_unat_eq_iff [THEN iffD2]) (simp only: unat_byte mod_mult_self3 mod_less unat_byte_less)
  ultimately show ?case
    using snoc by simp
qed simp

lemma be_val_less: "be_val bs < 256 ^ length bs"
proof (induction bs rule: rev_induct)
  case (snoc b bs)
  moreover have "unat b < 256"
    by (rule unat_byte_less)
  ultimately have "be_val bs * 256 + unat b < 256 * 256 ^ length bs"
    by linarith
  then show ?case
    by simp
qed simp

text \<open>\<open>to_be_bytes\<close> and \<open>from_be_bytes\<close> of the integer types the kernel uses.\<close>

definition be16 :: "u16 \<Rightarrow> byte list" where
  "be16 w = be_bytes 2 (unat w)"

definition be32 :: "u32 \<Rightarrow> byte list" where
  "be32 w = be_bytes 4 (unat w)"

definition from_be16 :: "byte list \<Rightarrow> u16" where
  "from_be16 bs = word_of_nat (be_val bs)"

definition from_be32 :: "byte list \<Rightarrow> u32" where
  "from_be32 bs = word_of_nat (be_val bs)"

lemma length_be16 [simp]: "length (be16 w) = 2"
  by (simp add: be16_def)

lemma length_be32 [simp]: "length (be32 w) = 4"
  by (simp add: be32_def)

lemma be16_eq: "be16 w = [word_of_nat (unat w div 256), word_of_nat (unat w)]"
  by (simp add: be16_def numeral_2_eq_2)

lemma from_be16_be16 [simp]: "from_be16 (be16 w) = w"
proof -
  have "unat w < 2 ^ LENGTH(16)"
    by (rule unsigned_less)
  then show ?thesis
    by (simp add: from_be16_def be16_def be_val_be_bytes)
qed

lemma from_be32_be32 [simp]: "from_be32 (be32 w) = w"
proof -
  have "unat w < 2 ^ LENGTH(32)"
    by (rule unsigned_less)
  then show ?thesis
    by (simp add: from_be32_def be32_def be_val_be_bytes)
qed

section \<open>Checked arithmetic\<close>

text \<open>\<open>a + b\<close> and \<open>a - b\<close> on an unsigned type: both panic when the result does not fit.\<close>

definition checked_add :: "'w::len word \<Rightarrow> 'w word \<Rightarrow> 'w word option" where
  "checked_add a b = (if unat a + unat b < 2 ^ LENGTH('w) then Some (a + b) else None)"

definition checked_sub :: "'w::len word \<Rightarrow> 'w word \<Rightarrow> 'w word option" where
  "checked_sub a b = (if b \<le> a then Some (a - b) else None)"

lemma checked_add_Some_unat:
  "checked_add a b = Some c \<Longrightarrow> unat c = unat a + unat b"
  by (auto simp: checked_add_def unat_word_ariths split: if_splits)

lemma checked_sub_Some_unat:
  "checked_sub a b = Some c \<Longrightarrow> unat c = unat a - unat b"
  by (auto simp: checked_sub_def unat_sub split: if_splits)

section \<open>Indexing and slicing with bounds checks\<close>

text \<open>\<open>xs[i]\<close> and \<open>&xs[a..b]\<close>: both panic out of range.\<close>

definition get_at :: "'a list \<Rightarrow> nat \<Rightarrow> 'a option" where
  "get_at xs i = (if i < length xs then Some (xs ! i) else None)"

definition slice :: "nat \<Rightarrow> nat \<Rightarrow> 'a list \<Rightarrow> 'a list option" where
  "slice a b xs = (if a \<le> b \<and> b \<le> length xs then Some (take (b - a) (drop a xs)) else None)"

text \<open>\<open>m[i] = v\<close> and \<open>m[a..a + src.len()].copy_from_slice(src)\<close>, with the same checks.\<close>

definition put :: "nat \<Rightarrow> 'a \<Rightarrow> 'a list \<Rightarrow> 'a list option" where
  "put i v xs = (if i < length xs then Some (xs[i := v]) else None)"

definition copy_at :: "nat \<Rightarrow> 'a list \<Rightarrow> 'a list \<Rightarrow> 'a list option" where
  "copy_at a src m =
     (if a + length src \<le> length m then Some (take a m @ src @ drop (a + length src) m) else None)"

lemma slice_Some_iff:
  "slice a b xs = Some ys \<longleftrightarrow> a \<le> b \<and> b \<le> length xs \<and> ys = take (b - a) (drop a xs)"
  by (auto simp: slice_def)

lemma slice_None_iff: "slice a b xs = None \<longleftrightarrow> b < a \<or> length xs < b"
  by (auto simp: slice_def)

section \<open>Tables of optional slots\<close>

text \<open>
  Three components keep a vector of optional slots: the scheduler its tasks, the file layer
  its descriptors, the network its sockets. \<open>position\<close> is Rust's \<open>iter().position\<close>,
  \<open>slot\<close> is \<open>get(i).and_then(|o| o.as_ref())\<close>.
\<close>

fun position :: "('a \<Rightarrow> bool) \<Rightarrow> 'a list \<Rightarrow> nat option" where
  "position P [] = None"
| "position P (x # xs) = (if P x then Some 0 else map_option Suc (position P xs))"

definition slot :: "'a option list \<Rightarrow> nat \<Rightarrow> 'a option" where
  "slot t i = (if i < length t then t ! i else None)"

definition live :: "'a option list \<Rightarrow> nat" where
  "live t = length (filter (\<lambda>s. s \<noteq> None) t)"

lemma position_Some_iff:
  "position P xs = Some i \<longleftrightarrow> i < length xs \<and> P (xs ! i) \<and> (\<forall>j<i. \<not> P (xs ! j))"
proof (induction xs arbitrary: i)
  case (Cons x xs)
  show ?case
  proof (cases i)
    case 0
    then show ?thesis by auto
  next
    case (Suc k)
    then show ?thesis
      using Cons by (auto simp: less_Suc_eq_0_disj)
  qed
qed simp

lemma position_None_iff: "position P xs = None \<longleftrightarrow> (\<forall>x\<in>set xs. \<not> P x)"
  by (induction xs) auto

lemma slot_update [slot_simps]:
  "i < length t \<Longrightarrow> slot (t[i := x]) = (slot t)(i := x)"
  by (auto simp: slot_def nth_list_update)

lemma slot_append [slot_simps]:
  "slot (t @ [x]) = (slot t)(length t := x)"
  by (auto simp: slot_def nth_append)

lemma slot_Nil [slot_simps]: "slot [] i = None"
  by (simp add: slot_def)

lemma slot_SomeD: "slot t i = Some x \<Longrightarrow> i < length t \<and> t ! i = Some x"
  by (auto simp: slot_def split: if_splits)

lemma live_append [slot_simps]: "live (t @ u) = live t + live u"
  by (simp add: live_def)

lemma live_Cons [slot_simps]: "live (x # t) = (if x = None then 0 else 1) + live t"
  by (simp add: live_def)

lemma live_card: "live t = card (dom (slot t))"
proof -
  have "dom (slot t) = {i. i < length t \<and> t ! i \<noteq> None}"
    by (auto simp: slot_def dom_def split: if_splits)
  then show ?thesis
    by (simp add: live_def length_filter_conv_card)
qed

lemma finite_dom_slot [simp]: "finite (dom (slot t))"
proof (rule finite_subset)
  show "dom (slot t) \<subseteq> {..<length t}"
    by (auto dest: slot_SomeD)
qed simp

text \<open>Put an entry into the first free slot, or append a slot: what \<open>Scheduler::add\<close> and
  \<open>socket::socket\<close> do.\<close>

definition place :: "'a \<Rightarrow> 'a option list \<Rightarrow> 'a option list \<times> nat" where
  "place x t =
     (case position Option.is_none t of
        Some i \<Rightarrow> (t[i := Some x], i)
      | None \<Rightarrow> (t @ [Some x], length t))"

lemma place_spec:
  assumes "place x t = (t', i)"
  shows "slot t i = None" and "slot t' = (slot t)(i \<mapsto> x)"
    and "length t' = max (length t) (Suc i)" and "\<forall>j<i. slot t j \<noteq> None"
proof -
  have "slot t i = None \<and> slot t' = (slot t)(i \<mapsto> x) \<and> length t' = max (length t) (Suc i) \<and>
      (\<forall>j<i. slot t j \<noteq> None)"
  proof (cases "position Option.is_none t")
    case None
    then have "\<forall>j<length t. t ! j \<noteq> None"
      by (auto simp: position_None_iff Option.is_none_def)
    with None assms show ?thesis
      by (auto simp: place_def slot_def nth_append)
  next
    case (Some k)
    then have "k < length t" "t ! k = None" "\<forall>j<k. t ! j \<noteq> None"
      by (auto simp: position_Some_iff Option.is_none_def)
    with Some assms show ?thesis
      by (auto simp: place_def slot_def)
  qed
  then show "slot t i = None" and "slot t' = (slot t)(i \<mapsto> x)"
    and "length t' = max (length t) (Suc i)" and "\<forall>j<i. slot t j \<noteq> None"
    by simp_all
qed

text \<open>
  The contract of an allocating operation on such a table, and what a client can rely on:
  the new entry is in a slot that was free, and no live entry moves or changes.
\<close>

locale slot_table =
  fixes alloc :: "'a \<Rightarrow> 'a option list \<Rightarrow> ('a option list \<times> nat) option"
  assumes alloc_free: "alloc x t = Some (t', i) \<Longrightarrow> slot t i = None"
    and alloc_slot: "alloc x t = Some (t', i) \<Longrightarrow> slot t' = (slot t)(i \<mapsto> x)"
begin

lemma alloc_new: "alloc x t = Some (t', i) \<Longrightarrow> slot t' i = Some x"
  using alloc_slot [of x t t' i] by simp

lemma alloc_keeps:
  assumes "alloc x t = Some (t', i)" and "slot t j = Some y"
  shows "j \<noteq> i \<and> slot t' j = Some y"
  using alloc_slot [OF assms(1)] alloc_free [OF assms(1)] assms(2) by auto

lemma alloc_live: "alloc x t = Some (t', i) \<Longrightarrow> live t' = Suc (live t)"
  using alloc_slot [of x t t' i] alloc_free [of x t t' i]
  by (simp add: live_card domIff)

lemma alloc_dom: "alloc x t = Some (t', i) \<Longrightarrow> dom (slot t') = insert i (dom (slot t))"
  using alloc_slot [of x t t' i] by simp

lemma alloc_free_again:
  assumes "alloc x t = Some (t', i)"
  shows "slot (t'[i := None]) = slot t"
proof -
  have "i < length t'"
    using alloc_new [OF assms] by (auto dest: slot_SomeD)
  then show ?thesis
    using alloc_slot [OF assms] alloc_free [OF assms] by (auto simp: slot_simps)
qed

end

end
