(* ===== verification/Serial.thy ===== *)
theory Serial
  imports Prelude
begin

text \<open>
  The serial console (\<open>kernel/src/serial.rs\<close> and the print macros of \<open>main.rs\<close>). The
  console is what has been sent to COM1 so far. A formatted print is kept as the call the
  code makes, its format string and its arguments in order; raw bytes are kept as they are
  sent; \<open>Format\<close> gives the bytes of a print. Every component's state extends this record, so that printing is part of its
  behaviour.
\<close>

text \<open>The values the code formats: numbers, text, booleans, arrays and slices, values of an enum (the
  name of the variant and its fields), and values whose rendering is not in the sources, named by
  their type.\<close>

datatype fmt_arg =
    ANum nat
  | AStr "byte list"
  | ABool bool
  | AList "fmt_arg list"
  | AVariant string "fmt_arg list"
  | AExt string "fmt_arg list"

datatype sevent =
    Print string "fmt_arg list"
  | Raw byte

record console =
  serial :: "sevent list"

definition print :: "string \<Rightarrow> fmt_arg list \<Rightarrow> 'a console_scheme \<Rightarrow> 'a console_scheme" where
  "print fmt args s = s\<lparr>serial := serial s @ [Print fmt args]\<rparr>"

definition println :: "string \<Rightarrow> fmt_arg list \<Rightarrow> 'a console_scheme \<Rightarrow> 'a console_scheme" where
  "println fmt args s = print (fmt @ [CHR 0x0A]) args s"

definition write_bytes :: "byte list \<Rightarrow> 'a console_scheme \<Rightarrow> 'a console_scheme" where
  "write_bytes bytes s = foldl (\<lambda>s b. s\<lparr>serial := serial s @ [Raw b]\<rparr>) s bytes"

lemma write_bytes_eq: "write_bytes bytes s = s\<lparr>serial := serial s @ map Raw bytes\<rparr>"
  unfolding write_bytes_def by (induction bytes arbitrary: s) auto

lemma serial_println [simp]: "serial (println f a s) = serial s @ [Print (f @ [CHR 0x0A]) a]"
  by (simp add: println_def print_def)

lemma more_println [simp]: "console.more (println f a s) = console.more s"
  by (simp add: println_def print_def)

end
