(* ===== verification/Pmm.thy ===== *)
theory Pmm
  imports Prelude
begin

unbundle bit_operations_syntax

text \<open>
  The bitmap frame allocator (\<open>kernel/src/memory/pmm.rs\<close>): its operations, the invariant
  that the bitmap has its full length, the abstraction to the set of free frames, and the
  refinement of every operation to a set operation. The contract the rest of the kernel
  uses (the \<open>FrameAllocator\<close> and \<open>FrameDeallocator\<close> traits) is the locale
  \<open>frame_allocator\<close>.

  Frame indices and word indices are \<open>nat\<close> (they are below $2^{18}$); physical addresses
  are 64-bit words; a \<open>PhysFrame\<close> is its start address.
\<close>

definition PAGE_SIZE :: nat where "PAGE_SIZE = 4096"
definition MAX_PHYS :: nat where "MAX_PHYS = 2 ^ 30"
definition NUM_FRAMES :: nat where "NUM_FRAMES = MAX_PHYS div PAGE_SIZE"
definition WORDS :: nat where "WORDS = NUM_FRAMES div 64"

type_synonym phys_frame = u64
type_synonym phys_range = "u64 \<times> u64"

record bitmap =
  used :: "u64 list"
  next_word :: nat

definition bitmap_new :: bitmap where
  "bitmap_new = \<lparr>used = replicate WORDS (-1), next_word = 0\<rparr>"

definition bit_index :: "nat \<Rightarrow> nat \<times> nat" where
  "bit_index frame = (frame div 64, frame mod 64)"

definition frame_used :: "bitmap \<Rightarrow> nat \<Rightarrow> bool" where
  "frame_used a frame = (let (w, b) = bit_index frame in drop_bit b (used a ! w) AND 1 = 1)"

definition set_used :: "nat \<Rightarrow> bool \<Rightarrow> bitmap \<Rightarrow> bitmap" where
  "set_used frame v a =
     (let (w, b) = bit_index frame in
      if v then a\<lparr>used := (used a)[w := used a ! w OR push_bit b 1]\<rparr>
      else a\<lparr>used := (used a)[w := used a ! w AND NOT (push_bit b 1)]\<rparr>)"

definition div_ceil :: "nat \<Rightarrow> nat \<Rightarrow> nat" where
  "div_ceil a b = a div b + (if a mod b = 0 then 0 else 1)"

definition frames_for :: "phys_range \<Rightarrow> (nat \<times> nat) option" where
  "frames_for r =
     (let start = unat (fst r) div PAGE_SIZE;
          end' = min (div_ceil (unat (snd r)) PAGE_SIZE) NUM_FRAMES
      in if start < end' then Some (start, end') else None)"

definition mark_used_range :: "phys_range \<Rightarrow> bitmap \<Rightarrow> bitmap" where
  "mark_used_range r a =
     (case frames_for r of
        Some (s, e) \<Rightarrow> fold (\<lambda>f. set_used f True) [s..<e] a
      | None \<Rightarrow> a)"

definition mark_free_range :: "phys_range \<Rightarrow> bitmap \<Rightarrow> bitmap" where
  "mark_free_range r a =
     (case frames_for r of
        Some (s, e) \<Rightarrow> fold (\<lambda>f. set_used f False) [s..<e] a
      | None \<Rightarrow> a)"

text \<open>
  The two nested loops of \<open>alloc_frame\<close>. The inner loop over the bits of one word ends in
  three ways: it returns a frame, it returns from the whole function with nothing, or it
  falls through to the next word.
\<close>

datatype scan = Found nat | Abort | Next

fun scan_bits :: "bitmap \<Rightarrow> nat \<Rightarrow> nat list \<Rightarrow> scan" where
  "scan_bits a idx [] = Next"
| "scan_bits a idx (b # bs) =
     (let frame = idx * 64 + b in
      if frame \<ge> NUM_FRAMES then Abort
      else if \<not> frame_used a frame then Found frame
      else scan_bits a idx bs)"

fun scan_words :: "bitmap \<Rightarrow> nat list \<Rightarrow> (nat \<times> nat) option" where
  "scan_words a [] = None"
| "scan_words a (wi # wis) =
     (let idx = (next_word a + wi) mod WORDS in
      if used a ! idx = -1 then scan_words a wis
      else (case scan_bits a idx [0..<64] of
              Found frame \<Rightarrow> Some (idx, frame)
            | Abort \<Rightarrow> None
            | Next \<Rightarrow> scan_words a wis))"

definition alloc_frame :: "bitmap \<Rightarrow> phys_frame option \<times> bitmap" where
  "alloc_frame a =
     (case scan_words a [0..<WORDS] of
        Some (idx, frame) \<Rightarrow>
          (Some (word_of_nat (frame * PAGE_SIZE)), (set_used frame True a)\<lparr>next_word := idx\<rparr>)
      | None \<Rightarrow> (None, a))"

definition free_frame :: "phys_frame \<Rightarrow> bitmap \<Rightarrow> bitmap" where
  "free_frame frame a =
     (let idx = unat frame div PAGE_SIZE in
      if idx < NUM_FRAMES then set_used idx False a else a)"

definition count_ones :: "u64 \<Rightarrow> nat" where
  "count_ones w = length (filter (bit w) [0..<64])"

definition free_count :: "bitmap \<Rightarrow> nat" where
  "free_count a = NUM_FRAMES - foldl (\<lambda>n w. n + count_ones w) 0 (used a)"

text \<open>\<open>allocate_frame\<close> and \<open>deallocate_frame\<close> of the two allocator traits.\<close>

definition allocate_frame :: "bitmap \<Rightarrow> phys_frame option \<times> bitmap" where
  "allocate_frame a = alloc_frame a"

definition deallocate_frame :: "phys_frame \<Rightarrow> bitmap \<Rightarrow> bitmap" where
  "deallocate_frame f a = free_frame f a"

section \<open>Invariant and abstraction\<close>

definition pmm_inv :: "bitmap \<Rightarrow> bool" where
  "pmm_inv a \<longleftrightarrow> length (used a) = WORDS"

definition free_frames :: "bitmap \<Rightarrow> nat set" where
  "free_frames a = {f. f < NUM_FRAMES \<and> \<not> frame_used a f}"

lemma pmm_consts: "PAGE_SIZE = 4096" "NUM_FRAMES = 262144" "WORDS = 4096"
  by (simp_all add: PAGE_SIZE_def NUM_FRAMES_def WORDS_def MAX_PHYS_def)

lemma frame_word_less: "f < NUM_FRAMES \<Longrightarrow> f div 64 < WORDS"
  by (simp add: pmm_consts)

lemma frame_used_bit: "frame_used a f = bit (used a ! (f div 64)) (f mod 64)"
  by (auto simp: frame_used_def bit_index_def bit_iff_odd_drop_bit and_one_eq odd_iff_mod_2_eq_one)

lemma set_used_length [simp]: "length (used (set_used f v a)) = length (used a)"
  by (simp add: set_used_def bit_index_def)

lemma set_used_next_word [simp]: "next_word (set_used f v a) = next_word a"
  by (simp add: set_used_def bit_index_def)

lemma frame_used_next_word [simp]: "frame_used (a\<lparr>next_word := n\<rparr>) f = frame_used a f"
  by (simp add: frame_used_def)

lemma div_mod_64_eq: "f div 64 = g div 64 \<Longrightarrow> f mod 64 = g mod 64 \<Longrightarrow> f = (g::nat)"
  by (metis div_mult_mod_eq)

lemma frame_used_set_used:
  assumes "pmm_inv a" and "f < NUM_FRAMES" and "g < NUM_FRAMES"
  shows "frame_used (set_used f v a) g = (if g = f then v else frame_used a g)"
proof -
  have len: "f div 64 < length (used a)"
    using assms by (simp add: pmm_inv_def frame_word_less)
  have bits: "f mod 64 < 64" "g mod 64 < 64"
    by simp_all
  show ?thesis
  proof (cases "g div 64 = f div 64")
    case True
    with len bits div_mod_64_eq [of g f] show ?thesis
      by (auto simp: frame_used_bit set_used_def bit_index_def bit_simps)
  next
    case False
    with len show ?thesis
      by (auto simp: frame_used_bit set_used_def bit_index_def)
  qed
qed

lemma pmm_inv_set_used [simp]: "pmm_inv (set_used f v a) = pmm_inv a"
  by (simp add: pmm_inv_def)

lemma free_frames_set_used:
  assumes "pmm_inv a" and "f < NUM_FRAMES"
  shows "free_frames (set_used f v a) = (if v then free_frames a - {f} else insert f (free_frames a))"
  using assms by (auto simp: free_frames_def frame_used_set_used split: if_splits)

lemma free_frames_next_word [simp]: "free_frames (a\<lparr>next_word := n\<rparr>) = free_frames a"
  by (simp add: free_frames_def)

lemma pmm_inv_next_word [simp]: "pmm_inv (a\<lparr>next_word := n\<rparr>) = pmm_inv a"
  by (simp add: pmm_inv_def)

lemma finite_free_frames [simp]: "finite (free_frames a)"
  by (simp add: free_frames_def)

section \<open>Marking ranges\<close>

lemma fold_set_used:
  assumes "pmm_inv a" and "\<forall>f\<in>set fs. f < NUM_FRAMES"
  shows "pmm_inv (fold (\<lambda>f. set_used f v) fs a) \<and>
    free_frames (fold (\<lambda>f. set_used f v) fs a) =
      (if v then free_frames a - set fs else free_frames a \<union> set fs)"
  using assms
proof (induction fs arbitrary: a)
  case (Cons f fs)
  then show ?case
    by (auto simp: free_frames_set_used)
qed simp

lemma frames_for_bound: "frames_for r = Some (s, e) \<Longrightarrow> \<forall>f\<in>set [s..<e]. f < NUM_FRAMES"
  by (auto simp: frames_for_def Let_def split: if_splits)

text \<open>The frames a byte range touches, as a set: the reference for both marking operations.\<close>

definition range_frames :: "phys_range \<Rightarrow> nat set" where
  "range_frames r =
     {f. f < NUM_FRAMES \<and> unat (fst r) div PAGE_SIZE \<le> f \<and> f < div_ceil (unat (snd r)) PAGE_SIZE}"

lemma frames_for_range:
  "set (case frames_for r of Some (s, e) \<Rightarrow> [s..<e] | None \<Rightarrow> []) = range_frames r"
  by (auto simp: frames_for_def range_frames_def Let_def)

lemma mark_used_range_spec:
  assumes "pmm_inv a"
  shows "pmm_inv (mark_used_range r a)"
    and "free_frames (mark_used_range r a) = free_frames a - range_frames r"
proof -
  have "pmm_inv (mark_used_range r a) \<and>
      free_frames (mark_used_range r a) = free_frames a - range_frames r"
    using assms frames_for_bound [of r] frames_for_range [of r] fold_set_used [of a _ True]
    by (auto simp: mark_used_range_def split: option.splits)
  then show "pmm_inv (mark_used_range r a)"
    and "free_frames (mark_used_range r a) = free_frames a - range_frames r"
    by simp_all
qed

lemma mark_free_range_spec:
  assumes "pmm_inv a"
  shows "pmm_inv (mark_free_range r a)"
    and "free_frames (mark_free_range r a) = free_frames a \<union> range_frames r"
proof -
  have "pmm_inv (mark_free_range r a) \<and>
      free_frames (mark_free_range r a) = free_frames a \<union> range_frames r"
    using assms frames_for_bound [of r] frames_for_range [of r] fold_set_used [of a _ False]
    by (auto simp: mark_free_range_def split: option.splits)
  then show "pmm_inv (mark_free_range r a)"
    and "free_frames (mark_free_range r a) = free_frames a \<union> range_frames r"
    by simp_all
qed

section \<open>The search of \<open>alloc_frame\<close>\<close>

lemma scan_bits_in_range:
  assumes "idx < WORDS" and "\<forall>b\<in>set bs. b < 64"
  shows "scan_bits a idx bs \<noteq> Abort"
  using assms by (induction bs) (auto simp: Let_def pmm_consts)

lemma scan_bits_Found:
  "scan_bits a idx bs = Found f \<Longrightarrow>
     \<exists>b\<in>set bs. f = idx * 64 + b \<and> f < NUM_FRAMES \<and> \<not> frame_used a f"
  by (induction bs) (auto simp: Let_def split: if_splits)

lemma scan_bits_Next:
  "scan_bits a idx bs = Next \<Longrightarrow> b \<in> set bs \<Longrightarrow> frame_used a (idx * 64 + b)"
  by (induction bs) (auto simp: Let_def split: if_splits)

lemma scan_bits_least:
  "scan_bits a idx [0..<n] = Found f \<Longrightarrow> g div 64 = idx \<Longrightarrow> g < f \<Longrightarrow> frame_used a g"
proof (induction n)
  case (Suc n)
  have split: "scan_bits a idx (xs @ [n]) =
      (case scan_bits a idx xs of Next \<Rightarrow> scan_bits a idx [n] | r \<Rightarrow> r)" for xs
    by (induction xs) (auto simp: Let_def)
  show ?case
  proof (cases "scan_bits a idx [0..<n]")
    case (Found k)
    with Suc split show ?thesis by simp
  next
    case Abort
    with Suc split show ?thesis by simp
  next
    case Next
    with Suc.prems split have f: "f = idx * 64 + n"
      by (auto simp: Let_def split: if_splits)
    have "g = idx * 64 + g mod 64"
      using Suc.prems(2) by (metis div_mult_mod_eq)
    with f Suc.prems(3) have "g mod 64 \<in> set [0..<n]"
      by auto
    with scan_bits_Next [OF Next] \<open>g = idx * 64 + g mod 64\<close> show ?thesis
      by metis
  qed
qed simp

lemma word_full_frames:
  assumes "used a ! (f div 64) = -1"
  shows "frame_used a f"
  using assms by (simp add: frame_used_bit)

lemma scan_words_Some:
  assumes "scan_words a wis = Some (idx, f)"
  shows "\<exists>wi\<in>set wis. idx = (next_word a + wi) mod WORDS \<and> f div 64 = idx \<and>
    f < NUM_FRAMES \<and> \<not> frame_used a f \<and> (\<forall>g<f. g div 64 = idx \<longrightarrow> frame_used a g)"
  using assms
proof (induction wis)
  case (Cons wi wis)
  let ?i = "(next_word a + wi) mod WORDS"
  show ?case
  proof (cases "used a ! ?i \<noteq> -1 \<and> (\<exists>g. scan_bits a ?i [0..<64] = Found g)")
    case True
    with Cons.prems have idx: "idx = ?i" and found: "scan_bits a ?i [0..<64] = Found f"
      by (auto simp: Let_def)
    from scan_bits_Found [OF found] scan_bits_least [OF found]
    show ?thesis
      by (auto simp: idx)
  next
    case False
    with Cons show ?thesis
      by (auto simp: Let_def split: scan.splits if_splits)
  qed
qed simp

lemma scan_words_None:
  assumes "scan_words a wis = None" and "wi \<in> set wis"
    and "f div 64 = (next_word a + wi) mod WORDS"
  shows "frame_used a f"
  using assms
proof (induction wis)
  case (Cons v wis)
  let ?i = "(next_word a + v) mod WORDS"
  have noabort: "scan_bits a ?i [0..<64] \<noteq> Abort"
    by (rule scan_bits_in_range) (simp_all add: pmm_consts)
  have f: "f = f div 64 * 64 + f mod 64"
    by simp
  have "wi = v \<Longrightarrow> scan_bits a ?i [0..<64] = Next \<Longrightarrow> frame_used a f"
    using scan_bits_Next [of a ?i "[0..<64]" "f mod 64"] Cons.prems(3) f by simp
  with Cons noabort show ?case
    by (auto simp: Let_def word_full_frames split: if_splits scan.splits)
qed simp

lemma word_reached: "w < WORDS \<Longrightarrow> \<exists>wi<WORDS. w = (n + wi) mod WORDS"
proof -
  assume w: "w < WORDS"
  have pos: "0 < WORDS"
    by (simp add: pmm_consts)
  let ?wi = "(w + (WORDS - n mod WORDS)) mod WORDS"
  have "(n + ?wi) mod WORDS = (n mod WORDS + (w + (WORDS - n mod WORDS))) mod WORDS"
    by (simp add: mod_simps)
  also have "\<dots> = (w + WORDS) mod WORDS"
    using mod_less_divisor [OF pos, of n] by (intro arg_cong [where f = "\<lambda>x. x mod WORDS"]) linarith
  also have "\<dots> = w"
    using w by simp
  finally show ?thesis
    using pos by (intro exI [of _ ?wi]) simp
qed

lemma scan_words_complete:
  assumes "scan_words a [0..<WORDS] = None"
  shows "free_frames a = {}"
proof -
  have "frame_used a f" if f: "f < NUM_FRAMES" for f
  proof -
    obtain wi where "wi < WORDS" "f div 64 = (next_word a + wi) mod WORDS"
      using word_reached [OF frame_word_less [OF f]] by blast
    then show ?thesis
      using scan_words_None [OF assms, of wi f] by simp
  qed
  then show ?thesis
    by (auto simp: free_frames_def)
qed

section \<open>Counting free frames\<close>

lemma filter_word_bits:
  "length (filter (\<lambda>f. bit (us ! (f div 64)) (f mod 64)) [64 * n..<64 * n + 64]) = count_ones (us ! n)"
proof -
  have shift: "[64 * n..<64 * n + 64] = map (\<lambda>b. 64 * n + b) [0..<64]"
    by (intro nth_equalityI) simp_all
  have "length (filter (\<lambda>f. bit (us ! (f div 64)) (f mod 64)) [64 * n..<64 * n + 64]) =
      length (filter (\<lambda>b. bit (us ! ((64 * n + b) div 64)) ((64 * n + b) mod 64)) [0..<64])"
    unfolding shift by (simp only: filter_map length_map o_def)
  also have "\<dots> = length (filter (bit (us ! n)) [0..<64])"
    by (intro arg_cong [where f = length] filter_cong) simp_all
  finally show ?thesis
    by (simp add: count_ones_def)
qed

lemma count_used_prefix:
  "n \<le> length us \<Longrightarrow>
     length (filter (\<lambda>f. bit (us ! (f div 64)) (f mod 64)) [0..<64 * n]) =
     foldl (\<lambda>k w. k + count_ones w) 0 (take n us)"
proof (induction n)
  case (Suc n)
  have "[0..<64 * Suc n] = [0..<64 * n] @ [64 * n..<64 * n + 64]"
    using upt_add_eq_append [of 0 "64 * n" 64] by (simp add: add.commute)
  then show ?case
    using Suc filter_word_bits [of us n] by (simp add: take_Suc_conv_app_nth)
qed simp

lemma free_count_card:
  assumes "pmm_inv a"
  shows "free_count a = card (free_frames a)"
proof -
  let ?U = "{f. f < NUM_FRAMES \<and> frame_used a f}"
  have "foldl (\<lambda>n w. n + count_ones w) 0 (used a) =
      length (filter (\<lambda>f. bit (used a ! (f div 64)) (f mod 64)) [0..<64 * WORDS])"
    using assms count_used_prefix [of WORDS "used a"] by (simp add: pmm_inv_def)
  also have "\<dots> = length (filter (frame_used a) [0..<NUM_FRAMES])"
    by (simp add: frame_used_bit [abs_def] pmm_consts)
  also have "\<dots> = card (set (filter (frame_used a) [0..<NUM_FRAMES]))"
    by (simp add: distinct_card del: set_filter)
  also have "\<dots> = card ?U"
    by (intro arg_cong [where f = card]) auto
  finally have used: "foldl (\<lambda>n w. n + count_ones w) 0 (used a) = card ?U" .
  have "free_frames a = {..<NUM_FRAMES} - ?U"
    by (auto simp: free_frames_def)
  then have "card (free_frames a) = NUM_FRAMES - card ?U"
    by (simp add: card_Diff_subset subset_iff)
  then show ?thesis
    by (simp add: free_count_def used)
qed

section \<open>The contract of the allocator\<close>

text \<open>Frames by their start address, as the traits hand them out.\<close>

definition frame_addr :: "nat \<Rightarrow> phys_frame" where
  "frame_addr f = word_of_nat (f * PAGE_SIZE)"

definition free_addrs :: "bitmap \<Rightarrow> phys_frame set" where
  "free_addrs a = frame_addr ` free_frames a"

lemma unat_frame_addr: "f < NUM_FRAMES \<Longrightarrow> unat (frame_addr f) = f * 4096"
  by (simp add: frame_addr_def pmm_consts unat_of_nat del: of_nat_mult)

lemma frame_addr_inj: "inj_on frame_addr {..<NUM_FRAMES}"
  by (rule inj_onI) (metis lessThan_iff mult_right_cancel unat_frame_addr zero_neq_numeral)

lemma card_free_addrs: "card (free_addrs a) = card (free_frames a)"
  unfolding free_addrs_def
  by (intro card_image inj_on_subset [OF frame_addr_inj]) (auto simp: free_frames_def)

lemma alloc_frame_cases:
  assumes "pmm_inv a"
  obtains (none) "alloc_frame a = (None, a)" "free_frames a = {}"
  | (some) f where "fst (alloc_frame a) = Some (frame_addr f)" "f \<in> free_frames a"
      "free_frames (snd (alloc_frame a)) = free_frames a - {f}" "pmm_inv (snd (alloc_frame a))"
      "next_word (snd (alloc_frame a)) = f div 64"
      "\<forall>g<f. g div 64 = f div 64 \<longrightarrow> g \<notin> free_frames a"
proof (cases "scan_words a [0..<WORDS]")
  case None
  then show ?thesis
    using none scan_words_complete by (simp add: alloc_frame_def)
next
  case (Some p)
  then obtain i f where scan: "scan_words a [0..<WORDS] = Some (i, f)"
    by (cases p) simp
  from scan_words_Some [OF scan] have f: "f div 64 = i" "f < NUM_FRAMES" "\<not> frame_used a f"
      "\<forall>g<f. g div 64 = i \<longrightarrow> frame_used a g"
    by auto
  have al: "alloc_frame a = (Some (frame_addr f), (set_used f True a)\<lparr>next_word := i\<rparr>)"
    by (simp add: alloc_frame_def scan frame_addr_def)
  show ?thesis
    by (rule some [of f]) (use assms f in \<open>auto simp: al free_frames_set_used free_frames_def
      frame_used_set_used split: if_splits\<close>)
qed

locale frame_allocator =
  fixes allocate :: "'a \<Rightarrow> 'f option \<times> 'a"
    and deallocate :: "'f \<Rightarrow> 'a \<Rightarrow> 'a"
    and free :: "'a \<Rightarrow> 'f set"
    and managed :: "'f set"
    and inv :: "'a \<Rightarrow> bool"
  assumes free_managed: "inv a \<Longrightarrow> free a \<subseteq> managed"
    and finite_managed: "finite managed"
    and allocate_Some: "inv a \<Longrightarrow> allocate a = (Some f, a') \<Longrightarrow>
      f \<in> free a \<and> free a' = free a - {f} \<and> inv a'"
    and allocate_None: "inv a \<Longrightarrow> allocate a = (None, a') \<Longrightarrow> free a = {} \<and> a' = a"
    and deallocate: "inv a \<Longrightarrow> f \<in> managed \<Longrightarrow>
      free (deallocate f a) = insert f (free a) \<and> inv (deallocate f a)"

text \<open>\<open>n\<close> allocations in a row, collected as \<open>collect::<Option<Vec<_>>>\<close> does: the first failure
  ends the loop and loses what was collected.\<close>

fun alloc_many :: "('a \<Rightarrow> 'f option \<times> 'a) \<Rightarrow> nat \<Rightarrow> 'a \<Rightarrow> 'f list option \<times> 'a" where
  "alloc_many al 0 a = (Some [], a)"
| "alloc_many al (Suc n) a =
     (case al a of
        (None, a') \<Rightarrow> (None, a')
      | (Some f, a') \<Rightarrow>
          (case alloc_many al n a' of
             (None, a'') \<Rightarrow> (None, a'')
           | (Some fs, a'') \<Rightarrow> (Some (f # fs), a'')))"

context frame_allocator
begin

lemma finite_free: "inv a \<Longrightarrow> finite (free a)"
  using free_managed finite_managed by (rule finite_subset)

lemma alloc_many_Some:
  "inv a \<Longrightarrow> alloc_many allocate n a = (Some fs, a') \<Longrightarrow>
     length fs = n \<and> distinct fs \<and> set fs \<subseteq> free a \<and> free a' = free a - set fs \<and> inv a'"
proof (induction n arbitrary: a fs a')
  case (Suc n)
  then obtain f b gs where al: "allocate a = (Some f, b)"
    and rec: "alloc_many allocate n b = (Some gs, a')" and fs: "fs = f # gs"
    by (auto split: prod.splits option.splits)
  from allocate_Some [OF Suc.prems(1) al] have b: "f \<in> free a" "free b = free a - {f}" "inv b"
    by auto
  from Suc.IH [OF b(3) rec] b show ?case
    by (auto simp: fs)
qed simp

lemma alloc_many_enough:
  "inv a \<Longrightarrow> n \<le> card (free a) \<Longrightarrow> \<exists>fs a'. alloc_many allocate n a = (Some fs, a')"
proof (induction n arbitrary: a)
  case (Suc n)
  obtain r b where al: "allocate a = (r, b)"
    by (cases "allocate a") auto
  show ?case
  proof (cases r)
    case None
    with al allocate_None [OF Suc.prems(1)] Suc.prems(2) show ?thesis
      by auto
  next
    case (Some f)
    with al allocate_Some [OF Suc.prems(1)] have b: "f \<in> free a" "free b = free a - {f}" "inv b"
      by auto
    with Suc.prems finite_free have "n \<le> card (free b)"
      by (simp add: card_Diff_singleton)
    with Suc.IH [OF b(3)] al Some show ?thesis
      by (auto split: prod.splits)
  qed
qed simp

lemma deallocate_many:
  "inv a \<Longrightarrow> set fs \<subseteq> managed \<Longrightarrow>
     free (fold deallocate fs a) = free a \<union> set fs \<and> inv (fold deallocate fs a)"
proof (induction fs arbitrary: a)
  case (Cons f fs)
  then show ?case
    using deallocate [of a f] by auto
qed simp

lemma alloc_then_free:
  assumes "inv a" and "alloc_many allocate n a = (Some fs, b)"
  shows "free (fold deallocate fs b) = free a"
proof -
  from alloc_many_Some [OF assms] have *: "set fs \<subseteq> free a" "free b = free a - set fs" "inv b"
    by auto
  with deallocate_many [OF *(3), of fs] free_managed [OF assms(1)] show ?thesis
    by auto
qed

end

definition managed_addrs :: "phys_frame set" where
  "managed_addrs = frame_addr ` {..<NUM_FRAMES}"

interpretation pmm: frame_allocator allocate_frame deallocate_frame free_addrs managed_addrs pmm_inv
proof
  fix a f a'
  assume inv: "pmm_inv a"
  show "free_addrs a \<subseteq> managed_addrs"
    by (auto simp: free_addrs_def managed_addrs_def free_frames_def)
  {
    assume "allocate_frame a = (Some f, a')"
    then show "f \<in> free_addrs a \<and> free_addrs a' = free_addrs a - {f} \<and> pmm_inv a'"
      using alloc_frame_cases [OF inv] frame_addr_inj
      by (cases rule: alloc_frame_cases [OF inv])
        (auto simp: allocate_frame_def free_addrs_def free_frames_def inj_on_def)
  }
  {
    assume "allocate_frame a = (None, a')"
    then show "free_addrs a = {} \<and> a' = a"
      by (cases rule: alloc_frame_cases [OF inv]) (auto simp: allocate_frame_def free_addrs_def)
  }
  {
    assume "f \<in> managed_addrs"
    then obtain k where k: "k < NUM_FRAMES" "f = frame_addr k"
      by (auto simp: managed_addrs_def)
    then have "unat f div PAGE_SIZE = k"
      by (simp add: unat_frame_addr pmm_consts)
    with k inv show "free_addrs (deallocate_frame f a) = insert f (free_addrs a) \<and>
        pmm_inv (deallocate_frame f a)"
      by (simp add: deallocate_frame_def free_frame_def free_addrs_def free_frames_set_used)
  }
next
  show "finite managed_addrs"
    by (simp add: managed_addrs_def)
qed

section \<open>Properties\<close>

text \<open>A bitmap with three free frames, for the witnesses.\<close>

definition three_frames :: bitmap where
  "three_frames = mark_free_range (0x1000, 0x3800) bitmap_new"

lemma pmm_inv_new [simp]: "pmm_inv bitmap_new"
  by (simp add: pmm_inv_def bitmap_new_def)

lemma free_frames_new: "free_frames bitmap_new = {}"
  by (auto simp: free_frames_def bitmap_new_def frame_used_bit frame_word_less)

lemma range_frames_interval:
  "range_frames r = {unat (fst r) div 4096..<min (div_ceil (unat (snd r)) 4096) 262144}"
  by (auto simp: range_frames_def pmm_consts)

lemma three_frames: "pmm_inv three_frames" "free_frames three_frames = {1..<4}"
  by (simp_all add: three_frames_def mark_free_range_spec free_frames_new range_frames_interval
      div_ceil_def)

text \<open>
  C7. \<open>alloc_frame\<close> refines removing an element from the set of free frames: it fails only
  when no frame is free, and then changes nothing; otherwise it hands out a frame that was
  free, the lowest of its bitmap word, marks exactly that frame used, moves the hint to its
  word and keeps the bitmap well formed.
\<close>

theorem alloc_frame_refines:
  assumes "pmm_inv a"
  shows "case alloc_frame a of
      (None, a') \<Rightarrow> free_frames a = {} \<and> a' = a
    | (Some p, a') \<Rightarrow> \<exists>f\<in>free_frames a. p = frame_addr f \<and>
        free_frames a' = free_frames a - {f} \<and> pmm_inv a' \<and> next_word a' = f div 64 \<and>
        (\<forall>g<f. g div 64 = f div 64 \<longrightarrow> g \<notin> free_frames a)"
  by (cases rule: alloc_frame_cases [OF assms]) (auto split: prod.splits option.splits)

theorem alloc_frame_refines_witness:
  "\<exists>a'. alloc_frame three_frames = (Some 0x1000, a') \<and> free_frames a' = {2, 3}"
proof -
  have set: "{1..<4} - {Suc 0} = {2, 3::nat}"
    by auto
  have frames: "f \<in> {1..<4} \<Longrightarrow> f div 64 = 0" for f :: nat
    by simp
  obtain r a' where al: "alloc_frame three_frames = (r, a')"
    by (cases "alloc_frame three_frames") auto
  from alloc_frame_refines [OF three_frames(1)] al obtain f where
      f: "f \<in> {1..<4}" "r = Some (frame_addr f)" "free_frames a' = {1..<4} - {f}"
      "\<forall>g<f. g div 64 = f div 64 \<longrightarrow> g \<notin> {1..<4}"
    by (auto simp: three_frames split: option.splits)
  have "\<not> 1 < f"
    using f(4) [THEN spec, of 1] frames [OF f(1)] by auto
  with f(1) have "f = 1"
    by simp
  with f al set show ?thesis
    by (simp add: frame_addr_def pmm_consts)
qed

text \<open>\<open>free_count\<close>, which counts the set bits word by word, is exact: it is the number of
  frames whose bit is clear, it is 0 exactly when \<open>alloc_frame\<close> fails, and a successful
  allocation lowers it by one.
\<close>

theorem free_count_exact:
  assumes "pmm_inv a"
  shows "free_count a = card (free_frames a) \<and>
    (free_count a = 0 \<longleftrightarrow> fst (alloc_frame a) = None) \<and>
    (fst (alloc_frame a) \<noteq> None \<longrightarrow> free_count (snd (alloc_frame a)) = free_count a - 1)"
  using free_count_card [OF assms]
  by (cases rule: alloc_frame_cases [OF assms]) (auto simp: free_count_card)

theorem free_count_exact_witness:
  "free_count three_frames = 3 \<and> fst (alloc_frame three_frames) \<noteq> None \<and>
   free_count (snd (alloc_frame three_frames)) = 2"
  using free_count_exact [OF three_frames(1)] by (auto simp: three_frames)

text \<open>Allocating \<open>n\<close> frames in a row succeeds whenever \<open>n\<close> frames are free; the frames are
  pairwise distinct and were free, the count drops by \<open>n\<close>, and giving them all back restores
  exactly the original set of free frames.
\<close>

theorem frames_alloc_free_roundtrip:
  assumes "pmm_inv a" and "n \<le> free_count a"
  shows "\<exists>fs b. alloc_many allocate_frame n a = (Some fs, b) \<and> length fs = n \<and> distinct fs \<and>
    set fs \<subseteq> free_addrs a \<and> free_count b + n = free_count a \<and>
    free_addrs (fold deallocate_frame fs b) = free_addrs a \<and>
    free_count (fold deallocate_frame fs b) = free_count a"
proof -
  have count: "pmm_inv c \<Longrightarrow> free_count c = card (free_addrs c)" for c
    by (simp add: free_count_card card_free_addrs)
  obtain fs b where al: "alloc_many allocate_frame n a = (Some fs, b)"
    using pmm.alloc_many_enough [OF assms(1), of n] assms(2) count [OF assms(1)] by auto
  note some = pmm.alloc_many_Some [OF assms(1) al]
  have "set fs \<subseteq> managed_addrs"
    using some pmm.free_managed [OF assms(1)] by blast
  then have inv: "pmm_inv (fold deallocate_frame fs b)"
    using some pmm.deallocate_many by blast
  have "card (free_addrs b) + n = card (free_addrs a)"
    using some pmm.finite_free [OF assms(1)] assms
    by (simp add: card_Diff_subset distinct_card count card_mono)
  with al some count inv assms(1) pmm.alloc_then_free [OF assms(1) al] show ?thesis
    by (intro exI [of _ fs] exI [of _ b]) simp
qed

theorem frames_alloc_free_roundtrip_witness:
  "\<exists>fs b. alloc_many allocate_frame 3 three_frames = (Some fs, b) \<and> distinct fs \<and>
    free_count b = 0 \<and> free_count (fold deallocate_frame fs b) = 3"
proof -
  have c: "free_count three_frames = 3"
    by (simp add: free_count_card three_frames)
  show ?thesis
    using frames_alloc_free_roundtrip [OF three_frames(1), of 3] by (auto simp: c)
qed

end
