(* ===== verification/Memory.thy ===== *)
theory Memory
  imports Pmm Serial
begin

text \<open>
  Memory bring-up: \<open>memory/mod.rs\<close> (seeding the frame allocator from the firmware map),
  \<open>memory/vmm.rs\<close> (the mapping helpers), \<open>memory/heap.rs\<close> (mapping the kernel heap) and the
  memory self-test of \<open>main.rs\<close>.

  The page-table walker (\<open>OffsetPageTable\<close> of the \<open>x86_64\<close> crate) is not part of the
  repository. Its state is represented by what its \<open>Translate\<close> interface reports, a map from
  page addresses to a frame and its flags, and its operation \<open>map_to\<close> is a parameter of the
  definitions that use it. \<open>mapper_ok\<close> states the documented behaviour relied on: a success
  adds exactly the requested mapping of an unmapped page, a failure adds none, at most three
  frames are taken from the allocator for intermediate tables, and an unmapped page is
  mapped whenever those frames are available. The byte allocator behind the heap
  (\<open>linked_list_allocator\<close>) is represented by the region it was given.
\<close>

datatype pflag = PRESENT | WRITABLE | USER_ACCESSIBLE | NO_CACHE | NO_EXECUTE

type_synonym ptable = "u64 \<Rightarrow> (u64 \<times> pflag set) option"
type_synonym map_to_fn =
  "u64 \<Rightarrow> u64 \<Rightarrow> pflag set \<Rightarrow> ptable \<times> bitmap \<Rightarrow> bool \<times> ptable \<times> bitmap"

datatype region_kind = Usable | Bootloader | UnknownUefi u32 | UnknownBios u32

record memory_region =
  region_start :: u64
  region_end :: u64
  region_type :: region_kind

record boot_info =
  physical_memory_offset :: "u64 option"
  kernel_addr :: u64
  kernel_len :: u64
  memory_regions :: "memory_region list"

record memory = console +
  FRAME_ALLOCATOR :: bitmap
  READY :: bool
  PHYS_OFFSET :: u64
  page_table :: ptable
  heap_region :: "(u64 \<times> nat) option"

datatype map_error = MapFailed | OutOfFrames

section \<open>Virtual memory helpers\<close>

definition set_phys_offset :: "u64 \<Rightarrow> 'a memory_scheme \<Rightarrow> 'a memory_scheme" where
  "set_phys_offset offset s = s\<lparr>PHYS_OFFSET := offset, READY := True\<rparr>"

definition phys_offset :: "'a memory_scheme \<Rightarrow> u64 option" where
  "phys_offset s = (if READY s then Some (PHYS_OFFSET s) else None)"

text \<open>\<open>active_mapper\<close> panics before \<open>set_phys_offset\<close> ran; otherwise it is a view of the
  current tables, so only the check remains.\<close>

definition active_mapper :: "'a memory_scheme \<Rightarrow> unit option" where
  "active_mapper s = (case phys_offset s of Some _ \<Rightarrow> Some () | None \<Rightarrow> None)"

definition map_page ::
  "map_to_fn \<Rightarrow> u64 \<Rightarrow> u64 \<Rightarrow> pflag set \<Rightarrow> 'a memory_scheme \<Rightarrow>
     ((map_error + unit) \<times> 'a memory_scheme) option" where
  "map_page map_to page frame flags s = do {
     active_mapper s;
     (let (ok, pt, a) = map_to page frame flags (page_table s, FRAME_ALLOCATOR s);
          s' = s\<lparr>page_table := pt, FRAME_ALLOCATOR := a\<rparr>
      in Some (if ok then Inr () else Inl MapFailed, s'))
   }"

definition allocate_and_map ::
  "map_to_fn \<Rightarrow> u64 \<Rightarrow> pflag set \<Rightarrow> 'a memory_scheme \<Rightarrow>
     ((map_error + u64) \<times> 'a memory_scheme) option" where
  "allocate_and_map map_to page flags s =
     (let (frame, a) = allocate_frame (FRAME_ALLOCATOR s); s = s\<lparr>FRAME_ALLOCATOR := a\<rparr> in
      case frame of
        None \<Rightarrow> Some (Inl OutOfFrames, s)
      | Some f \<Rightarrow> do {
          (r, s) \<leftarrow> map_page map_to page f flags s;
          Some (case r of Inl e \<Rightarrow> Inl e | Inr _ \<Rightarrow> Inr f, s)
        })"

definition translate :: "u64 \<Rightarrow> 'a memory_scheme \<Rightarrow> u64 option option" where
  "translate vaddr s = do {
     active_mapper s;
     Some (map_option (\<lambda>(f, _). f + vaddr mod 4096) (page_table s (vaddr - vaddr mod 4096)))
   }"

definition kernel_data_flags :: "pflag set" where
  "kernel_data_flags = {PRESENT, WRITABLE, NO_EXECUTE}"

definition vmm_alloc_frame :: "'a memory_scheme \<Rightarrow> u64 option \<times> 'a memory_scheme" where
  "vmm_alloc_frame s =
     (let (f, a) = allocate_frame (FRAME_ALLOCATOR s) in (f, s\<lparr>FRAME_ALLOCATOR := a\<rparr>))"

section \<open>The kernel heap\<close>

definition HEAP_START :: u64 where "HEAP_START = 0xffffa00000000000"
definition HEAP_SIZE :: nat where "HEAP_SIZE = 1024 * 1024"

definition heap_page :: "nat \<Rightarrow> u64" where
  "heap_page i = HEAP_START + word_of_nat i * 4096"

fun map_heap_pages :: "map_to_fn \<Rightarrow> nat list \<Rightarrow> 'a memory_scheme \<Rightarrow> 'a memory_scheme option" where
  "map_heap_pages map_to [] s = Some s"
| "map_heap_pages map_to (i # is) s = do {
     (r, s) \<leftarrow> allocate_and_map map_to (heap_page i) kernel_data_flags s;
     (case r of Inl _ \<Rightarrow> None | Inr _ \<Rightarrow> map_heap_pages map_to is s)
   }"

definition heap_init :: "map_to_fn \<Rightarrow> 'a memory_scheme \<Rightarrow> 'a memory_scheme option" where
  "heap_init map_to s = do {
     s \<leftarrow> map_heap_pages map_to [0..<HEAP_SIZE div 4096] s;
     (let s = s\<lparr>heap_region := Some (HEAP_START, HEAP_SIZE)\<rparr> in
      Some (println ''[heap] {} KiB kernel heap mapped at {:#x}''
              [ANum (HEAP_SIZE div 1024), ANum (unat HEAP_START)] s))
   }"

section \<open>Seeding the allocator and \<open>memory::init\<close>\<close>

definition count_usable :: "memory_region list \<Rightarrow> nat" where
  "count_usable regions = length (filter (\<lambda>r. region_type r = Usable) regions)"

definition mark_region :: "memory_region \<Rightarrow> bitmap \<Rightarrow> bitmap" where
  "mark_region region a =
     (let range = (region_start region, region_end region) in
      case region_type region of
        Usable \<Rightarrow> mark_free_range range a
      | _ \<Rightarrow> mark_used_range range a)"

definition seed_frames :: "memory_region list \<Rightarrow> u64 \<Rightarrow> u64 \<Rightarrow> bitmap \<Rightarrow> bitmap" where
  "seed_frames regions kernel_start kernel_end a =
     (let a = fold mark_region regions a;
          a = mark_used_range (kernel_start, kernel_end) a
      in mark_used_range (0, word_of_nat PAGE_SIZE) a)"

definition memory_init :: "map_to_fn \<Rightarrow> boot_info \<Rightarrow> 'a memory_scheme \<Rightarrow> 'a memory_scheme option" where
  "memory_init map_to boot s = do {
     offset \<leftarrow> physical_memory_offset boot;
     let s = set_phys_offset offset s;
     let kernel_start = kernel_addr boot;
     kernel_end \<leftarrow> checked_add kernel_start (kernel_len boot);
     let usable = count_usable (memory_regions boot);
     let s = s\<lparr>FRAME_ALLOCATOR :=
                seed_frames (memory_regions boot) kernel_start kernel_end (FRAME_ALLOCATOR s)\<rparr>;
     let s = println ''[memory] phys mem mapped at {:#x}; {} usable regions, {} free frames''
               [ANum (unat offset), ANum usable, ANum (free_count (FRAME_ALLOCATOR s))] s;
     heap_init map_to s
   }"

section \<open>The memory self-test\<close>

text \<open>
  The frame half of \<open>memory_self_test\<close>: reserve 1000 frames, release them, and report the
  free counts before, during and after. (The heap half only prints figures of the byte
  allocator.)
\<close>

definition memory_self_test :: "'a memory_scheme \<Rightarrow> 'a memory_scheme option" where
  "memory_self_test s =
     (let before = free_count (FRAME_ALLOCATOR s);
          (frames, a) = alloc_many allocate_frame 1000 (FRAME_ALLOCATOR s)
      in do {
        fs \<leftarrow> frames;
        (let during = free_count a;
             b = fold deallocate_frame fs a;
             after = free_count b
         in Some (println ''[mem-test] frames free: {before} -> {during} -> {after} (expected -1000 then restored)''
              [ANum before, ANum during, ANum after] (s\<lparr>FRAME_ALLOCATOR := b\<rparr>)))
      })"

section \<open>Properties\<close>

subsection \<open>Which frames are free after seeding\<close>

text \<open>The last region of the firmware map that touches a frame decides its state.\<close>

definition touching :: "nat \<Rightarrow> memory_region list \<Rightarrow> memory_region option" where
  "touching f regions = find (\<lambda>r. f \<in> range_frames (region_start r, region_end r)) (rev regions)"

lemma mark_region_spec:
  assumes "pmm_inv a"
  shows "pmm_inv (mark_region r a) \<and> free_frames (mark_region r a) =
    (if region_type r = Usable then free_frames a \<union> range_frames (region_start r, region_end r)
     else free_frames a - range_frames (region_start r, region_end r))"
  using assms
  by (cases "region_type r")
    (simp_all add: mark_region_def mark_free_range_spec mark_used_range_spec)

lemma fold_mark_region:
  assumes "pmm_inv a"
  shows "pmm_inv (fold mark_region rs a) \<and>
    (f \<in> free_frames (fold mark_region rs a) \<longleftrightarrow>
      (case touching f rs of None \<Rightarrow> f \<in> free_frames a | Some r \<Rightarrow> region_type r = Usable))"
  using assms
proof (induction rs rule: rev_induct)
  case (snoc r rs)
  then show ?case
    using mark_region_spec [of "fold mark_region rs a" r]
    by (auto simp: touching_def)
qed (simp add: touching_def)

text \<open>
  C25. Seeding the allocator from the firmware map: a frame is free afterwards exactly when
  the last region that touches it is usable (or no region touches it and it was free
  before), it lies outside the kernel image, and it is not the first frame. In particular
  the kernel image and frame 0 are never handed out.
\<close>

theorem seed_frames_free:
  assumes "pmm_inv a"
  shows "pmm_inv (seed_frames rs ks ke a) \<and>
    (f \<in> free_frames (seed_frames rs ks ke a) \<longleftrightarrow>
      f \<noteq> 0 \<and> f \<notin> range_frames (ks, ke) \<and>
      (case touching f rs of None \<Rightarrow> f \<in> free_frames a | Some r \<Rightarrow> region_type r = Usable))"
proof -
  have zero: "range_frames (0, word_of_nat PAGE_SIZE) = {0}"
    by (auto simp: range_frames_interval PAGE_SIZE_def div_ceil_def)
  from fold_mark_region [OF assms, of rs f] show ?thesis
    by (auto simp: seed_frames_def mark_used_range_spec zero)
qed

definition demo_regions :: "memory_region list" where
  "demo_regions =
     [\<lparr>region_start = 0x1800, region_end = 0x2000, region_type = Bootloader\<rparr>,
      \<lparr>region_start = 0x1000, region_end = 0x1800, region_type = Usable\<rparr>,
      \<lparr>region_start = 0x2000, region_end = 0x5000, region_type = Usable\<rparr>]"

theorem seed_frames_free_witness:
  "1 \<in> free_frames (seed_frames demo_regions 0x3000 0x4000 bitmap_new) \<and>
   3 \<notin> free_frames (seed_frames demo_regions 0x3000 0x4000 bitmap_new) \<and>
   0 \<notin> free_frames (seed_frames demo_regions 0x3000 0x4000 bitmap_new)"
  using seed_frames_free [OF pmm_inv_new, of demo_regions "0x3000" "0x4000"]
  by (simp add: touching_def demo_regions_def range_frames_interval div_ceil_def)

subsection \<open>The self-test of the frame allocator\<close>

lemma memory_self_test_state:
  assumes "pmm_inv (FRAME_ALLOCATOR s)" and "1000 \<le> free_count (FRAME_ALLOCATOR s)"
  obtains a where "memory_self_test s = Some (println ''[mem-test] frames free: {before} -> {during} -> {after} (expected -1000 then restored)''
       [ANum (free_count (FRAME_ALLOCATOR s)), ANum (free_count (FRAME_ALLOCATOR s) - 1000), ANum (free_count (FRAME_ALLOCATOR s))]
       (s\<lparr>FRAME_ALLOCATOR := a\<rparr>))" "pmm_inv a" "free_addrs a = free_addrs (FRAME_ALLOCATOR s)"
proof -
  have count: "pmm_inv c \<Longrightarrow> free_count c = card (free_addrs c)" for c
    by (simp add: free_count_card card_free_addrs)
  note inv = assms(1)
  obtain fs b where al: "alloc_many allocate_frame 1000 (FRAME_ALLOCATOR s) = (Some fs, b)"
    using pmm.alloc_many_enough [OF inv, of 1000] assms(2) count [OF inv] by auto
  note some = pmm.alloc_many_Some [OF inv al]
  have "set fs \<subseteq> managed_addrs"
    using some pmm.free_managed [OF inv] by blast
  then have inv': "pmm_inv (fold deallocate_frame fs b)"
    using some pmm.deallocate_many by blast
  have "free_count b = free_count (FRAME_ALLOCATOR s) - 1000"
    using some pmm.finite_free [OF inv] inv
    by (simp add: card_Diff_subset distinct_card count)
  with al inv inv' pmm.alloc_then_free [OF inv al] show thesis
    by (intro that [of "fold deallocate_frame fs b"]) (simp_all add: memory_self_test_def count)
qed

text \<open>The frame half of the memory self-test: with at least 1000 free frames it does not
  panic, prints \<open>n -> n - 1000 -> n\<close>, and leaves the set of free frames as it was.
\<close>

theorem memory_self_test_restores:
  assumes "pmm_inv (FRAME_ALLOCATOR s)" and "1000 \<le> free_count (FRAME_ALLOCATOR s)"
  shows "\<exists>s'. memory_self_test s = Some s' \<and>
    free_addrs (FRAME_ALLOCATOR s') = free_addrs (FRAME_ALLOCATOR s) \<and>
    (\<exists>fmt. serial s' = serial s @ [Print fmt [ANum (free_count (FRAME_ALLOCATOR s)),
      ANum (free_count (FRAME_ALLOCATOR s) - 1000), ANum (free_count (FRAME_ALLOCATOR s))]])"
proof -
  obtain a where "memory_self_test s = Some (println ''[mem-test] frames free: {before} -> {during} -> {after} (expected -1000 then restored)''
       [ANum (free_count (FRAME_ALLOCATOR s)), ANum (free_count (FRAME_ALLOCATOR s) - 1000), ANum (free_count (FRAME_ALLOCATOR s))]
       (s\<lparr>FRAME_ALLOCATOR := a\<rparr>))" "free_addrs a = free_addrs (FRAME_ALLOCATOR s)"
    by (rule memory_self_test_state [OF assms])
  then show ?thesis
    by (simp add: println_def print_def)
qed

definition ram_16m :: bitmap where
  "ram_16m = mark_free_range (0x100000, 0x1000000) bitmap_new"

lemma ram_16m: "pmm_inv ram_16m" "free_frames ram_16m = {256..<4096}"
  by (simp_all add: ram_16m_def mark_free_range_spec free_frames_new range_frames_interval div_ceil_def)

lemma ram_16m_count: "free_count ram_16m = 3840"
  by (simp add: free_count_card ram_16m)

definition ram_state :: memory where
  "ram_state = \<lparr>serial = [], FRAME_ALLOCATOR = ram_16m, READY = True, PHYS_OFFSET = 0,
     page_table = (\<lambda>_. None), heap_region = None\<rparr>"

theorem memory_self_test_restores_witness:
  "\<exists>s'. memory_self_test ram_state = Some s' \<and> free_addrs (FRAME_ALLOCATOR s') = free_addrs ram_16m \<and>
    (\<exists>fmt. serial s' = [Print fmt [ANum 3840, ANum 2840, ANum 3840]])"
  using memory_self_test_restores [of ram_state]
  by (simp add: ram_state_def ram_16m_count ram_16m(1))

subsection \<open>Mapping the heap\<close>

definition mapper_ok :: "map_to_fn \<Rightarrow> bool" where
  "mapper_ok map_to \<longleftrightarrow>
     (\<forall>p f fl pt a ok pt' a'. pmm_inv a \<longrightarrow> map_to p f fl (pt, a) = (ok, pt', a') \<longrightarrow>
        (\<exists>k\<le>3. \<exists>fs. alloc_many allocate_frame k a = (Some fs, a')) \<and>
        (ok \<longrightarrow> pt p = None \<and> pt' = pt(p \<mapsto> (f, fl))) \<and>
        (\<not> ok \<longrightarrow> pt' = pt) \<and>
        (pt p = None \<and> 3 \<le> card (free_addrs a) \<longrightarrow> ok))"

lemma allocate_and_map_ok:
  assumes "mapper_ok map_to" and "pmm_inv (FRAME_ALLOCATOR s)" and "READY s"
    and "4 \<le> card (free_addrs (FRAME_ALLOCATOR s))" and "page_table s p = None"
  obtains f s' where "allocate_and_map map_to p fl s = Some (Inr f, s')"
    "page_table s' = (page_table s)(p \<mapsto> (f, fl))" "READY s'" "pmm_inv (FRAME_ALLOCATOR s')"
    "f \<in> free_addrs (FRAME_ALLOCATOR s)" "f \<notin> free_addrs (FRAME_ALLOCATOR s')"
    "free_addrs (FRAME_ALLOCATOR s') \<subseteq> free_addrs (FRAME_ALLOCATOR s)"
    "card (free_addrs (FRAME_ALLOCATOR s)) \<le> card (free_addrs (FRAME_ALLOCATOR s')) + 4"
    "s' = s\<lparr>FRAME_ALLOCATOR := FRAME_ALLOCATOR s', page_table := page_table s'\<rparr>"
proof -
  let ?a = "FRAME_ALLOCATOR s"
  obtain r b where al: "allocate_frame ?a = (r, b)"
    by (cases "allocate_frame ?a") auto
  obtain f where f: "r = Some f"
    using al pmm.allocate_None [OF assms(2)] assms(4) by (cases r) auto
  from pmm.allocate_Some [OF assms(2)] al f
  have b: "f \<in> free_addrs ?a" "free_addrs b = free_addrs ?a - {f}" "pmm_inv b"
    by auto
  have fin: "finite (free_addrs ?a)"
    by (rule pmm.finite_free [OF assms(2)])
  have cardb: "card (free_addrs ?a) = Suc (card (free_addrs b))"
    using b fin by (metis card.remove)
  obtain ok pt c where mt: "map_to p f fl (page_table s, b) = (ok, pt, c)"
    by (metis prod_cases3)
  from assms(1) [unfolded mapper_ok_def, rule_format, OF b(3) mt] cardb assms(4,5)
  obtain k fs where ok: "ok" "pt = (page_table s)(p \<mapsto> (f, fl))" and k: "k \<le> 3"
    and many: "alloc_many allocate_frame k b = (Some fs, c)"
    by auto
  note c = pmm.alloc_many_Some [OF b(3) many]
  have cardc: "card (free_addrs b) \<le> card (free_addrs c) + 3"
  proof -
    have "card (free_addrs c) = card (free_addrs b) - k"
      using c pmm.finite_free [OF b(3)] by (simp add: card_Diff_subset distinct_card)
    with k show ?thesis by simp
  qed
  show thesis
    by (rule that [of f "s\<lparr>FRAME_ALLOCATOR := c, page_table := pt\<rparr>"])
      (use al f mt ok assms(3) b c cardb cardc in
        \<open>auto simp: allocate_and_map_def map_page_def active_mapper_def phys_offset_def\<close>)
qed

lemma heap_page_inj: "i < 256 \<Longrightarrow> j < 256 \<Longrightarrow> heap_page i = heap_page j \<Longrightarrow> i = j"
proof -
  assume ij: "i < 256" "j < 256" "heap_page i = heap_page j"
  then have "(word_of_nat (i * 4096) :: u64) = word_of_nat (j * 4096)"
    by (simp add: heap_page_def)
  then have "unat (word_of_nat (i * 4096) :: u64) = unat (word_of_nat (j * 4096) :: u64)"
    by (rule arg_cong)
  with ij show "i = j"
    by (simp add: unat_of_nat del: of_nat_mult)
qed

lemma map_heap_pages_ok:
  assumes "mapper_ok map_to"
  shows "\<lbrakk>pmm_inv (FRAME_ALLOCATOR s); READY s; distinct js; \<forall>i\<in>set js. i < 256;
     4 * length js \<le> card (free_addrs (FRAME_ALLOCATOR s));
     \<forall>i\<in>set js. page_table s (heap_page i) = None\<rbrakk> \<Longrightarrow>
   \<exists>s' fs. map_heap_pages map_to js s = Some s' \<and> length fs = length js \<and> distinct fs \<and>
     set fs \<subseteq> free_addrs (FRAME_ALLOCATOR s) \<and> set fs \<inter> free_addrs (FRAME_ALLOCATOR s') = {} \<and>
     free_addrs (FRAME_ALLOCATOR s') \<subseteq> free_addrs (FRAME_ALLOCATOR s) \<and> pmm_inv (FRAME_ALLOCATOR s') \<and>
     card (free_addrs (FRAME_ALLOCATOR s)) \<le> card (free_addrs (FRAME_ALLOCATOR s')) + 4 * length js \<and>
     s' = s\<lparr>FRAME_ALLOCATOR := FRAME_ALLOCATOR s', page_table := page_table s'\<rparr> \<and>
     (\<forall>k<length js. page_table s' (heap_page (js ! k)) = Some (fs ! k, kernel_data_flags)) \<and>
     (\<forall>p. p \<notin> heap_page ` set js \<longrightarrow> page_table s' p = page_table s p)"
proof (induction js arbitrary: s)
  case Nil
  then show ?case
    by (intro exI [of _ s] exI [of _ "[]"]) simp
next
  case (Cons i js)
  have "4 \<le> card (free_addrs (FRAME_ALLOCATOR s))" "page_table s (heap_page i) = None"
    using Cons.prems by auto
  from allocate_and_map_ok [OF assms Cons.prems(1,2) this, of kernel_data_flags]
  obtain f t where t: "allocate_and_map map_to (heap_page i) kernel_data_flags s = Some (Inr f, t)"
    "page_table t = (page_table s)(heap_page i \<mapsto> (f, kernel_data_flags))" "READY t"
    "pmm_inv (FRAME_ALLOCATOR t)" "f \<in> free_addrs (FRAME_ALLOCATOR s)"
    "f \<notin> free_addrs (FRAME_ALLOCATOR t)"
    "free_addrs (FRAME_ALLOCATOR t) \<subseteq> free_addrs (FRAME_ALLOCATOR s)"
    "card (free_addrs (FRAME_ALLOCATOR s)) \<le> card (free_addrs (FRAME_ALLOCATOR t)) + 4"
    "t = s\<lparr>FRAME_ALLOCATOR := FRAME_ALLOCATOR t, page_table := page_table t\<rparr>"
    by blast
  have fresh: "heap_page j \<noteq> heap_page i" if "j \<in> set js" for j
    using Cons.prems that heap_page_inj by fastforce
  from Cons.IH [of t] Cons.prems t fresh obtain s' fs where
    IH: "map_heap_pages map_to js t = Some s'" "length fs = length js" "distinct fs"
      "set fs \<subseteq> free_addrs (FRAME_ALLOCATOR t)" "set fs \<inter> free_addrs (FRAME_ALLOCATOR s') = {}"
      "free_addrs (FRAME_ALLOCATOR s') \<subseteq> free_addrs (FRAME_ALLOCATOR t)"
      "pmm_inv (FRAME_ALLOCATOR s')" "card (free_addrs (FRAME_ALLOCATOR t)) \<le> card (free_addrs (FRAME_ALLOCATOR s')) + 4 * length js"
      "s' = t\<lparr>FRAME_ALLOCATOR := FRAME_ALLOCATOR s', page_table := page_table s'\<rparr>"
      "\<forall>k<length js. page_table s' (heap_page (js ! k)) = Some (fs ! k, kernel_data_flags)"
      "\<forall>p. p \<notin> heap_page ` set js \<longrightarrow> page_table s' p = page_table t p"
    by auto
  have here: "page_table s' (heap_page i) = Some (f, kernel_data_flags)"
  proof -
    have "heap_page i \<notin> heap_page ` set js"
      using fresh by fastforce
    with IH(11) t(2) show ?thesis
      by simp
  qed
  have "s' = s\<lparr>FRAME_ALLOCATOR := FRAME_ALLOCATOR s', page_table := page_table s'\<rparr>"
    using IH(9) t(9) by (cases s; cases t; cases s') simp
  with IH t here show ?case
    by (intro exI [of _ s'] exI [of _ "f # fs"] conjI) (auto simp: nth_Cons split: nat.splits)
qed

lemma heap_init_state:
  assumes "mapper_ok map_to" and "pmm_inv (FRAME_ALLOCATOR s)" and "READY s"
    and "1024 \<le> free_count (FRAME_ALLOCATOR s)"
    and "\<forall>i<256. page_table s (heap_page i) = None"
  obtains a pt fs where "heap_init map_to s = Some (println ''[heap] {} KiB kernel heap mapped at {:#x}''
       [ANum (HEAP_SIZE div 1024), ANum (unat HEAP_START)]
       (s\<lparr>FRAME_ALLOCATOR := a, page_table := pt, heap_region := Some (HEAP_START, HEAP_SIZE)\<rparr>))"
    "length fs = 256" "distinct fs" "set fs \<subseteq> free_addrs (FRAME_ALLOCATOR s)" "set fs \<inter> free_addrs a = {}"
    "\<forall>k<256. pt (heap_page k) = Some (fs ! k, kernel_data_flags)"
    "\<forall>p. p \<notin> heap_page ` {..<256} \<longrightarrow> pt p = page_table s p"
    "pmm_inv a" "free_count (FRAME_ALLOCATOR s) \<le> free_count a + 1024"
proof -
  have "4 * length [0..<256] \<le> card (free_addrs (FRAME_ALLOCATOR s))"
    using assms(2,4) by (simp add: free_count_card card_free_addrs)
  from map_heap_pages_ok [OF assms(1,2,3) _ _ this] assms(5)
  obtain t fs where t: "map_heap_pages map_to [0..<256] s = Some t" "length fs = 256" "distinct fs"
     "set fs \<subseteq> free_addrs (FRAME_ALLOCATOR s)" "set fs \<inter> free_addrs (FRAME_ALLOCATOR t) = {}"
     "pmm_inv (FRAME_ALLOCATOR t)" "card (free_addrs (FRAME_ALLOCATOR s)) \<le> card (free_addrs (FRAME_ALLOCATOR t)) + 1024"
     "t = s\<lparr>FRAME_ALLOCATOR := FRAME_ALLOCATOR t, page_table := page_table t\<rparr>"
     "\<forall>k<256. page_table t (heap_page ([0..<256] ! k)) = Some (fs ! k, kernel_data_flags)"
     "\<forall>p. p \<notin> heap_page ` {..<256} \<longrightarrow> page_table t p = page_table s p"
    by (auto simp: atLeast0LessThan)
  have "heap_init map_to s = Some (println ''[heap] {} KiB kernel heap mapped at {:#x}''
       [ANum (HEAP_SIZE div 1024), ANum (unat HEAP_START)] (t\<lparr>heap_region := Some (HEAP_START, HEAP_SIZE)\<rparr>))"
    using t(1) by (simp add: heap_init_def HEAP_SIZE_def)
  then have "heap_init map_to s = Some (println ''[heap] {} KiB kernel heap mapped at {:#x}''
       [ANum (HEAP_SIZE div 1024), ANum (unat HEAP_START)]
       (s\<lparr>FRAME_ALLOCATOR := FRAME_ALLOCATOR t, page_table := page_table t, heap_region := Some (HEAP_START, HEAP_SIZE)\<rparr>))"
    using t(8) by (cases s; cases t) simp
  then show thesis
    by (rule that [where fs = fs]) (use t(1-7,9,10) assms(2) in \<open>simp_all add: free_count_card card_free_addrs\<close>)
qed

text \<open>
  Mapping the heap: with 1024 free frames, an unmapped heap range and a page-table walker
  that behaves as documented, \<open>heap::init\<close> does not panic; afterwards each of the 256 heap
  pages is mapped kernel-writable and non-executable to a frame of its own that was free and
  is no longer free, no other page changes, and the byte allocator owns exactly the range
  \<open>HEAP_START .. HEAP_START + HEAP_SIZE\<close>.
\<close>

theorem heap_init_maps:
  assumes "mapper_ok map_to" and "pmm_inv (FRAME_ALLOCATOR s)" and "READY s"
    and "1024 \<le> free_count (FRAME_ALLOCATOR s)"
    and "\<forall>i<256. page_table s (heap_page i) = None"
  shows "\<exists>s' fs. heap_init map_to s = Some s' \<and> length fs = 256 \<and> distinct fs \<and>
     set fs \<subseteq> free_addrs (FRAME_ALLOCATOR s) \<and> set fs \<inter> free_addrs (FRAME_ALLOCATOR s') = {} \<and>
     (\<forall>k<256. page_table s' (heap_page k) = Some (fs ! k, {PRESENT, WRITABLE, NO_EXECUTE})) \<and>
     (\<forall>p. p \<notin> heap_page ` {..<256} \<longrightarrow> page_table s' p = page_table s p) \<and>
     heap_region s' = Some (HEAP_START, HEAP_SIZE)"
proof -
  obtain a pt fs where "heap_init map_to s = Some (println ''[heap] {} KiB kernel heap mapped at {:#x}''
       [ANum (HEAP_SIZE div 1024), ANum (unat HEAP_START)]
       (s\<lparr>FRAME_ALLOCATOR := a, page_table := pt, heap_region := Some (HEAP_START, HEAP_SIZE)\<rparr>))"
    "length fs = 256" "distinct fs" "set fs \<subseteq> free_addrs (FRAME_ALLOCATOR s)" "set fs \<inter> free_addrs a = {}"
    "\<forall>k<256. pt (heap_page k) = Some (fs ! k, kernel_data_flags)"
    "\<forall>p. p \<notin> heap_page ` {..<256} \<longrightarrow> pt p = page_table s p"
    by (rule heap_init_state [OF assms])
  then show ?thesis
    by (simp add: println_def print_def kernel_data_flags_def) blast
qed

lemma memory_init_state:
  assumes "mapper_ok map_to" and "pmm_inv (FRAME_ALLOCATOR s)" and "physical_memory_offset boot = Some off"
    and "checked_add (kernel_addr boot) (kernel_len boot) = Some ke"
    and "1024 \<le> free_count (seed_frames (memory_regions boot) (kernel_addr boot) ke (FRAME_ALLOCATOR s))"
    and "\<forall>i<256. page_table s (heap_page i) = None"
  obtains a pt x y where "memory_init map_to boot s = Some (s\<lparr>serial := serial s @ [Print x y,
        Print (''[heap] {} KiB kernel heap mapped at {:#x}'' @ [CHR 0x0A]) [ANum (HEAP_SIZE div 1024), ANum (unat HEAP_START)]],
      FRAME_ALLOCATOR := a, READY := True, PHYS_OFFSET := off, page_table := pt, heap_region := Some (HEAP_START, HEAP_SIZE)\<rparr>)"
    "pmm_inv a" "free_count (seed_frames (memory_regions boot) (kernel_addr boot) ke (FRAME_ALLOCATOR s)) \<le> free_count a + 1024"
proof -
  let ?b = "seed_frames (memory_regions boot) (kernel_addr boot) ke (FRAME_ALLOCATOR s)"
  let ?s = "println ''[memory] phys mem mapped at {:#x}; {} usable regions, {} free frames''
    [ANum (unat off), ANum (count_usable (memory_regions boot)), ANum (free_count ?b)]
    ((set_phys_offset off s)\<lparr>FRAME_ALLOCATOR := ?b\<rparr>)"
  have "pmm_inv ?b"
    using fold_mark_region [OF assms(2)] by (simp add: seed_frames_def mark_used_range_spec)
  then have s: "pmm_inv (FRAME_ALLOCATOR ?s)" "READY ?s" "FRAME_ALLOCATOR ?s = ?b" "page_table ?s = page_table s"
    by (simp_all add: println_def print_def set_phys_offset_def)
  obtain a pt where "heap_init map_to ?s = Some (println ''[heap] {} KiB kernel heap mapped at {:#x}''
       [ANum (HEAP_SIZE div 1024), ANum (unat HEAP_START)]
       (?s\<lparr>FRAME_ALLOCATOR := a, page_table := pt, heap_region := Some (HEAP_START, HEAP_SIZE)\<rparr>))"
    and a: "pmm_inv a" "free_count ?b \<le> free_count a + 1024"
    by (rule heap_init_state [OF assms(1) s(1,2)]) (use assms(5,6) s(3,4) in auto)
  with assms(3,4) have "memory_init map_to boot s = Some (println ''[heap] {} KiB kernel heap mapped at {:#x}''
       [ANum (HEAP_SIZE div 1024), ANum (unat HEAP_START)]
       (?s\<lparr>FRAME_ALLOCATOR := a, page_table := pt, heap_region := Some (HEAP_START, HEAP_SIZE)\<rparr>))"
    by (simp add: memory_init_def set_phys_offset_def Let_def)
  then show thesis
    by (intro that [OF _ a, where pt = pt and x = "''[memory] phys mem mapped at {:#x}; {} usable regions, {} free frames'' @ [CHR 0x0A]"
          and y = "[ANum (unat off), ANum (count_usable (memory_regions boot)), ANum (free_count ?b)]"])
      (cases s, simp add: println_def print_def set_phys_offset_def)
qed

definition demo_map_to :: map_to_fn where
  "demo_map_to p f fl = (\<lambda>(pt, a). if pt p = None then (True, pt(p \<mapsto> (f, fl)), a) else (False, pt, a))"

lemma demo_mapper_ok: "mapper_ok demo_map_to"
proof -
  have "\<exists>k\<le>3. \<exists>fs. alloc_many allocate_frame k a = (Some fs, a)" for a
    by (intro exI [of _ 0]) simp
  then show ?thesis
    by (auto simp: mapper_ok_def demo_map_to_def split: if_splits)
qed

theorem heap_init_maps_witness:
  "\<exists>s' fs. heap_init demo_map_to ram_state = Some s' \<and> distinct fs \<and>
    page_table s' HEAP_START = Some (fs ! 0, {PRESENT, WRITABLE, NO_EXECUTE})"
proof -
  have "heap_page 0 = HEAP_START"
    by (simp add: heap_page_def)
  then show ?thesis
    using heap_init_maps [OF demo_mapper_ok, of ram_state]
    by (fastforce simp: ram_state_def ram_16m_count ram_16m(1))
qed

end
