(* ===== verification/Context.thy ===== *)
theory Context
  imports Prelude
begin

unbundle bit_operations_syntax

text \<open>
  Context switching (\<open>process/context.rs\<close>) and the per-task kernel stack
  (\<open>process/task.rs\<close>): the assembly routine \<open>__switch\<close> on a machine with the six
  callee-saved registers, the stack pointer and the instruction pointer, and the synthetic
  frame that a new task starts from.

  Every access is an aligned 8-byte access, so memory is a map from addresses to 8-byte
  cells. The address of the stack buffer comes from the byte allocator and is a parameter of
  \<open>kernel_stack_new\<close>; the address of \<open>task_trampoline\<close> is a parameter of
  \<open>initial_context\<close>.
\<close>

record cpu =
  rbx :: u64
  rbp :: u64
  r12 :: u64
  r13 :: u64
  r14 :: u64
  r15 :: u64
  rsp :: u64
  rip :: u64
  mem :: "u64 \<Rightarrow> u64"

definition push :: "u64 \<Rightarrow> cpu \<Rightarrow> cpu" where
  "push v c = c\<lparr>rsp := rsp c - 8, mem := (mem c)(rsp c - 8 := v)\<rparr>"

text \<open>The half of \<open>__switch\<close> that runs on the old stack: six pushes, then \<open>mov [rdi], rsp\<close>.\<close>

definition switch_save :: "u64 \<Rightarrow> cpu \<Rightarrow> cpu" where
  "switch_save old c =
     (let c = push (rbx c) c; c = push (rbp c) c; c = push (r12 c) c;
          c = push (r13 c) c; c = push (r14 c) c; c = push (r15 c) c
      in c\<lparr>mem := (mem c)(old := rsp c)\<rparr>)"

text \<open>The half that runs on the new stack: \<open>mov rsp, [rsi]\<close>, six pops, \<open>ret\<close>.\<close>

definition switch_restore :: "u64 \<Rightarrow> cpu \<Rightarrow> cpu" where
  "switch_restore new c =
     (let c = c\<lparr>rsp := mem c new\<rparr>;
          c = c\<lparr>r15 := mem c (rsp c), rsp := rsp c + 8\<rparr>;
          c = c\<lparr>r14 := mem c (rsp c), rsp := rsp c + 8\<rparr>;
          c = c\<lparr>r13 := mem c (rsp c), rsp := rsp c + 8\<rparr>;
          c = c\<lparr>r12 := mem c (rsp c), rsp := rsp c + 8\<rparr>;
          c = c\<lparr>rbp := mem c (rsp c), rsp := rsp c + 8\<rparr>;
          c = c\<lparr>rbx := mem c (rsp c), rsp := rsp c + 8\<rparr>
      in c\<lparr>rip := mem c (rsp c), rsp := rsp c + 8\<rparr>)"

definition switch :: "u64 \<Rightarrow> u64 \<Rightarrow> cpu \<Rightarrow> cpu" where
  "switch old new c = switch_restore new (switch_save old c)"

section \<open>The initial frame of a task\<close>

definition KERNEL_STACK_SIZE :: nat where "KERNEL_STACK_SIZE = 16 * 1024"

record kernel_stack =
  buffer_ptr :: u64
  buffer_len :: nat

definition kernel_stack_new :: "u64 \<Rightarrow> kernel_stack" where
  "kernel_stack_new ptr = \<lparr>buffer_ptr = ptr, buffer_len = KERNEL_STACK_SIZE\<rparr>"

definition aligned_base :: "kernel_stack \<Rightarrow> u64 option" where
  "aligned_base st = do {
     r \<leftarrow> checked_add (buffer_ptr st) 15;
     Some (r AND NOT 15)
   }"

definition usable_size :: "kernel_stack \<Rightarrow> u64 option" where
  "usable_size st = do {
     base \<leftarrow> aligned_base st;
     e \<leftarrow> checked_add (buffer_ptr st) (word_of_nat (buffer_len st));
     checked_sub (e AND NOT 15) base
   }"

fun zero_slots :: "nat list \<Rightarrow> u64 \<Rightarrow> (u64 \<Rightarrow> u64) \<Rightarrow> (u64 \<Rightarrow> u64)" where
  "zero_slots [] ret_slot m = m"
| "zero_slots (i # is) ret_slot m =
     zero_slots is ret_slot (m(ret_slot - 8 - word_of_nat i * 8 := 0))"

text \<open>Returns the saved stack pointer of the new \<open>TaskContext\<close> and the memory after the writes.\<close>

definition initial_context ::
  "u64 \<Rightarrow> u64 \<Rightarrow> u64 \<Rightarrow> (u64 \<Rightarrow> u64) \<Rightarrow> (u64 \<times> (u64 \<Rightarrow> u64)) option" where
  "initial_context trampoline stack_base stack_size m = do {
     e \<leftarrow> checked_add stack_base stack_size;
     let top = e AND NOT 15;
     ret_slot \<leftarrow> checked_sub top 16;
     let m = m(ret_slot := trampoline);
     let m = zero_slots [0..<6] ret_slot m;
     Some (ret_slot - 48, m)
   }"

definition stack_initial_context ::
  "u64 \<Rightarrow> kernel_stack \<Rightarrow> (u64 \<Rightarrow> u64) \<Rightarrow> (u64 \<times> (u64 \<Rightarrow> u64)) option" where
  "stack_initial_context trampoline st m = do {
     base \<leftarrow> aligned_base st;
     size \<leftarrow> usable_size st;
     initial_context trampoline base size m
   }"

definition stack_range :: "kernel_stack \<Rightarrow> (u64 \<times> u64) option" where
  "stack_range st = do {
     base \<leftarrow> aligned_base st;
     size \<leftarrow> usable_size st;
     Some (base, size)
   }"

section \<open>Switching away and back\<close>

text \<open>The seven cells a suspended task relies on: its six saved registers and the return
  address above them.\<close>

definition frame_cells :: "u64 \<Rightarrow> u64 set" where
  "frame_cells sp = (\<lambda>k. sp + word_of_nat k * 8) ` {..6}"

lemma frame_cells_eq:
  "frame_cells sp = {sp, sp + 8, sp + 16, sp + 24, sp + 32, sp + 40, sp + 48}"
proof -
  have "{..6} = {0, 1, 2, 3, 4, 5, 6 :: nat}"
    by auto
  then show ?thesis
    by (simp add: frame_cells_def)
qed

text \<open>The cells that saving a task writes below its stack pointer.\<close>

definition saved_cells :: "u64 \<Rightarrow> u64 set" where
  "saved_cells sp = {sp - 48, sp - 40, sp - 32, sp - 24, sp - 16, sp - 8}"

lemma switch_save_rsp: "rsp (switch_save old c) = rsp c - 48"
  by (simp add: switch_save_def push_def Let_def)

lemma switch_save_mem:
  "mem (switch_save old c) = (mem c)(rsp c - 8 := rbx c, rsp c - 16 := rbp c, rsp c - 24 := r12 c,
     rsp c - 32 := r13 c, rsp c - 40 := r14 c, rsp c - 48 := r15 c, old := rsp c - 48)"
  by (simp add: switch_save_def push_def Let_def)

lemma switch_save_elsewhere:
  assumes "a \<noteq> old" and "a \<notin> saved_cells (rsp c)"
  shows "mem (switch_save old c) a = mem c a"
  using assms by (simp add: switch_save_mem saved_cells_def)

lemma switch_restore_eq:
  assumes "mem c new = sp"
  shows "switch_restore new c = c\<lparr>rbx := mem c (sp + 40), rbp := mem c (sp + 32),
    r12 := mem c (sp + 24), r13 := mem c (sp + 16), r14 := mem c (sp + 8), r15 := mem c sp,
    rsp := sp + 56, rip := mem c (sp + 48)\<rparr>"
  using assms by (cases c) (simp add: switch_restore_def Let_def add.commute)

lemma restore_after_save:
  assumes "old \<notin> frame_cells (rsp c - 48)"
    and "\<forall>a \<in> insert old (frame_cells (rsp c - 48)). mem d a = mem (switch_save old c) a"
  shows "switch_restore old d = c\<lparr>rsp := rsp c + 8, rip := mem c (rsp c), mem := mem d\<rparr>"
proof -
  have sp: "mem d old = rsp c - 48"
    using assms(2) by (simp add: switch_save_mem)
  show ?thesis
    using assms
    by (auto simp: switch_restore_eq [OF sp] switch_save_mem frame_cells_eq intro!: cpu.equality)
qed

lemma and_not_mask: "(x :: 'a::len word) AND NOT (mask n) = push_bit n (drop_bit n x)"
  by (intro bit_word_eqI) (auto simp: bit_simps)

lemma align_down: "unat ((x :: u64) AND - 16) = unat x div 16 * 16"
proof -
  have "x AND - 16 = push_bit 4 (drop_bit 4 x)"
    using and_not_mask [of x 4] by (simp add: mask_eq_exp_minus_1)
  then have "unat (x AND - 16) = unat x div 16 * 16 mod 2 ^ 64"
    by (simp add: push_bit_eq_mult drop_bit_eq_div unat_word_ariths unat_div mod_mult_left_eq)
  moreover have "unat x div 16 * 16 < 2 ^ 64"
    using unat_less [of x] div_times_less_eq_dividend [of "unat x" 16]
    by (simp del: div_times_less_eq_dividend)
  ultimately show ?thesis
    by simp
qed

lemma zero_slots_mem:
  "zero_slots [0..<6] rs m = m(rs - 8 := 0, rs - 16 := 0, rs - 24 := 0, rs - 32 := 0, rs - 40 := 0, rs - 48 := 0)"
  by (simp add: upt_rec)

text \<open>Where the frame of a new task ends up in its buffer.\<close>

lemma stack_initial_context_eq:
  assumes "unat p + 16384 + 15 < 2 ^ 64"
  obtains sp where
    "stack_initial_context tr (kernel_stack_new p) m =
       Some (sp, m(sp + 48 := tr, sp + 40 := 0, sp + 32 := 0, sp + 24 := 0, sp + 16 := 0, sp + 8 := 0, sp := 0))"
    "unat sp = (unat p + 16384) div 16 * 16 - 64"
proof -
  have b: "aligned_base (kernel_stack_new p) = Some ((p + 15) AND NOT 15)"
    using assms by (simp add: aligned_base_def kernel_stack_new_def checked_add_def)
  define base where "base = (p + 15) AND NOT 15"
  define e where "e = (p + 16384) AND NOT 15"
  have bb: "aligned_base (kernel_stack_new p) = Some base"
    by (simp only: b base_def)
  have base: "unat base = (unat p + 15) div 16 * 16"
    using assms by (simp add: base_def align_down unat_word_ariths)
  have e: "unat e = (unat p + 16384) div 16 * 16"
    using assms by (simp add: e_def align_down unat_word_ariths)
  have le: "base \<le> e"
    by (simp add: word_le_nat_alt base e)
  have size: "usable_size (kernel_stack_new p) = Some (e - base)"
    using assms b le
    by (simp add: usable_size_def kernel_stack_new_def KERNEL_STACK_SIZE_def checked_add_def
        checked_sub_def base_def e_def)
  have sum: "unat base + unat (e - base) = unat e"
    using le by (simp add: unat_sub word_le_nat_alt)
  have align: "e AND - 16 = e"
    by (rule word_unat_eq_iff [THEN iffD2]) (simp add: align_down e)
  have "unat (16 :: u64) \<le> unat e"
    by (simp add: e)
  then have ge: "16 \<le> e"
    by (simp only: word_le_nat_alt)
  have ctx: "initial_context tr base (e - base) m =
      Some (e - 64, zero_slots [0..<6] (e - 16) (m(e - 16 := tr)))"
    using sum ge unat_less [of e]
    by (simp add: initial_context_def checked_add_def checked_sub_def align Let_def)
  have "unat (64 :: u64) \<le> unat e"
    by (simp add: e)
  then have "unat (e - 64) = unat e - 64"
    by (subst unat_sub) (simp_all add: word_le_nat_alt)
  then show thesis
    using that [of "e - 64"] bb size ctx e
    by (simp add: stack_initial_context_def zero_slots_mem)
qed

section \<open>Properties\<close>

text \<open>
  Every cell of a new task's initial frame lies inside the task's own 16 KiB stack buffer,
  whatever address the allocator returned for it, the saved stack pointer is 16-byte
  aligned, and no other memory is written.
\<close>

theorem initial_frame_fits:
  assumes "unat p + 16384 + 15 < 2 ^ 64"
  shows "\<exists>sp m'. stack_initial_context tr (kernel_stack_new p) m = Some (sp, m') \<and>
    unat sp mod 16 = 0 \<and>
    (\<forall>a \<in> frame_cells sp. unat p \<le> unat a \<and> unat a + 8 \<le> unat p + KERNEL_STACK_SIZE) \<and>
    (\<forall>a. a \<notin> frame_cells sp \<longrightarrow> m' a = m a)"
proof -
  from stack_initial_context_eq [OF assms, of tr m] obtain sp where
    ctx: "stack_initial_context tr (kernel_stack_new p) m =
       Some (sp, m(sp + 48 := tr, sp + 40 := 0, sp + 32 := 0, sp + 24 := 0, sp + 16 := 0, sp + 8 := 0, sp := 0))"
    and sp: "unat sp = (unat p + 16384) div 16 * 16 - 64"
    by blast
  have cell: "unat (sp + word_of_nat k * 8) = unat sp + k * 8" if "k \<le> 6" for k
    using that sp assms by (simp add: unat_word_ariths unat_of_nat)
  have "\<forall>a \<in> frame_cells sp. unat p \<le> unat a \<and> unat a + 8 \<le> unat p + 16384"
  proof
    fix a
    assume "a \<in> frame_cells sp"
    then obtain k where "k \<le> 6" "unat a = unat sp + k * 8"
      using cell by (auto simp: frame_cells_def)
    then show "unat p \<le> unat a \<and> unat a + 8 \<le> unat p + 16384"
      using sp by simp linarith
  qed
  moreover have "unat sp = ((unat p + 16384) div 16 - 4) * 16"
    using sp by (simp add: diff_mult_distrib)
  then have "unat sp mod 16 = 0"
    by (simp only: mod_mult_self2_is_0)
  ultimately show ?thesis
    using ctx by (auto simp: frame_cells_eq KERNEL_STACK_SIZE_def)
qed

theorem initial_frame_fits_witness:
  "\<exists>sp m'. stack_initial_context 0x401000 (kernel_stack_new 0xffffa00000000008) (\<lambda>_. 7) = Some (sp, m') \<and>
    unat sp mod 16 = 0 \<and> m' 0 = 7"
proof -
  have len: "unat (0xffffa00000000008 :: u64) + 16384 + 15 < 2 ^ 64"
    by simp
  from initial_frame_fits [OF len, of "0x401000" "\<lambda>_. 7"] obtain sp m' where
    ctx: "stack_initial_context 0x401000 (kernel_stack_new 0xffffa00000000008) (\<lambda>_. 7) = Some (sp, m')"
      "unat sp mod 16 = 0" "\<forall>a. a \<notin> frame_cells sp \<longrightarrow> m' a = 7"
    and cells: "\<forall>a\<in>frame_cells sp. unat (0xffffa00000000008 :: u64) \<le> unat a \<and>
      unat a + 8 \<le> unat (0xffffa00000000008 :: u64) + KERNEL_STACK_SIZE"
    by (elim exE conjE)
  have "0 \<notin> frame_cells sp"
    using cells by (intro notI) (drule (1) bspec, simp)
  with ctx show ?thesis
    by (intro exI conjI) (assumption | simp)+
qed

text \<open>
  The first switch to a new task: provided saving the old task does not touch the new
  frame, the processor ends up at the trampoline with all six callee-saved registers zero
  and the stack pointer congruent to 8 modulo 16, as the calling convention requires on
  entry to a function.
\<close>

theorem fresh_task_enters_trampoline:
  assumes "unat p + 16384 + 15 < 2 ^ 64"
    and "stack_initial_context tr (kernel_stack_new p) m = Some (sp, m')"
    and "mem (switch_save old c) new = sp"
    and "\<forall>a \<in> frame_cells sp. mem (switch_save old c) a = m' a"
  shows "rip (switch old new c) = tr \<and> unat (rsp (switch old new c)) mod 16 = 8 \<and>
    rbx (switch old new c) = 0 \<and> rbp (switch old new c) = 0 \<and> r12 (switch old new c) = 0 \<and>
    r13 (switch old new c) = 0 \<and> r14 (switch old new c) = 0 \<and> r15 (switch old new c) = 0"
proof -
  from stack_initial_context_eq [OF assms(1), of tr m] assms(2) have
    m': "m' = m(sp + 48 := tr, sp + 40 := 0, sp + 32 := 0, sp + 24 := 0, sp + 16 := 0, sp + 8 := 0, sp := 0)"
    and sp: "unat sp = (unat p + 16384) div 16 * 16 - 64"
    by auto
  have "unat (sp + 56) = unat sp + 56"
    using sp assms(1) by (simp add: unat_word_ariths)
  moreover have "unat sp + 56 = ((unat p + 16384) div 16 - 1) * 16 + 8"
    using sp by (simp add: diff_mult_distrib)
  ultimately have eq: "unat (sp + 56) = ((unat p + 16384) div 16 - 1) * 16 + 8"
    by (rule trans)
  have "unat (sp + 56) mod 16 = 8"
    unfolding eq by (subst mod_mult_self3) simp
  moreover have "mem (switch_save old c) a = m' a" if "a \<in> frame_cells sp" for a
    using assms(4) that by (rule bspec)
  note this [unfolded frame_cells_eq]
  ultimately show ?thesis
    unfolding switch_def switch_restore_eq [OF assms(3)] by (simp add: m')
qed

definition boot_cpu :: cpu where
  "boot_cpu = \<lparr>rbx = 1, rbp = 2, r12 = 3, r13 = 4, r14 = 5, r15 = 6, rsp = 0x7000, rip = 0x100,
     mem = (\<lambda>_. 0)(0x7000 := 0x123)\<rparr>"

theorem fresh_task_enters_trampoline_witness:
  "\<exists>sp m'. stack_initial_context 0x401000 (kernel_stack_new 0x10000) (mem boot_cpu) = Some (sp, m') \<and>
    rip (switch 0x20 0x28 (boot_cpu\<lparr>mem := m'(0x28 := sp)\<rparr>)) = 0x401000"
proof -
  have len: "unat (0x10000 :: u64) + 16384 + 15 < 2 ^ 64"
    by simp
  from stack_initial_context_eq [OF len, of "0x401000" "mem boot_cpu"] obtain sp where
    ctx: "stack_initial_context 0x401000 (kernel_stack_new 0x10000) (mem boot_cpu) =
       Some (sp, (mem boot_cpu)(sp + 48 := 0x401000, sp + 40 := 0, sp + 32 := 0, sp + 24 := 0,
         sp + 16 := 0, sp + 8 := 0, sp := 0))"
    and "unat sp = 81856"
    by auto
  then have sp: "sp = 0x13fc0"
    by (simp add: word_unat_eq_iff)
  let ?m = "(mem boot_cpu)(sp + 48 := 0x401000, sp + 40 := 0, sp + 32 := 0, sp + 24 := 0,
         sp + 16 := 0, sp + 8 := 0, sp := 0)"
  let ?c = "boot_cpu\<lparr>mem := ?m(0x28 := sp)\<rparr>"
  have "mem (switch_save 0x20 ?c) 0x28 = sp"
    by (simp add: switch_save_mem boot_cpu_def)
  moreover have "\<forall>a \<in> frame_cells sp. mem (switch_save 0x20 ?c) a = ?m a"
    by (simp add: switch_save_mem boot_cpu_def frame_cells_eq sp)
  ultimately have "rip (switch 0x20 0x28 ?c) = 0x401000"
    using fresh_task_enters_trampoline [OF len ctx, of "0x20" ?c "0x28"] by blast
  with ctx show ?thesis
    by blast
qed

text \<open>
  C24. A task that is switched out and later switched back to resumes exactly where it called
  \<open>__switch\<close>: if its saved frame and context were left alone meanwhile and the task running
  then saves itself elsewhere, every callee-saved register has its old value, the stack
  pointer is the one after the return, and execution continues at the return address.
\<close>

theorem switch_round_trip:
  assumes "old \<notin> frame_cells (rsp c - 48)"
    and "\<forall>a \<in> insert old (frame_cells (rsp c - 48)). mem d a = mem (switch old new c) a"
    and "insert new (saved_cells (rsp d)) \<inter> insert old (frame_cells (rsp c - 48)) = {}"
  shows "switch new old d =
    c\<lparr>rsp := rsp c + 8, rip := mem c (rsp c), mem := mem (switch new old d)\<rparr>"
proof -
  have keep: "mem (switch_save new d) a = mem d a" if "a \<in> insert old (frame_cells (rsp c - 48))" for a
    using assms(3) that by (intro switch_save_elsewhere) blast+
  have frame: "mem (switch old new c) = mem (switch_save old c)"
    by (simp add: switch_def switch_restore_eq [OF refl])
  have "switch_restore old (switch_save new d) =
      c\<lparr>rsp := rsp c + 8, rip := mem c (rsp c), mem := mem (switch_save new d)\<rparr>"
    using assms(1,2) keep frame by (intro restore_after_save) auto
  then show ?thesis
    by (simp add: switch_def)
qed

theorem switch_round_trip_witness:
  "let c = boot_cpu\<lparr>mem := (mem boot_cpu)(0x28 := 0x8fc0)\<rparr>;
       d = (switch 0x20 0x28 c)\<lparr>rbx := 99, r15 := 98\<rparr>;
       e = switch 0x28 0x20 d
   in rbx e = 1 \<and> r15 e = 6 \<and> rsp e = 0x7008 \<and> rip e = 0x123"
proof -
  let ?c = "boot_cpu\<lparr>mem := (mem boot_cpu)(0x28 := 0x8fc0)\<rparr>"
  let ?d = "(switch 0x20 0x28 ?c)\<lparr>rbx := 99, r15 := 98\<rparr>"
  have rsp: "rsp ?d = 0x8ff8"
    by (simp add: switch_def switch_restore_eq [OF refl] switch_save_mem boot_cpu_def)
  have 1: "0x20 \<notin> frame_cells (rsp ?c - 48)"
    by (simp add: frame_cells_eq boot_cpu_def)
  have 2: "\<forall>a \<in> insert 0x20 (frame_cells (rsp ?c - 48)). mem ?d a = mem (switch 0x20 0x28 ?c) a"
    by simp
  have 3: "insert 0x28 (saved_cells (rsp ?d)) \<inter> insert 0x20 (frame_cells (rsp ?c - 48)) = {}"
    unfolding rsp by (simp add: frame_cells_eq saved_cells_def boot_cpu_def)
  define e where "e = switch 0x28 0x20 ?d"
  have e: "e = ?c\<lparr>rsp := rsp ?c + 8, rip := mem ?c (rsp ?c), mem := mem e\<rparr>"
    unfolding e_def by (rule switch_round_trip [OF 1 2 3])
  have "rbx e = 1 \<and> r15 e = 6 \<and> rsp e = 0x7008 \<and> rip e = 0x123"
    by (subst (1 2 3 4) e) (simp add: boot_cpu_def)
  then show ?thesis
    by (simp only: e_def Let_def)
qed

end
