(* ===== verification/Scheduler.thy ===== *)
theory Scheduler
  imports Context Serial
begin

text \<open>
  The round-robin scheduler (\<open>process/scheduler.rs\<close>), the task type (\<open>process/task.rs\<close>) and
  the tick counter and timer interrupt that drive it (\<open>timer.rs\<close>, \<open>interrupts.rs\<close>).

  One definition per operation, with the state of the scheduler lock's data, the tick
  counter, the interrupt flag and the memory the initial frames are written to. A critical
  section of the lock is one step. \<open>__switch\<close> itself is in \<open>Context\<close>: an operation here
  returns the request to switch, \<open>SwitchTo old new e\<close>, where \<open>e\<close> is the interrupt flag the
  suspended caller restores when it is resumed. \<open>None\<close> is a panic or, in \<open>ctx_ptr\<close>, the
  undefined behaviour of \<open>unwrap_unchecked\<close> on an empty slot. A task body is a value of a
  type parameter; the stack address chosen by the byte allocator and the address of the
  trampoline are parameters of \<open>spawn\<close>.
\<close>

datatype task_state = Ready | Running | Blocked | Zombie

datatype block_reason = NotBlocked | Sleep u64 | Join u32

record 'f task =
  task_id :: u32
  state :: task_state
  block :: block_reason
  ctx :: u64
  slice_left :: u64
  stack :: kernel_stack
  func :: "'f option"

record 'f sched = console +
  slots :: "'f task option list"
  current :: nat
  next_id :: u32
  cursor :: nat
  ACTIVE :: bool
  TICKS :: u64
  int_flag :: bool
  kmem :: "u64 \<Rightarrow> u64"

datatype ctx_loc = BootCtx | TaskCtx nat

datatype switch_req = Stay | SwitchTo ctx_loc ctx_loc bool | IdleForever

definition DEFAULT_SLICE :: u64 where "DEFAULT_SLICE = 2"
definition NO_TASK :: nat where "NO_TASK = 2 ^ 64 - 1"

definition sched_new :: "'f sched" where
  "sched_new = \<lparr>serial = [], slots = [], current = NO_TASK, next_id = 1, cursor = 0,
     ACTIVE = False, TICKS = 0, int_flag = False, kmem = (\<lambda>_. 0)\<rparr>"

section \<open>Tasks\<close>

definition task_new ::
  "u64 \<Rightarrow> u64 \<Rightarrow> u32 \<Rightarrow> 'f \<Rightarrow> u64 \<Rightarrow> (u64 \<Rightarrow> u64) \<Rightarrow> ('f task \<times> (u64 \<Rightarrow> u64)) option" where
  "task_new tramp ptr i f sl m = do {
     let st = kernel_stack_new ptr;
     let m = (\<lambda>a. if unat ptr \<le> unat a \<and> unat a < unat ptr + KERNEL_STACK_SIZE then 0 else m a);
     (c, m) \<leftarrow> stack_initial_context tramp st m;
     Some (\<lparr>task_id = i, state = Ready, block = NotBlocked, ctx = c, slice_left = sl,
            stack = st, func = Some f\<rparr>, m)
   }"

definition take_func :: "'f task \<Rightarrow> 'f option \<times> 'f task" where
  "take_func t = (func t, t\<lparr>func := None\<rparr>)"

section \<open>The scheduler's table\<close>

definition add_task :: "u64 \<Rightarrow> u64 \<Rightarrow> 'f \<Rightarrow> 'f sched \<Rightarrow> (u32 \<times> 'f sched) option" where
  "add_task tramp ptr f s = do {
     let i = next_id s;
     n \<leftarrow> checked_add (next_id s) 1;
     (t, m) \<leftarrow> task_new tramp ptr i f DEFAULT_SLICE (kmem s);
     Some (i, s\<lparr>next_id := n, kmem := m, slots := fst (place t (slots s))\<rparr>)
   }"

definition has_id :: "u32 \<Rightarrow> 'f task option \<Rightarrow> bool" where
  "has_id i sl = (case sl of Some t \<Rightarrow> task_id t = i | None \<Rightarrow> False)"

definition find_slot :: "u32 \<Rightarrow> 'f sched \<Rightarrow> nat option" where
  "find_slot i s = position (has_id i) (slots s)"

definition is_ready :: "'f task option \<Rightarrow> bool" where
  "is_ready sl = (case sl of Some t \<Rightarrow> state t = Ready | None \<Rightarrow> False)"

definition next_ready :: "'f sched \<Rightarrow> nat option" where
  "next_ready s =
     (let n = length (slots s) in
      find (\<lambda>i. is_ready (slots s ! i)) (map (\<lambda>i. (cursor s + i) mod n) [0..<n]))"

definition ctx_ptr :: "'f task option list \<Rightarrow> nat \<Rightarrow> ctx_loc option" where
  "ctx_ptr sl i =
     (if i = NO_TASK then Some BootCtx
      else case slot sl i of Some _ \<Rightarrow> Some (TaskCtx i) | None \<Rightarrow> None)"

definition prep_switch :: "nat \<Rightarrow> 'f sched \<Rightarrow> ((ctx_loc \<times> ctx_loc) \<times> 'f sched) option" where
  "prep_switch i s = do {
     old \<leftarrow> ctx_ptr (slots s) (current s);
     t \<leftarrow> get_at (slots s) i;
     let s = s\<lparr>slots := (slots s)[i := map_option (\<lambda>t. t\<lparr>state := Running\<rparr>) t],
               current := i, cursor := i + 1\<rparr>;
     new \<leftarrow> ctx_ptr (slots s) i;
     Some ((old, new), s)
   }"

section \<open>Operations\<close>

definition sched_init :: "'f sched \<Rightarrow> 'f sched" where
  "sched_init s = s\<lparr>ACTIVE := True\<rparr>"

definition spawn :: "u64 \<Rightarrow> u64 \<Rightarrow> 'f \<Rightarrow> 'f sched \<Rightarrow> (u32 \<times> 'f sched) option" where
  "spawn tramp ptr f s = add_task tramp ptr f s"

definition start :: "'f sched \<Rightarrow> (switch_req \<times> 'f sched) option" where
  "start s =
     (case next_ready s of
        None \<Rightarrow> Some (IdleForever, println ''[sched] no tasks to run'' [] s)
      | Some i \<Rightarrow> do {
          let s = s\<lparr>int_flag := False\<rparr>;
          ((old, new), s) \<leftarrow> prep_switch i s;
          Some (SwitchTo old new True, s)
        })"

text \<open>The demotion at the head of \<open>schedule\<close>: a running task that reaches it becomes ready.\<close>

definition demote :: "'f task \<Rightarrow> 'f task" where
  "demote t = (if state t = Running then t\<lparr>state := Ready\<rparr> else t)"

definition demote_current :: "'f sched \<Rightarrow> 'f sched option" where
  "demote_current s =
     (if current s \<noteq> NO_TASK then do {
        t \<leftarrow> get_at (slots s) (current s);
        Some (s\<lparr>slots := (slots s)[current s := map_option demote t]\<rparr>)
      } else Some s)"

definition schedule :: "'f sched \<Rightarrow> (switch_req \<times> 'f sched) option" where
  "schedule s = do {
     let was_enabled = int_flag s;
     let s = s\<lparr>int_flag := False\<rparr>;
     s \<leftarrow> demote_current s;
     (case next_ready s of
        Some i \<Rightarrow> do {
          ((old, new), s) \<leftarrow> prep_switch i s;
          Some (SwitchTo old new was_enabled, s)
        }
      | None \<Rightarrow> Some (Stay, if was_enabled then s\<lparr>int_flag := True\<rparr> else s))
   }"

text \<open>What a task suspended by \<open>schedule\<close> does first when it is resumed.\<close>

definition resume :: "bool \<Rightarrow> 'f sched \<Rightarrow> 'f sched" where
  "resume was_enabled s = (if was_enabled then s\<lparr>int_flag := True\<rparr> else s)"

definition yield_now :: "'f sched \<Rightarrow> (switch_req \<times> 'f sched) option" where
  "yield_now s = (if ACTIVE s then schedule s else Some (Stay, s))"

text \<open>Block the current task for a reason: the critical section of \<open>sleep\<close> and of \<open>join\<close>.\<close>

definition block_current :: "block_reason \<Rightarrow> 'f sched \<Rightarrow> 'f sched option" where
  "block_current r s = do {
     t \<leftarrow> get_at (slots s) (current s);
     Some (s\<lparr>slots := (slots s)[current s :=
       map_option (\<lambda>t. t\<lparr>state := Blocked, block := r\<rparr>) t]\<rparr>)
   }"

definition sleep :: "u64 \<Rightarrow> 'f sched \<Rightarrow> (switch_req \<times> 'f sched) option" where
  "sleep ticks s =
     (if \<not> ACTIVE s then Some (Stay, s)
      else do {
        wake \<leftarrow> checked_add (TICKS s) ticks;
        s \<leftarrow> block_current (Sleep wake) s;
        schedule s
      })"

definition join_done :: "u32 \<Rightarrow> 'f sched \<Rightarrow> bool option" where
  "join_done i s =
     (case find_slot i s of
        None \<Rightarrow> Some True
      | Some k \<Rightarrow> (case slot (slots s) k of Some t \<Rightarrow> Some (state t = Zombie) | None \<Rightarrow> None))"

definition join :: "u32 \<Rightarrow> 'f sched \<Rightarrow> (switch_req \<times> 'f sched) option" where
  "join i s =
     (if \<not> ACTIVE s then Some (Stay, s)
      else do {
        d \<leftarrow> join_done i s;
        if d then Some (Stay, s)
        else do {
          s \<leftarrow> block_current (Join i) s;
          schedule s
        }
      })"

definition wake_joiner :: "u32 \<Rightarrow> 'f task \<Rightarrow> 'f task" where
  "wake_joiner dead t =
     (if state t = Blocked then
        (case block t of
           Join i \<Rightarrow> if i = dead then t\<lparr>state := Ready, block := NotBlocked\<rparr> else t
         | _ \<Rightarrow> t)
      else t)"

definition exit_current :: "'f sched \<Rightarrow> (switch_req \<times> 'f sched) option" where
  "exit_current s = do {
     let s = s\<lparr>int_flag := False\<rparr>;
     let cur = current s;
     c \<leftarrow> get_at (slots s) cur;
     t \<leftarrow> c;
     let dead = task_id t;
     let s = s\<lparr>slots := (slots s)[cur := Some (t\<lparr>state := Zombie\<rparr>)]\<rparr>;
     let s = s\<lparr>slots := map (map_option (wake_joiner dead)) (slots s)\<rparr>;
     let next = next_ready s;
     let s = s\<lparr>slots := (slots s)[cur := None], current := NO_TASK\<rparr>;
     (case next of
        Some i \<Rightarrow> do {
          ((old, new), s) \<leftarrow> prep_switch i s;
          Some (SwitchTo BootCtx new False, s)
        }
      | None \<Rightarrow> Some (IdleForever, s\<lparr>int_flag := True\<rparr>))
   }"

text \<open>The head of \<open>current_task_body\<close>: take the body out of the task and enable interrupts to
  run it. \<open>exit_current\<close> follows when the body returns (or there was none).\<close>

definition current_task_body :: "'f sched \<Rightarrow> ('f option \<times> 'f sched) option" where
  "current_task_body s = do {
     c \<leftarrow> get_at (slots s) (current s);
     t \<leftarrow> c;
     let (f, t) = take_func t;
     let s = s\<lparr>slots := (slots s)[current s := Some t]\<rparr>;
     Some (f, case f of Some _ \<Rightarrow> s\<lparr>int_flag := True\<rparr> | None \<Rightarrow> s)
   }"

definition wake_sleeper :: "u64 \<Rightarrow> 'f task \<Rightarrow> 'f task" where
  "wake_sleeper now t =
     (if state t = Blocked then
        (case block t of
           Sleep wake_at \<Rightarrow> if now \<ge> wake_at then t\<lparr>state := Ready, block := NotBlocked\<rparr> else t
         | _ \<Rightarrow> t)
      else t)"

text \<open>Charge the running task one tick: is it to be preempted?\<close>

definition charge_slice :: "'f sched \<Rightarrow> (bool \<times> 'f sched) option" where
  "charge_slice s =
     (if current s = NO_TASK then Some (False, s)
      else do {
        c \<leftarrow> get_at (slots s) (current s);
        (case c of
           Some t \<Rightarrow>
             if slice_left t = 0
             then Some (True, s\<lparr>slots := (slots s)[current s := Some (t\<lparr>slice_left := DEFAULT_SLICE\<rparr>)]\<rparr>)
             else Some (False, s\<lparr>slots := (slots s)[current s := Some (t\<lparr>slice_left := slice_left t - 1\<rparr>)]\<rparr>)
         | None \<Rightarrow> Some (False, s))
      })"

definition tick :: "'f sched \<Rightarrow> (switch_req \<times> 'f sched) option" where
  "tick s =
     (if \<not> ACTIVE s then Some (Stay, s)
      else do {
        let s = s\<lparr>slots := map (map_option (wake_sleeper (TICKS s))) (slots s)\<rparr>;
        (preempt, s) \<leftarrow> charge_slice s;
        if preempt then schedule s else Some (Stay, s)
      })"

definition timer_tick :: "'f sched \<Rightarrow> 'f sched" where
  "timer_tick s = s\<lparr>TICKS := TICKS s + 1\<rparr>"

text \<open>The timer interrupt: the processor clears the interrupt flag on entry. (The end-of-interrupt
  write to the 8259 goes to the interrupt controller and changes no state of the kernel.)\<close>

definition timer_interrupt_handler :: "'f sched \<Rightarrow> (switch_req \<times> 'f sched) option" where
  "timer_interrupt_handler s = tick (timer_tick (s\<lparr>int_flag := False\<rparr>))"

definition task_count :: "'f sched \<Rightarrow> nat" where
  "task_count s = live (slots s)"

fun state_name :: "task_state \<Rightarrow> string" where
  "state_name Ready = ''ready''"
| "state_name Running = ''running''"
| "state_name Blocked = ''blocked''"
| "state_name Zombie = ''zombie''"

definition snapshot :: "'f sched \<Rightarrow> (u32 \<times> string) list" where
  "snapshot s = map (\<lambda>t. (task_id t, state_name (state t))) (List.map_filter id (slots s))"

end
