(* ===== verification/Scheduler_Invariant.thy ===== *)
theory Scheduler_Invariant
  imports Scheduler
begin

text \<open>
  The scheduler's invariant and its preservation by every operation: the current slot is
  live, only the current task is running, no task is left a zombie, identifiers are unique
  and below the next one, and every task blocked in \<open>join\<close> waits for a task that is still in
  the table. The steps of the system are an inductive relation, the invariant holds in every
  reachable state.
\<close>

named_theorems sched_defs \<open>definitions of the scheduler's operations\<close>

section \<open>Lemmas on the slot table\<close>

lemma slot_map: "slot (map (map_option f) xs) i = map_option f (slot xs i)"
  by (simp add: slot_def)

lemma get_at_slot: "get_at xs i = Some y \<Longrightarrow> i < length xs \<and> slot xs i = y"
  by (auto simp: get_at_def slot_def split: if_splits)

lemma slot_get_at: "slot xs i = Some t \<Longrightarrow> get_at xs i = Some (Some t)"
  by (auto simp: get_at_def slot_def split: if_splits)

lemma get_at_update: "get_at xs i = Some y \<Longrightarrow> slot (xs[i := z]) = (slot xs)(i := z)"
  by (auto dest!: get_at_slot simp: slot_simps)

section \<open>The invariant\<close>

definition ids_ok :: "'f sched \<Rightarrow> bool" where
  "ids_ok s \<longleftrightarrow>
     (\<forall>i j t u. slot (slots s) i = Some t \<longrightarrow> slot (slots s) j = Some u \<longrightarrow>
        task_id t = task_id u \<longrightarrow> i = j) \<and>
     (\<forall>i t. slot (slots s) i = Some t \<longrightarrow> unat (task_id t) < unat (next_id s)) \<and>
     length (slots s) < unat (next_id s)"

definition run_ok :: "'f sched \<Rightarrow> bool" where
  "run_ok s \<longleftrightarrow>
     (current s = NO_TASK \<or> slot (slots s) (current s) \<noteq> None) \<and>
     (\<forall>i t. slot (slots s) i = Some t \<longrightarrow> state t = Running \<longrightarrow> i = current s) \<and>
     (\<forall>i t. slot (slots s) i = Some t \<longrightarrow> state t \<noteq> Zombie)"

definition join_ok :: "'f sched \<Rightarrow> bool" where
  "join_ok s \<longleftrightarrow>
     (\<forall>i t k. slot (slots s) i = Some t \<longrightarrow> state t = Blocked \<longrightarrow> block t = Join k \<longrightarrow>
        (\<exists>j u. slot (slots s) j = Some u \<and> task_id u = k))"

definition sched_inv :: "'f sched \<Rightarrow> bool" where
  "sched_inv s \<longleftrightarrow> ids_ok s \<and> run_ok s \<and> join_ok s"

definition none_running :: "'f sched \<Rightarrow> bool" where
  "none_running s \<longleftrightarrow> (\<forall>i t. slot (slots s) i = Some t \<longrightarrow> state t \<noteq> Running)"

lemma sched_inv_new: "sched_inv sched_new"
  by (simp add: sched_inv_def ids_ok_def run_ok_def join_ok_def sched_new_def slot_simps)

lemma u32_less_NO_TASK: "unat (x :: u32) < NO_TASK"
  using unat_less [of x] by (simp add: NO_TASK_def)

lemma slot_NO_TASK: "ids_ok s \<Longrightarrow> slot (slots s) NO_TASK = None"
  using u32_less_NO_TASK [of "next_id s"] by (auto simp: ids_ok_def slot_def)

lemma none_running_boot: "sched_inv s \<Longrightarrow> current s = NO_TASK \<Longrightarrow> none_running s"
  using slot_NO_TASK [of s] by (fastforce simp: sched_inv_def run_ok_def none_running_def)

text \<open>The parts of the state the invariant does not read.\<close>

lemma sched_inv_irrelevant [simp]:
  "sched_inv (s\<lparr>int_flag := b\<rparr>) = sched_inv s"
  "sched_inv (s\<lparr>TICKS := n\<rparr>) = sched_inv s"
  "sched_inv (s\<lparr>ACTIVE := a\<rparr>) = sched_inv s"
  "sched_inv (s\<lparr>kmem := m\<rparr>) = sched_inv s"
  "sched_inv (s\<lparr>serial := x\<rparr>) = sched_inv s"
  by (simp_all add: sched_inv_def ids_ok_def run_ok_def join_ok_def)

text \<open>
  Updating tasks in place by a function that keeps identifiers: enough to check the states
  it produces.
\<close>

lemma sched_inv_map:
  assumes inv: "sched_inv s"
    and slots: "\<And>i. slot (slots s') i = map_option (g i) (slot (slots s) i)"
    and len: "length (slots s') = length (slots s)"
    and same: "next_id s' = next_id s" "current s' = current s"
    and ids: "\<And>i t. slot (slots s) i = Some t \<Longrightarrow> task_id (g i t) = task_id t"
    and run: "\<And>i t. slot (slots s) i = Some t \<Longrightarrow> state (g i t) = Running \<Longrightarrow> state t = Running"
    and zom: "\<And>i t. slot (slots s) i = Some t \<Longrightarrow> state (g i t) = Zombie \<Longrightarrow> state t = Zombie"
    and join: "\<And>i t k. slot (slots s) i = Some t \<Longrightarrow> state (g i t) = Blocked \<Longrightarrow> block (g i t) = Join k \<Longrightarrow>
      (state t = Blocked \<and> block t = Join k) \<or> (\<exists>j u. slot (slots s) j = Some u \<and> task_id u = k)"
  shows "sched_inv s'"
proof -
  have live: "slot (slots s') j = Some (g j u)" if "slot (slots s) j = Some u" for j u
    using slots that by simp
  have orig: "\<exists>u. slot (slots s) i = Some u \<and> t = g i u" if "slot (slots s') i = Some t" for i t
    using slots [of i] that by (cases "slot (slots s) i") auto
  have "ids_ok s'"
    unfolding ids_ok_def using inv ids same len
    by (auto dest!: orig simp: sched_inv_def ids_ok_def)
  moreover have "run_ok s'"
    unfolding run_ok_def using inv run zom same live
    by (fastforce dest!: orig simp: sched_inv_def run_ok_def)
  moreover have "join_ok s'"
  proof -
    have "\<exists>j u. slot (slots s') j = Some u \<and> task_id u = k"
      if "slot (slots s) i = Some t" "state (g i t) = Blocked" "block (g i t) = Join k" for i t k
    proof -
      have "\<exists>j u. slot (slots s) j = Some u \<and> task_id u = k"
        using join [OF that] inv that(1) by (auto simp: sched_inv_def join_ok_def)
      then show ?thesis
        using live ids by metis
    qed
    then show ?thesis
      unfolding join_ok_def by (auto dest!: orig)
  qed
  ultimately show ?thesis
    by (simp add: sched_inv_def)
qed

text \<open>The common special case: one slot is rewritten.\<close>

lemma sched_inv_update:
  assumes inv: "sched_inv s" and t: "slot (slots s) i = Some t"
    and "task_id t' = task_id t"
    and "state t' = Running \<Longrightarrow> state t = Running"
    and "state t' \<noteq> Zombie"
    and "\<And>k. state t' = Blocked \<Longrightarrow> block t' = Join k \<Longrightarrow>
      (state t = Blocked \<and> block t = Join k) \<or> (\<exists>j u. slot (slots s) j = Some u \<and> task_id u = k)"
  shows "sched_inv (s\<lparr>slots := (slots s)[i := Some t']\<rparr>)"
proof (rule sched_inv_map [OF inv, where g = "\<lambda>j u. if j = i then t' else u"])
  have "i < length (slots s)"
    using t by (auto dest: slot_SomeD)
  then show "slot (slots (s\<lparr>slots := (slots s)[i := Some t']\<rparr>)) j =
      map_option (\<lambda>u. if j = i then t' else u) (slot (slots s) j)" for j
    using t by (cases "slot (slots s) j") (auto simp: slot_simps)
qed (use assms in \<open>auto simp: sched_inv_def run_ok_def split: if_splits\<close>)

section \<open>Every operation keeps the invariant\<close>

lemma run_ok_current: "sched_inv s \<Longrightarrow> current s \<noteq> NO_TASK \<Longrightarrow> \<exists>t. slot (slots s) (current s) = Some t"
  by (auto simp: sched_inv_def run_ok_def)

lemma demote_current_inv:
  assumes "sched_inv s"
  obtains s' where "demote_current s = Some s'" "sched_inv s'" "none_running s'"
    "current s' = current s" "cursor s' = cursor s" "length (slots s') = length (slots s)"
    "slot (slots s') = (\<lambda>i. map_option (\<lambda>t. if i = current s then demote t else t) (slot (slots s) i))"
    "TICKS s' = TICKS s" "ACTIVE s' = ACTIVE s"
proof (cases "current s = NO_TASK")
  case True
  then have "slot (slots s) i = map_option (\<lambda>t. if i = current s then demote t else t) (slot (slots s) i)" for i
    using slot_NO_TASK [of s] assms by (cases "i = NO_TASK") (auto simp: sched_inv_def option.map_ident)
  then have eq: "slot (slots s) = (\<lambda>i. map_option (\<lambda>t. if i = current s then demote t else t) (slot (slots s) i))"
    by (rule ext)
  show ?thesis
    by (rule that [OF _ _ _ _ _ _ eq]) (use True assms none_running_boot in \<open>auto simp: demote_current_def\<close>)
next
  case False
  then obtain t where t: "slot (slots s) (current s) = Some t"
    using run_ok_current assms by blast
  let ?s = "s\<lparr>slots := (slots s)[current s := Some (demote t)]\<rparr>"
  have len: "current s < length (slots s)"
    using t by (auto dest: slot_SomeD)
  have "demote_current s = Some ?s"
    using False t by (simp add: demote_current_def slot_get_at)
  moreover have "state (demote t) \<noteq> Zombie" "block (demote t) = block t" "task_id (demote t) = task_id t"
      "state (demote t) \<noteq> Running" "state (demote t) = Blocked \<Longrightarrow> state t = Blocked"
    using assms t by (auto simp: demote_def sched_inv_def run_ok_def split: if_splits)
  then have "sched_inv ?s"
    by (intro sched_inv_update [OF assms t]) auto
  moreover have eq: "slot (slots ?s) i = map_option (\<lambda>t. if i = current s then demote t else t) (slot (slots s) i)" for i
    using t len by (cases "i = current s") (simp_all add: slot_simps option.map_ident)
  moreover have "state u \<noteq> Running" if "slot (slots ?s) i = Some u" for i u
  proof (cases "i = current s")
    case True
    with that t len show ?thesis
      using \<open>state (demote t) \<noteq> Running\<close> by (simp add: slot_simps)
  next
    case False
    with that assms len show ?thesis
      by (auto simp: slot_simps sched_inv_def run_ok_def)
  qed
  then have "none_running ?s"
    by (simp add: none_running_def)
  ultimately show ?thesis
    by (intro that [of ?s]) (simp_all add: fun_eq_iff)
qed

lemma prep_switch_inv:
  assumes "sched_inv s" and "none_running s" and "slot (slots s) i = Some t"
  obtains old s' where "prep_switch i s = Some ((old, TaskCtx i), s')" "sched_inv s'"
    "s' = s\<lparr>slots := (slots s)[i := Some (t\<lparr>state := Running\<rparr>)], current := i, cursor := i + 1\<rparr>"
    "old = (if current s = NO_TASK then BootCtx else TaskCtx (current s))"
proof -
  let ?s = "s\<lparr>slots := (slots s)[i := Some (t\<lparr>state := Running\<rparr>)], current := i, cursor := i + 1\<rparr>"
  have len: "i < length (slots s)"
    using assms(3) by (auto dest: slot_SomeD)
  have no: "i \<noteq> NO_TASK"
    using slot_NO_TASK [of s] assms by (auto simp: sched_inv_def)
  have old: "ctx_ptr (slots s) (current s) = Some (if current s = NO_TASK then BootCtx else TaskCtx (current s))"
    using run_ok_current [OF assms(1)] by (auto simp: ctx_ptr_def)
  have new: "ctx_ptr ((slots s)[i := Some (t\<lparr>state := Running\<rparr>)]) i = Some (TaskCtx i)"
    using no len by (simp add: ctx_ptr_def slot_simps)
  have "ids_ok ?s"
    using assms len by (auto simp: sched_inv_def ids_ok_def slot_simps)
  moreover have "run_ok ?s"
    using assms len by (auto simp: sched_inv_def run_ok_def none_running_def slot_simps)
  moreover have "join_ok ?s"
    unfolding join_ok_def
  proof (intro allI impI)
    fix j u k
    assume "slot (slots ?s) j = Some u" "state u = Blocked" "block u = Join k"
    then have "slot (slots s) j = Some u"
      using len by (auto simp: slot_simps split: if_splits)
    with \<open>state u = Blocked\<close> \<open>block u = Join k\<close> obtain l v where "slot (slots s) l = Some v" "task_id v = k"
      using assms(1) unfolding sched_inv_def join_ok_def by blast
    then show "\<exists>j u. slot (slots ?s) j = Some u \<and> task_id u = k"
      using assms(3) len
      by (intro exI [of _ l] exI [of _ "if l = i then t\<lparr>state := Running\<rparr> else v"]) (auto simp: slot_simps)
  qed
  ultimately have "sched_inv ?s"
    by (simp add: sched_inv_def)
  with old new assms(3) show ?thesis
    by (intro that [of _ ?s]) (simp_all add: prep_switch_def slot_get_at)
qed

lemma next_ready_Some:
  assumes "next_ready s = Some i"
  obtains t where "slot (slots s) i = Some t" "state t = Ready"
proof -
  from assms have "is_ready (slots s ! i)" "i < length (slots s)"
    by (auto simp: next_ready_def Let_def find_Some_iff intro!: mod_less_divisor)
  with \<open>is_ready (slots s ! i)\<close> show ?thesis
    by (intro that [of "the (slots s ! i)"]) (auto simp: is_ready_def slot_def split: option.splits)
qed

lemma schedule_cases:
  assumes "sched_inv s"
  obtains
    (stay) s1 where "demote_current (s\<lparr>int_flag := False\<rparr>) = Some s1" "next_ready s1 = None"
      "schedule s = Some (Stay, if int_flag s then s1\<lparr>int_flag := True\<rparr> else s1)" "sched_inv s1"
  | (switch) s1 i t old s2 where "demote_current (s\<lparr>int_flag := False\<rparr>) = Some s1" "sched_inv s1" "none_running s1"
      "next_ready s1 = Some i" "slot (slots s1) i = Some t" "state t = Ready"
      "prep_switch i s1 = Some ((old, TaskCtx i), s2)"
      "s2 = s1\<lparr>slots := (slots s1)[i := Some (t\<lparr>state := Running\<rparr>)], current := i, cursor := i + 1\<rparr>"
      "schedule s = Some (SwitchTo old (TaskCtx i) (int_flag s), s2)" "sched_inv s2"
proof -
  have "sched_inv (s\<lparr>int_flag := False\<rparr>)"
    using assms by simp
  then obtain s1 where s1: "demote_current (s\<lparr>int_flag := False\<rparr>) = Some s1" "sched_inv s1" "none_running s1"
    by (rule demote_current_inv)
  show thesis
  proof (cases "next_ready s1")
    case None
    with s1 stay show thesis
      by (auto simp: schedule_def Let_def)
  next
    case (Some i)
    then obtain t where t: "slot (slots s1) i = Some t" "state t = Ready"
      by (rule next_ready_Some)
    then obtain old s2 where s2: "prep_switch i s1 = Some ((old, TaskCtx i), s2)" "sched_inv s2"
      "s2 = s1\<lparr>slots := (slots s1)[i := Some (t\<lparr>state := Running\<rparr>)], current := i, cursor := i + 1\<rparr>"
      using prep_switch_inv [OF s1(2,3) t(1)] by metis
    with s1 Some t show thesis
      by (intro switch [of s1 i t old s2]) (simp_all add: schedule_def)
  qed
qed

lemma schedule_inv:
  assumes "sched_inv s"
  shows "\<exists>r s'. schedule s = Some (r, s') \<and> sched_inv s'"
  using assms by (cases rule: schedule_cases) auto

lemma block_current_inv:
  assumes "sched_inv s" and "current s \<noteq> NO_TASK"
    and "\<And>k. r = Join k \<Longrightarrow> \<exists>j u. slot (slots s) j = Some u \<and> task_id u = k"
  shows "\<exists>s'. block_current r s = Some s' \<and> sched_inv s'"
proof -
  obtain t where t: "slot (slots s) (current s) = Some t"
    using run_ok_current assms by blast
  then have "sched_inv (s\<lparr>slots := (slots s)[current s := Some (t\<lparr>state := Blocked, block := r\<rparr>)]\<rparr>)"
    using assms by (intro sched_inv_update [OF assms(1) t]) auto
  with t show ?thesis
    by (simp add: block_current_def slot_get_at)
qed

lemma sleep_inv:
  assumes "sched_inv s" and "current s \<noteq> NO_TASK" and "checked_add (TICKS s) n \<noteq> None"
  shows "\<exists>r s'. sleep n s = Some (r, s') \<and> sched_inv s'"
proof -
  obtain w s1 where "checked_add (TICKS s) n = Some w" "block_current (Sleep w) s = Some s1" "sched_inv s1"
    using assms block_current_inv [OF assms(1,2)] by (metis block_reason.simps(7) not_None_eq)
  then show ?thesis
    using schedule_inv [of s1] assms by (simp add: sleep_def)
qed

lemma find_slot_Some: "find_slot i s = Some k \<Longrightarrow> \<exists>t. slot (slots s) k = Some t \<and> task_id t = i"
  by (auto simp: find_slot_def position_Some_iff has_id_def slot_def split: option.splits)

lemma find_slot_None: "find_slot i s = None \<longleftrightarrow> (\<forall>k t. slot (slots s) k = Some t \<longrightarrow> task_id t \<noteq> i)"
  by (fastforce simp: find_slot_def position_None_iff has_id_def slot_def in_set_conv_nth split: option.splits if_splits)

lemma join_inv:
  assumes "sched_inv s" and "current s \<noteq> NO_TASK"
  shows "\<exists>r s'. join i s = Some (r, s') \<and> sched_inv s'"
proof (cases "find_slot i s")
  case None
  then show ?thesis
    using assms by (simp add: join_def join_done_def)
next
  case (Some k)
  then obtain t where t: "slot (slots s) k = Some t" "task_id t = i"
    using find_slot_Some by blast
  then obtain s1 where "block_current (Join i) s = Some s1" "sched_inv s1"
    using block_current_inv [OF assms, of "Join i"] by auto
  then show ?thesis
    using schedule_inv [of s1] assms Some t by (auto simp: join_def join_done_def)
qed

text \<open>The table after the exiting task woke its joiners and left its slot.\<close>

definition exit_slots :: "'f sched \<Rightarrow> u32 \<Rightarrow> 'f task option list" where
  "exit_slots s dead = (map (map_option (wake_joiner dead)) (slots s))[current s := None]"

lemma wake_joiner_simps [simp]:
  "task_id (wake_joiner d t) = task_id t"
  "state (wake_joiner d t) = Running \<longleftrightarrow> state t = Running"
  "state (wake_joiner d t) = Zombie \<longleftrightarrow> state t = Zombie"
  "state (wake_joiner d t) = Blocked \<longleftrightarrow> state t = Blocked \<and> block t \<noteq> Join d"
  "state (wake_joiner d t) = Ready \<longleftrightarrow> state t = Ready \<or> (state t = Blocked \<and> block t = Join d)"
  "state (wake_joiner d t) = Blocked \<Longrightarrow> wake_joiner d t = t"
  by (auto simp: wake_joiner_def split: block_reason.splits)

lemma length_exit_slots: "length (exit_slots s d) = length (slots s)"
  by (simp add: exit_slots_def)

lemma slot_exit_slots:
  "slot (exit_slots s d) i = (if i = current s then None else map_option (wake_joiner d) (slot (slots s) i))"
proof (cases "current s < length (slots s)")
  case True
  then show ?thesis
    by (auto simp: exit_slots_def slot_map slot_simps)
next
  case False
  then show ?thesis
    by (auto simp: exit_slots_def slot_def)
qed

lemma exit_slots_inv:
  assumes "sched_inv s" and t: "slot (slots s) (current s) = Some t"
  defines "s' \<equiv> s\<lparr>int_flag := False, slots := exit_slots s (task_id t), current := NO_TASK\<rparr>"
  shows "sched_inv s'" and "none_running s'"
proof -
  have "ids_ok s'"
    using assms by (auto simp: sched_inv_def ids_ok_def slot_exit_slots length_exit_slots)
  moreover have "run_ok s'" and none: "none_running s'"
    using assms by (auto simp: sched_inv_def run_ok_def none_running_def slot_exit_slots)
  moreover have "join_ok s'"
    unfolding join_ok_def
  proof (intro allI impI)
    fix i u k
    assume "slot (slots s') i = Some u" "state u = Blocked" "block u = Join k"
    then have u: "slot (slots s) i = Some u" and k: "k \<noteq> task_id t"
      by (auto simp: s'_def slot_exit_slots split: if_splits)
    then obtain j v where v: "slot (slots s) j = Some v" "task_id v = k"
      using assms(1) \<open>state u = Blocked\<close> \<open>block u = Join k\<close> unfolding sched_inv_def join_ok_def by blast
    with k t have "j \<noteq> current s"
      by auto
    with v show "\<exists>j u. slot (slots s') j = Some u \<and> task_id u = k"
      by (intro exI [of _ j]) (simp add: s'_def slot_exit_slots)
  qed
  ultimately show "sched_inv s'"
    by (simp add: sched_inv_def)
  show "none_running s'"
    by (rule none)
qed

lemma find_cong_None: "(\<And>x. x \<in> set xs \<Longrightarrow> P x = Q x) \<Longrightarrow> find P xs = find Q xs"
  by (induction xs) auto

lemma is_ready_exit:
  assumes "slot (slots s) (current s) = Some t" and "i < length (slots s)"
  shows "is_ready (map (map_option (wake_joiner d)) ((slots s)[current s := Some (t\<lparr>state := Zombie\<rparr>)]) ! i)
    = is_ready (exit_slots s d ! i)"
  using assms slot_SomeD [OF assms(1)]
  by (cases "i = current s") (auto simp: is_ready_def exit_slots_def split: option.splits)

lemma next_ready_exit:
  assumes t: "slot (slots s) (current s) = Some t"
  shows "next_ready (s\<lparr>int_flag := b, slots := map (map_option (wake_joiner d)) ((slots s)[current s := Some (t\<lparr>state := Zombie\<rparr>)])\<rparr>)
    = next_ready (s\<lparr>int_flag := False, slots := exit_slots s d, current := NO_TASK\<rparr>)"
proof -
  have "current s < length (slots s)"
    using t by (auto dest: slot_SomeD)
  then show ?thesis
    unfolding next_ready_def Let_def
    by (auto simp: length_exit_slots intro!: find_cong_None is_ready_exit [OF t] mod_less_divisor)
qed

lemma exit_current_cases:
  assumes "sched_inv s" and t: "slot (slots s) (current s) = Some t"
  defines "s1 \<equiv> s\<lparr>int_flag := False, slots := exit_slots s (task_id t), current := NO_TASK\<rparr>"
  obtains
    (idle) "next_ready s1 = None" "exit_current s = Some (IdleForever, s1\<lparr>int_flag := True\<rparr>)" "sched_inv (s1\<lparr>int_flag := True\<rparr>)"
  | (switch) i u s2 where "next_ready s1 = Some i" "slot (slots s1) i = Some u" "state u = Ready"
      "s2 = s1\<lparr>slots := (slots s1)[i := Some (u\<lparr>state := Running\<rparr>)], current := i, cursor := i + 1\<rparr>"
      "exit_current s = Some (SwitchTo BootCtx (TaskCtx i) False, s2)" "sched_inv s2"
proof -
  note s1 = exit_slots_inv [OF assms(1,2), folded s1_def]
  have len: "current s < length (slots s)"
    using t by (auto dest: slot_SomeD)
  have upd: "(map (map_option (wake_joiner (task_id t))) ((slots s)[current s := Some (t\<lparr>state := Zombie\<rparr>)]))[current s := None]
      = exit_slots s (task_id t)"
    by (simp add: exit_slots_def map_update)
  note ex = exit_current_def [of s] and nr = next_ready_exit [OF t, where d = "task_id t"]
  show thesis
  proof (cases "next_ready s1")
    case None
    then have "exit_current s = Some (IdleForever, s1\<lparr>int_flag := True\<rparr>)"
      using nr [of False] upd by (simp add: ex slot_get_at [OF t] s1_def)
    then show thesis
      by (rule idle [OF None]) (use s1 in \<open>simp only: sched_inv_irrelevant\<close>)
  next
    case (Some i)
    then obtain u where u: "slot (slots s1) i = Some u" "state u = Ready"
      by (rule next_ready_Some)
    then obtain old s2 where s2: "prep_switch i s1 = Some ((old, TaskCtx i), s2)" "sched_inv s2"
      "s2 = s1\<lparr>slots := (slots s1)[i := Some (u\<lparr>state := Running\<rparr>)], current := i, cursor := i + 1\<rparr>"
      using prep_switch_inv [OF s1 u(1)] by metis
    have "exit_current s = Some (SwitchTo BootCtx (TaskCtx i) False, s2)"
      using nr [of False] upd Some s2(1) by (simp add: ex slot_get_at [OF t] s1_def)
    with Some u s2 show thesis
      by (intro switch)
  qed
qed

lemma exit_current_inv:
  assumes "sched_inv s" and "current s \<noteq> NO_TASK"
  shows "\<exists>r s'. exit_current s = Some (r, s') \<and> sched_inv s'"
proof -
  obtain t where "slot (slots s) (current s) = Some t"
    using run_ok_current assms by blast
  with assms(1) show ?thesis
    by (cases rule: exit_current_cases) auto
qed

lemma wake_sleeper_simps [simp]:
  "task_id (wake_sleeper n t) = task_id t"
  "slice_left (wake_sleeper n t) = slice_left t"
  "state (wake_sleeper n t) = Running \<longleftrightarrow> state t = Running"
  "state (wake_sleeper n t) = Zombie \<longleftrightarrow> state t = Zombie"
  "state (wake_sleeper n t) = Blocked \<Longrightarrow> wake_sleeper n t = t"
  by (auto simp: wake_sleeper_def split: block_reason.splits if_splits)

lemma wake_sleepers_inv:
  assumes "sched_inv s"
  shows "sched_inv (s\<lparr>slots := map (map_option (wake_sleeper n)) (slots s)\<rparr>)"
proof (rule sched_inv_map [OF assms, where g = "\<lambda>_. wake_sleeper n"])
  show "state t = Blocked \<and> block t = Join k \<or> (\<exists>j u. slot (slots s) j = Some u \<and> task_id u = k)"
    if "state (wake_sleeper n t) = Blocked" "block (wake_sleeper n t) = Join k" for t k
    using that wake_sleeper_simps(5) [OF that(1)] by simp
qed (simp_all add: slot_map)

lemma charge_slice_inv:
  assumes "sched_inv s"
  shows "\<exists>p s'. charge_slice s = Some (p, s') \<and> sched_inv s'"
proof (cases "current s = NO_TASK")
  case True
  then show ?thesis
    using assms by (auto simp: charge_slice_def)
next
  case False
  then obtain t where t: "slot (slots s) (current s) = Some t"
    using run_ok_current assms by blast
  then have "state t \<noteq> Zombie"
    using assms by (auto simp: sched_inv_def run_ok_def)
  then have "sched_inv (s\<lparr>slots := (slots s)[current s := Some (t\<lparr>slice_left := k\<rparr>)]\<rparr>)" for k
    by (intro sched_inv_update [OF assms t]) auto
  with False t show ?thesis
    by (auto simp: charge_slice_def slot_get_at)
qed

lemma tick_inv:
  assumes "sched_inv s"
  shows "\<exists>r s'. tick s = Some (r, s') \<and> sched_inv s'"
proof -
  obtain p s1 where s1: "charge_slice (s\<lparr>slots := map (map_option (wake_sleeper (TICKS s))) (slots s)\<rparr>) = Some (p, s1)"
      "sched_inv s1"
    using charge_slice_inv [OF wake_sleepers_inv [OF assms]] by blast
  then show ?thesis
    using schedule_inv [of s1] assms by (simp add: tick_def)
qed

lemma timer_inv:
  assumes "sched_inv s"
  shows "\<exists>r s'. timer_interrupt_handler s = Some (r, s') \<and> sched_inv s'"
  using tick_inv [of "timer_tick (s\<lparr>int_flag := False\<rparr>)"] assms
  by (simp add: timer_interrupt_handler_def timer_tick_def)

lemma yield_inv:
  assumes "sched_inv s"
  shows "\<exists>r s'. yield_now s = Some (r, s') \<and> sched_inv s'"
  using schedule_inv [OF assms] assms by (simp add: yield_now_def)

lemma current_task_body_inv:
  assumes "sched_inv s" and "current s \<noteq> NO_TASK"
  shows "\<exists>f s'. current_task_body s = Some (f, s') \<and> sched_inv s'"
proof -
  obtain t where t: "slot (slots s) (current s) = Some t"
    using run_ok_current assms by blast
  then have "state t \<noteq> Zombie"
    using assms by (auto simp: sched_inv_def run_ok_def)
  then have "sched_inv (s\<lparr>slots := (slots s)[current s := Some (t\<lparr>func := None\<rparr>)]\<rparr>)"
    by (intro sched_inv_update [OF assms(1) t]) auto
  with t show ?thesis
    by (cases "func t") (simp_all add: current_task_body_def take_func_def slot_get_at Let_def)
qed

lemma start_inv:
  assumes "sched_inv s" and "current s = NO_TASK"
  shows "\<exists>r s'. start s = Some (r, s') \<and> sched_inv s'"
proof (cases "next_ready s")
  case None
  then show ?thesis
    using assms by (simp add: start_def println_def print_def)
next
  case (Some i)
  then obtain t where t: "slot (slots s) i = Some t"
    using next_ready_Some by metis
  have "sched_inv (s\<lparr>int_flag := False\<rparr>)" "none_running (s\<lparr>int_flag := False\<rparr>)"
    using assms none_running_boot [OF assms] by (simp_all add: none_running_def)
  from prep_switch_inv [OF this, of i t] t obtain old s' where
    "prep_switch i (s\<lparr>int_flag := False\<rparr>) = Some ((old, TaskCtx i), s')" "sched_inv s'"
    by auto
  with Some show ?thesis
    by (simp add: start_def)
qed

lemma task_new_Some:
  assumes "task_new tramp ptr i f sl m = Some (t, m')"
  shows "task_id t = i \<and> state t = Ready \<and> block t = NotBlocked \<and> slice_left t = sl \<and> func t = Some f"
  using assms by (auto simp: task_new_def Let_def bind_eq_Some_conv)

text \<open>Allocating a slot for a task, through the contract of a slot table.\<close>

interpretation tasks: slot_table "\<lambda>(t :: 'f task) sl. Some (place t sl)"
  by unfold_locales (auto dest: place_spec(1,2))

lemma length_place: "length (fst (place t sl)) \<le> Suc (length sl)"
  by (simp add: place_def split: option.splits)

lemma add_task_eq:
  assumes "add_task tramp ptr f s = Some (i, s')"
  obtains t where "i = next_id s" "unat (next_id s') = unat (next_id s) + 1"
    "slots s' = fst (place t (slots s))" "task_id t = i" "state t = Ready" "slice_left t = DEFAULT_SLICE"
    "func t = Some f" "current s' = current s" "cursor s' = cursor s" "ACTIVE s' = ACTIVE s"
    "TICKS s' = TICKS s" "int_flag s' = int_flag s"
proof -
  from assms obtain n t m where n: "checked_add (next_id s) 1 = Some n" and i: "i = next_id s"
      and t: "task_new tramp ptr i f DEFAULT_SLICE (kmem s) = Some (t, m)"
      and s': "s' = s\<lparr>next_id := n, kmem := m, slots := fst (place t (slots s))\<rparr>"
    by (auto simp: add_task_def Let_def bind_eq_Some_conv)
  show thesis
    by (rule that [of t])
      (use i s' task_new_Some [OF t] checked_add_Some_unat [OF n] in simp_all)
qed

lemma add_task_inv:
  assumes inv: "sched_inv s" and add: "add_task tramp ptr f s = Some (i, s')"
  shows "sched_inv s'"
proof -
  from add obtain t where t: "i = next_id s" "unat (next_id s') = unat (next_id s) + 1"
      "slots s' = fst (place t (slots s))" "task_id t = i" "state t = Ready"
      and cur: "current s' = current s"
    by (rule add_task_eq)
  define k where "k = snd (place t (slots s))"
  have place: "Some (place t (slots s)) = Some (slots s', k)"
    using t(3) by (simp add: k_def)
  have new: "slot (slots s') = (slot (slots s))(k \<mapsto> t)" and hole: "slot (slots s) k = None"
    using tasks.alloc_slot [OF place] tasks.alloc_free [OF place] by simp_all
  have len: "length (slots s') \<le> Suc (length (slots s))"
    using length_place [of t "slots s"] t(3) by simp
  have below: "unat (task_id u) < unat (next_id s)" if "slot (slots s) j = Some u" for j u
    using inv that by (auto simp: sched_inv_def ids_ok_def)
  have "ids_ok s'"
    unfolding ids_ok_def new
    using inv t(1,2,4) below len by (fastforce simp: sched_inv_def ids_ok_def less_Suc_eq split: if_splits)
  moreover have "run_ok s'"
    using inv t(5) cur hole by (auto simp: sched_inv_def run_ok_def new)
  moreover have "join_ok s'"
    unfolding join_ok_def
  proof (intro allI impI)
    fix j u l
    assume "slot (slots s') j = Some u" "state u = Blocked" "block u = Join l"
    moreover from this have "slot (slots s) j = Some u"
      using t(5) by (auto simp: new split: if_splits)
    ultimately obtain j' u' where "slot (slots s) j' = Some u'" "task_id u' = l"
      using inv unfolding sched_inv_def join_ok_def by blast
    with hole show "\<exists>j u. slot (slots s') j = Some u \<and> task_id u = l"
      by (intro exI [of _ j'] exI [of _ u']) (auto simp: new)
  qed
  ultimately show ?thesis
    by (simp add: sched_inv_def)
qed

section \<open>The steps of the system\<close>

text \<open>
  What can happen to the scheduler's state: a task is spawned, the boot context enters the
  first task, a fresh task takes its body, the running code yields, sleeps, joins or exits,
  a resumed caller restores its interrupt flag, and the timer interrupts code that runs with
  interrupts enabled.
\<close>

inductive sched_step :: "u64 \<Rightarrow> 'f sched \<Rightarrow> 'f sched \<Rightarrow> bool" for tramp where
  step_init: "sched_step tramp s (sched_init s)"
| step_spawn: "spawn tramp ptr f s = Some (i, s') \<Longrightarrow> sched_step tramp s s'"
| step_start: "current s = NO_TASK \<Longrightarrow> start s = Some (r, s') \<Longrightarrow> sched_step tramp s s'"
| step_body: "current s \<noteq> NO_TASK \<Longrightarrow> current_task_body s = Some (f, s') \<Longrightarrow> sched_step tramp s s'"
| step_yield: "current s \<noteq> NO_TASK \<Longrightarrow> yield_now s = Some (r, s') \<Longrightarrow> sched_step tramp s s'"
| step_sleep: "current s \<noteq> NO_TASK \<Longrightarrow> sleep n s = Some (r, s') \<Longrightarrow> sched_step tramp s s'"
| step_join: "current s \<noteq> NO_TASK \<Longrightarrow> join i s = Some (r, s') \<Longrightarrow> sched_step tramp s s'"
| step_exit: "current s \<noteq> NO_TASK \<Longrightarrow> exit_current s = Some (r, s') \<Longrightarrow> sched_step tramp s s'"
| step_resume: "sched_step tramp s (resume b s)"
| step_timer: "int_flag s \<Longrightarrow> timer_interrupt_handler s = Some (r, s') \<Longrightarrow> sched_step tramp s s'"

inductive sched_reachable :: "u64 \<Rightarrow> 'f sched \<Rightarrow> bool" for tramp where
  reach_new: "sched_reachable tramp sched_new"
| reach_step: "sched_reachable tramp s \<Longrightarrow> sched_step tramp s s' \<Longrightarrow> sched_reachable tramp s'"

lemma sleep_Some_ticks: "sleep n s = Some (r, s') \<Longrightarrow> ACTIVE s \<Longrightarrow> checked_add (TICKS s) n \<noteq> None"
  by (auto simp: sleep_def bind_eq_Some_conv)

lemma sched_step_inv:
  assumes "sched_step tramp s s'" and "sched_inv s"
  shows "sched_inv s'"
  using assms
proof (induction rule: sched_step.induct)
  case (step_sleep s n r s')
  then show ?case
  proof (cases "ACTIVE s")
    case True
    then show ?thesis
      using sleep_inv step_sleep sleep_Some_ticks by fastforce
  qed (auto simp: sleep_def)
next
  case (step_spawn ptr f s i s')
  then show ?case
    by (auto simp: spawn_def intro: add_task_inv)
next
  case (step_start s r s')
  then show ?case
    using start_inv by fastforce
next
  case (step_body s f s')
  then show ?case
    using current_task_body_inv by fastforce
next
  case (step_yield s r s')
  then show ?case
    using yield_inv by fastforce
next
  case (step_join s i r s')
  then show ?case
    using join_inv [of s i] by auto
next
  case (step_exit s r s')
  then show ?case
    using exit_current_inv by fastforce
next
  case (step_timer s r s')
  then show ?case
    using timer_inv by fastforce
qed (auto simp: sched_init_def resume_def)

lemma reachable_inv: "sched_reachable tramp s \<Longrightarrow> sched_inv s"
  by (induction rule: sched_reachable.induct) (auto simp: sched_inv_new intro: sched_step_inv)

end
