(* ===== verification/Scheduler_Properties.thy ===== *)
theory Scheduler_Properties
  imports Scheduler_Invariant
begin

text \<open>
  What the scheduler guarantees: safety in every reachable state, freedom from panics,
  round-robin progress, when a blocked task is woken, what an exiting task leaves behind,
  and the length of a time slice. Two theorems record where the code falls short of its own
  documentation: an idle processor that never runs a woken sleeper, and a \<open>sleep\<close> that
  returns at once.
\<close>

section \<open>Round robin\<close>

text \<open>Slot \<open>j\<close> is \<open>d\<close> places ahead of the cursor.\<close>

definition ahead :: "'f sched \<Rightarrow> nat \<Rightarrow> nat \<Rightarrow> bool" where
  "ahead s j d \<longleftrightarrow> d < length (slots s) \<and> (cursor s + d) mod length (slots s) = j"

lemma ahead_exists:
  assumes "j < length (slots s)"
  shows "\<exists>d. ahead s j d"
proof -
  let ?n = "length (slots s)"
  let ?c = "cursor s mod ?n"
  have pos: "0 < ?n"
    using assms by linarith
  then have "?c < ?n"
    by simp
  then have "(?c + (j + ?n - ?c) mod ?n) mod ?n = j"
    using assms by (simp add: mod_add_right_eq)
  then have "(cursor s + (j + ?n - ?c) mod ?n) mod ?n = j"
    by (simp add: mod_add_left_eq)
  moreover have "(j + ?n - ?c) mod ?n < ?n"
    using pos by simp
  ultimately show ?thesis
    unfolding ahead_def by blast
qed

lemma next_ready_ahead:
  assumes "ahead s j d" and "slot (slots s) j = Some t" and "state t = Ready"
  obtains e i where "next_ready s = Some i" "ahead s i e" "e \<le> d"
proof -
  let ?n = "length (slots s)"
  let ?f = "\<lambda>i. (cursor s + i) mod ?n"
  let ?P = "\<lambda>e. e < ?n \<and> is_ready (slots s ! ?f e)"
  have "?P d"
    using assms by (auto simp: ahead_def is_ready_def dest: slot_SomeD)
  then have least: "?P (LEAST e. ?P e)" "(LEAST e. ?P e) \<le> d" "\<forall>k < (LEAST e. ?P e). \<not> ?P k"
    by (rule LeastI, rule Least_le, use \<open>?P d\<close> not_less_Least in blast)
  then have "next_ready s = Some (?f (LEAST e. ?P e))"
    unfolding next_ready_def Let_def find_Some_iff
    by (intro exI [of _ "LEAST e. ?P e"]) auto
  then show thesis
    using that least(1,2) by (simp add: ahead_def)
qed

lemma ahead_after:
  assumes "ahead s i e" and "ahead s j d" and "e < d"
    and "length (slots s') = length (slots s)" and "cursor s' = i + 1"
  shows "ahead s' j (d - e - 1)"
proof -
  let ?n = "length (slots s)"
  have "i + 1 + (d - e - 1) = (cursor s + e) mod ?n + (d - e)"
    using assms(1,3) by (simp add: ahead_def)
  then have "(i + 1 + (d - e - 1)) mod ?n = ((cursor s + e) mod ?n + (d - e)) mod ?n"
    by simp
  also have "\<dots> = (cursor s + e + (d - e)) mod ?n"
    by (rule mod_add_left_eq)
  also have "\<dots> = j"
    using assms by (simp add: ahead_def)
  finally show ?thesis
    using assms by (auto simp: ahead_def)
qed

lemma schedule_progress:
  assumes inv: "sched_inv s" and ah: "ahead s j d"
    and t: "slot (slots s) j = Some t" "state t = Ready"
  obtains r s' where "schedule s = Some (r, s')" "sched_inv s'"
    "current s' = j \<or> (slot (slots s') j = Some t \<and> (\<exists>e<d. ahead s' j e))"
  using inv
proof (cases rule: schedule_cases)
  case (stay s1)
  have "sched_inv (s\<lparr>int_flag := False\<rparr>)"
    using inv by simp
  then obtain s1' where s1: "demote_current (s\<lparr>int_flag := False\<rparr>) = Some s1'" "cursor s1' = cursor s"
      "length (slots s1') = length (slots s)"
      "slot (slots s1') = (\<lambda>i. map_option (\<lambda>t. if i = current s then demote t else t) (slot (slots s) i))"
    by (rule demote_current_inv) simp
  with stay(1) have "s1' = s1"
    by simp
  with s1 t ah have "ahead s1 j d" "slot (slots s1) j = Some t"
    by (auto simp: ahead_def demote_def)
  with stay(2) t show thesis
    using next_ready_ahead [of s1 j d t] by auto
next
  case (switch s1 i u old s2)
  have "sched_inv (s\<lparr>int_flag := False\<rparr>)"
    using inv by simp
  then obtain s1' where s1: "demote_current (s\<lparr>int_flag := False\<rparr>) = Some s1'" "cursor s1' = cursor s"
      "length (slots s1') = length (slots s)"
      "slot (slots s1') = (\<lambda>i. map_option (\<lambda>t. if i = current s then demote t else t) (slot (slots s) i))"
    by (rule demote_current_inv) simp
  with switch(1) have "s1' = s1"
    by simp
  with s1 t ah have a1: "ahead s1 j d" and t1: "slot (slots s1) j = Some t"
    by (auto simp: ahead_def demote_def)
  obtain e where e: "ahead s1 i e" "e \<le> d"
    using next_ready_ahead [OF a1 t1 t(2)] switch(4) by auto
  have i: "i < length (slots s1)"
    using switch(5) by (auto dest: slot_SomeD)
  show thesis
  proof (cases "i = j")
    case True
    with switch that show thesis
      by simp
  next
    case False
    then have "e < d"
      using e a1 by (cases "e = d") (auto simp: ahead_def)
    moreover have "ahead s2 j (d - e - 1)"
      by (rule ahead_after [OF e(1) a1 \<open>e < d\<close>]) (simp_all add: switch(8))
    moreover have "slot (slots s2) j = Some t"
      using False t1 i by (simp add: switch(8) slot_simps)
    ultimately show thesis
      using switch(9,10) by (intro that) (auto intro!: exI [of _ "d - e - 1"])
  qed
qed

fun schedules :: "nat \<Rightarrow> 'f sched \<Rightarrow> 'f sched option" where
  "schedules 0 s = Some s"
| "schedules (Suc k) s = do { (_, s) \<leftarrow> schedule s; schedules k s }"

lemma schedules_reach:
  assumes "sched_inv s" and "ahead s j d" and "slot (slots s) j = Some t" and "state t = Ready"
  shows "\<exists>k s'. 0 < k \<and> k \<le> Suc d \<and> schedules k s = Some s' \<and> current s' = j"
  using assms
proof (induction d arbitrary: s rule: less_induct)
  case (less d)
  from less.prems obtain r s1 where s1: "schedule s = Some (r, s1)" "sched_inv s1"
    "current s1 = j \<or> (slot (slots s1) j = Some t \<and> (\<exists>e<d. ahead s1 j e))"
    by (rule schedule_progress)
  from s1(3) show ?case
  proof
    assume "current s1 = j"
    then show ?case
      using s1(1) by (intro exI [of _ 1]) simp
  next
    assume "slot (slots s1) j = Some t \<and> (\<exists>e<d. ahead s1 j e)"
    then obtain e where e: "e < d" "ahead s1 j e" "slot (slots s1) j = Some t"
      by blast
    from less.IH [OF e(1) s1(2) e(2,3) less.prems(4)] obtain k s'
      where k: "k \<le> Suc e" "schedules k s1 = Some s'" "current s' = j"
      by blast
    show ?case
      by (rule exI [of _ "Suc k"]) (use k e s1(1) in auto)
  qed
qed

text \<open>C6. Round robin never starves a ready task: if the scheduler is entered again and again,
  the task in slot \<open>j\<close> gets the processor after at most as many rounds as there are slots.\<close>

theorem schedule_no_starvation:
  assumes "sched_inv s" and "slot (slots s) j = Some t" and "state t = Ready"
  shows "\<exists>k s'. 0 < k \<and> k \<le> length (slots s) \<and> schedules k s = Some s' \<and> current s' = j"
proof -
  obtain d where "ahead s j d"
    using ahead_exists assms by (meson slot_SomeD)
  then show ?thesis
    using schedules_reach [OF assms(1) _ assms(2,3)] by (fastforce simp: ahead_def)
qed

definition demo_task :: "u32 \<Rightarrow> task_state \<Rightarrow> block_reason \<Rightarrow> u64 \<Rightarrow> unit task" where
  "demo_task i st b sl = \<lparr>task_id = i, state = st, block = b, ctx = 0, slice_left = sl,
     stack = kernel_stack_new 0x10000, func = Some ()\<rparr>"

definition demo_sched :: "unit task option list \<Rightarrow> nat \<Rightarrow> u64 \<Rightarrow> unit sched" where
  "demo_sched ts cur now = \<lparr>serial = [], slots = ts, current = cur, next_id = 20, cursor = 1,
     ACTIVE = True, TICKS = now, int_flag = True, kmem = (\<lambda>_. 0)\<rparr>"

definition three_tasks :: "unit task option list" where
  "three_tasks = [Some (demo_task 7 Ready NotBlocked 2), Some (demo_task 8 Running NotBlocked 2), None,
     Some (demo_task 9 Ready NotBlocked 2)]"

lemma slot_Cons: "slot (x # xs) i = (case i of 0 \<Rightarrow> x | Suc j \<Rightarrow> slot xs j)"
  by (cases i) (auto simp: slot_def)

lemma three_tasks_inv: "sched_inv (demo_sched three_tasks 1 0)"
  by (auto simp: sched_inv_def ids_ok_def run_ok_def join_ok_def demo_sched_def three_tasks_def
      demo_task_def slot_Cons slot_Nil split: nat.splits)

theorem schedule_no_starvation_witness:
  "\<exists>k s'. 0 < k \<and> k \<le> 4 \<and> schedules k (demo_sched three_tasks 1 0) = Some s' \<and> current s' = 0"
proof -
  have "slot (slots (demo_sched three_tasks 1 0)) 0 = Some (demo_task 7 Ready NotBlocked 2)"
    "state (demo_task 7 Ready NotBlocked 2) = Ready" "length (slots (demo_sched three_tasks 1 0)) = 4"
    by (simp_all add: demo_sched_def three_tasks_def demo_task_def slot_Cons)
  then show ?thesis
    using schedule_no_starvation [OF three_tasks_inv, of 0] by metis
qed

section \<open>Safety\<close>


lemma spawn_Some:
  assumes "unat ptr + 16384 + 15 < 2 ^ 64" and "unat (next_id s) + 1 < 2 ^ 32"
  shows "\<exists>s'. spawn tramp ptr f s = Some (next_id s, s')"
proof -
  have "checked_add (next_id s) 1 \<noteq> None"
    using assms(2) by (simp add: checked_add_def)
  moreover have "stack_initial_context tramp (kernel_stack_new ptr) m \<noteq> None" for m
    by (rule stack_initial_context_eq [OF assms(1), of tramp m]) simp
  then have "task_new tramp ptr (next_id s) f DEFAULT_SLICE (kmem s) \<noteq> None"
    by (simp add: task_new_def Let_def split: bind_splits)
  ultimately show ?thesis
    by (auto simp: spawn_def add_task_def Let_def)
qed

text \<open>A reachable state for the witnesses: two tasks spawned at boot, the first one entered.\<close>

lemma two_tasks_reachable:
  obtains s :: "'f sched" and t u where "sched_reachable tramp s" "slot (slots s) 0 = Some t" "slot (slots s) 1 = Some u"
    "current s = 0" "state t = Running" "state u = Ready" "TICKS s = 0" "ACTIVE s"
proof -
  let ?s0 = "sched_init (sched_new :: 'f sched)"
  have "sched_reachable tramp ?s0"
    by (rule reach_step [OF reach_new step_init])
  obtain f :: 'f where True by simp
  have init: "next_id ?s0 = 1" "slots ?s0 = []" "ACTIVE ?s0" "TICKS ?s0 = 0" "current ?s0 = NO_TASK" "cursor ?s0 = 0"
    by (simp_all add: sched_init_def sched_new_def)
  obtain s1 where s1: "spawn tramp 0x10000 f ?s0 = Some (next_id ?s0, s1)"
    using spawn_Some [of "0x10000" ?s0 tramp f] init by auto
  then obtain t where t: "unat (next_id s1) = 2" "slots s1 = [Some t]" "state t = Ready" "ACTIVE s1" "TICKS s1 = 0"
      "current s1 = NO_TASK" "cursor s1 = 0"
    unfolding spawn_def by (rule add_task_eq) (use init in \<open>auto simp: place_def\<close>)
  obtain s2 where s2: "spawn tramp 0x20000 f s1 = Some (next_id s1, s2)"
    using spawn_Some [of "0x20000" s1 tramp f] t by auto
  then obtain u where u: "slots s2 = [Some t, Some u]" "state u = Ready" "ACTIVE s2" "TICKS s2 = 0"
      "current s2 = NO_TASK" "cursor s2 = 0"
    unfolding spawn_def by (rule add_task_eq) (use t in \<open>auto simp: place_def\<close>)
  let ?s3 = "s2\<lparr>int_flag := False, slots := [Some (t\<lparr>state := Running\<rparr>), Some u], current := 0, cursor := 1\<rparr>"
  have "start s2 = Some (SwitchTo BootCtx (TaskCtx 0) True, ?s3)"
    using t(3) u by (simp add: start_def next_ready_def is_ready_def prep_switch_def ctx_ptr_def get_at_def
        slot_Cons NO_TASK_def)
  with u(5) have "sched_step tramp s2 ?s3"
    by (rule step_start)
  moreover have "sched_reachable tramp s2"
    by (rule reach_step [OF reach_step [OF \<open>sched_reachable tramp ?s0\<close> step_spawn [OF s1]] step_spawn [OF s2]])
  ultimately have "sched_reachable tramp ?s3"
    by (rule reach_step [rotated])
  then show thesis
    by (rule that [of ?s3 "t\<lparr>state := Running\<rparr>" u]) (use u in \<open>simp_all add: slot_Cons\<close>)
qed


text \<open>C2. No reachable state makes the scheduler panic or dereference an empty slot: the timer
  interrupt, and for running code \<open>yield_now\<close>, \<open>join\<close>, \<open>exit_current\<close> and the entry of a
  fresh task, always return; \<open>sleep\<close> does unless the wake-up tick overflows 64 bits.\<close>

theorem reachable_no_panic:
  assumes "sched_reachable tramp s"
  shows "timer_interrupt_handler s \<noteq> None \<and>
    (current s \<noteq> NO_TASK \<longrightarrow>
       yield_now s \<noteq> None \<and> join i s \<noteq> None \<and> exit_current s \<noteq> None \<and> current_task_body s \<noteq> None \<and>
       (unat (TICKS s) + unat n < 2 ^ 64 \<longrightarrow> sleep n s \<noteq> None))"
proof -
  note inv = reachable_inv [OF assms]
  have "checked_add (TICKS s) n \<noteq> None" if "unat (TICKS s) + unat n < 2 ^ 64"
    using that by (simp add: checked_add_def)
  then show ?thesis
    using timer_inv [OF inv] yield_inv [OF inv] join_inv [OF inv, of i] exit_current_inv [OF inv]
      current_task_body_inv [OF inv] sleep_inv [OF inv, of n] by auto
qed

theorem reachable_no_panic_witness:
  "\<exists>s :: unit sched. sched_reachable 0x401000 s \<and> exit_current s \<noteq> None \<and> sleep 5 s \<noteq> None \<and> join 2 s \<noteq> None"
proof -
  obtain s :: "unit sched" and t u where s: "sched_reachable 0x401000 s" "current s = 0" "TICKS s = 0"
    by (rule two_tasks_reachable)
  then show ?thesis
    using reachable_no_panic [OF s(1), of 2 5] by (auto simp: NO_TASK_def)
qed

section \<open>When a blocked task is woken\<close>

lemma demote_slots:
  assumes "sched_inv s" and "demote_current (s\<lparr>int_flag := b\<rparr>) = Some s1"
  shows "slot (slots s1) i = map_option (\<lambda>t. if i = current s then demote t else t) (slot (slots s) i) \<and>
    TICKS s1 = TICKS s \<and> length (slots s1) = length (slots s) \<and> current s1 = current s"
proof -
  have "sched_inv (s\<lparr>int_flag := b\<rparr>)"
    using assms(1) by simp
  then show ?thesis
    by (rule demote_current_inv) (use assms(2) in simp)
qed

lemma schedule_keeps_blocked:
  assumes "sched_inv s" and "schedule s = Some (r, s')"
    and "slot (slots s) i = Some t" and "state t = Blocked"
  shows "slot (slots s') i = Some t"
  using assms(1)
proof (cases rule: schedule_cases)
  case (stay s1)
  then show ?thesis
    using demote_slots [OF assms(1), of False s1 i] assms by (auto simp: demote_def)
next
  case (switch s1 j u old s2)
  have eq: "slot (slots s1) i = Some t"
    using demote_slots [OF assms(1) switch(1), of i] assms by (auto simp: demote_def)
  moreover have "j \<noteq> i"
    using eq switch(5,6) assms(4) by auto
  moreover have "j < length (slots s1)"
    using switch(5) by (auto dest: slot_SomeD)
  ultimately show ?thesis
    using switch(8,9) assms(2) by (simp add: slot_simps)
qed

lemma schedule_ids:
  assumes "sched_inv s" and "schedule s = Some (r, s')"
  shows "map_option task_id (slot (slots s') i) = map_option task_id (slot (slots s) i)"
  using assms(1)
proof (cases rule: schedule_cases)
  case (stay s1)
  then show ?thesis
    using demote_slots [OF assms(1), of False s1 i] assms(2)
    by (cases "slot (slots s) i") (auto simp: demote_def)
next
  case (switch s1 j u old s2)
  then have "j < length (slots s1)"
    by (auto dest: slot_SomeD)
  with switch show ?thesis
    using demote_slots [OF assms(1) switch(1), of i] assms(2)
    by (cases "slot (slots s) i") (auto simp: demote_def slot_simps)
qed

lemma block_current_other:
  assumes "block_current r s = Some s1" and "i \<noteq> current s"
  shows "slot (slots s1) i = slot (slots s) i"
  using assms by (auto simp: block_current_def bind_eq_Some_conv get_at_update)

lemma charge_slice_other:
  assumes "charge_slice s = Some (p, s1)" and "i \<noteq> current s"
  shows "slot (slots s1) i = slot (slots s) i"
  using assms by (auto simp: charge_slice_def bind_eq_Some_conv get_at_update split: if_splits option.splits)

lemma charge_slice_TICKS: "charge_slice s = Some (p, s1) \<Longrightarrow> TICKS s1 = TICKS s"
  by (auto simp: charge_slice_def bind_eq_Some_conv split: if_splits option.splits)

lemma schedule_TICKS:
  assumes "sched_inv s" and "schedule s = Some (r, s')"
  shows "TICKS s' = TICKS s"
  using assms(1)
proof (cases rule: schedule_cases)
  case (stay s1)
  then show ?thesis
    using demote_slots [OF assms(1), of False s1] assms(2) by auto
next
  case (switch s1 j u old s2)
  then show ?thesis
    using demote_slots [OF assms(1), of False s1] assms(2) by auto
qed

text \<open>What the timer interrupt does, in one equation.\<close>

lemma timer_unfold:
  assumes "timer_interrupt_handler s = Some (r, s')" and "ACTIVE s" and "sched_inv s"
  obtains p s1 where
    "charge_slice (s\<lparr>int_flag := False, TICKS := TICKS s + 1,
       slots := map (map_option (wake_sleeper (TICKS s + 1))) (slots s)\<rparr>) = Some (p, s1)"
    "(if p then schedule s1 else Some (Stay, s1)) = Some (r, s')" "sched_inv s1" "TICKS s1 = TICKS s + 1"
proof -
  let ?s = "s\<lparr>int_flag := False, TICKS := TICKS s + 1,
       slots := map (map_option (wake_sleeper (TICKS s + 1))) (slots s)\<rparr>"
  have "sched_inv (s\<lparr>int_flag := False, TICKS := TICKS s + 1\<rparr>)"
    using assms(3) by simp
  from wake_sleepers_inv [OF this, of "TICKS s + 1"] have "sched_inv ?s"
    by simp
  then obtain p s1 where s1: "charge_slice ?s = Some (p, s1)" "sched_inv s1"
    using charge_slice_inv by blast
  moreover have "TICKS s1 = TICKS s + 1"
    using charge_slice_TICKS [OF s1(1)] by simp
  ultimately show thesis
    using that assms(1,2)
    by (auto simp: timer_interrupt_handler_def timer_tick_def tick_def)
qed

lemma timer_TICKS:
  assumes "timer_interrupt_handler s = Some (r, s')" and "sched_inv s"
  shows "TICKS s' = TICKS s + 1"
proof (cases "ACTIVE s")
  case True
  show ?thesis
    by (rule timer_unfold [OF assms(1) True assms(2)]) (auto split: if_splits dest: schedule_TICKS)
qed (use assms in \<open>auto simp: timer_interrupt_handler_def tick_def timer_tick_def\<close>)

lemma timer_blocked:
  assumes "timer_interrupt_handler s = Some (r, s')" and "sched_inv s"
    and "slot (slots s) i = Some t" and "state t = Blocked" and "i \<noteq> current s"
  shows "slot (slots s') i = Some t \<or> (\<exists>w. block t = Sleep w \<and> w \<le> TICKS s')"
proof (cases "ACTIVE s")
  case False
  then show ?thesis
    using assms by (auto simp: timer_interrupt_handler_def tick_def timer_tick_def)
next
  case True
  with assms(1,2) obtain p s1 where s1:
    "charge_slice (s\<lparr>int_flag := False, TICKS := TICKS s + 1,
       slots := map (map_option (wake_sleeper (TICKS s + 1))) (slots s)\<rparr>) = Some (p, s1)"
    "(if p then schedule s1 else Some (Stay, s1)) = Some (r, s')" "sched_inv s1" "TICKS s1 = TICKS s + 1"
    by (elim timer_unfold)
  have slot1: "slot (slots s1) i = Some (wake_sleeper (TICKS s + 1) t)"
    using charge_slice_other [OF s1(1), of i] assms by (simp add: slot_map)
  have ticks: "TICKS s' = TICKS s + 1"
    using timer_TICKS assms(1,2) by blast
  show ?thesis
  proof (cases "wake_sleeper (TICKS s + 1) t = t")
    case True
    with slot1 s1 assms show ?thesis
      using schedule_keeps_blocked [OF s1(3)] by (auto split: if_splits)
  next
    case False
    with ticks assms(4) show ?thesis
      by (auto simp: wake_sleeper_def split: block_reason.splits if_splits)
  qed
qed

lemma exit_current_ids:
  assumes "sched_inv s" and "slot (slots s) (current s) = Some t" and "exit_current s = Some (r, s')"
  shows "map_option task_id (slot (slots s') i) = (if i = current s then None else map_option task_id (slot (slots s) i))"
  using assms(1,2)
proof (cases rule: exit_current_cases)
  case idle
  then show ?thesis
    using assms(3) by (auto simp: slot_exit_slots option.map_comp comp_def)
next
  case (switch j u s2)
  then have "j < length (exit_slots s (task_id t))"
    by (auto dest: slot_SomeD)
  with switch assms(3) show ?thesis
    by (auto simp: slot_simps slot_exit_slots option.map_comp comp_def split: if_splits)
qed

lemma exit_current_dead:
  assumes "sched_inv s" and "slot (slots s) (current s) = Some t" and "exit_current s = Some (r, s')"
  shows "find_slot (task_id t) s' = None"
  unfolding find_slot_None
proof (intro allI impI notI)
  fix k u
  assume u: "slot (slots s') k = Some u" "task_id u = task_id t"
  then have k: "k \<noteq> current s" "map_option task_id (slot (slots s) k) = Some (task_id t)"
    using exit_current_ids [OF assms, of k] by (auto split: if_splits)
  then show False
    using assms(1,2) by (auto simp: sched_inv_def ids_ok_def)
qed

lemma exit_current_slot:
  assumes "sched_inv s" and "slot (slots s) (current s) = Some t" and "exit_current s = Some (r, s')"
    and "i \<noteq> current s" and "slot (slots s) i = Some u"
  shows "\<exists>u'. slot (slots s') i = Some u' \<and>
     (u' = wake_joiner (task_id t) u \<or> state (wake_joiner (task_id t) u) = Ready \<and>
        u' = (wake_joiner (task_id t) u)\<lparr>state := Running\<rparr> \<and> current s' = i)"
  using assms(1,2)
proof (cases rule: exit_current_cases)
  case idle
  then show ?thesis
    using assms(3-) by (auto simp: slot_exit_slots)
next
  case (switch j v s2)
  then have "j < length (exit_slots s (task_id t))"
    by (auto dest: slot_SomeD)
  with switch assms(3-) show ?thesis
    by (auto simp: slot_simps slot_exit_slots split: if_splits)
qed

lemma blocked_step:
  assumes "sched_step tramp s s'" and "sched_inv s"
    and "slot (slots s) i = Some t" and "state t = Blocked" and "i \<noteq> current s"
  shows "slot (slots s') i = Some t \<or>
    (\<exists>w. block t = Sleep w \<and> w \<le> TICKS s') \<or>
    (\<exists>k. block t = Join k \<and> find_slot k s' = None)"
  using assms
proof (induction rule: sched_step.induct)
  case (step_spawn ptr f s k s')
  then obtain u where "slots s' = fst (place u (slots s))"
    unfolding spawn_def by (metis add_task_eq)
  then have "Some (place u (slots s)) = Some (slots s', snd (place u (slots s)))"
    by simp
  from tasks.alloc_keeps [OF this step_spawn.prems(2)] show ?case
    by simp
next
  case (step_start s r s')
  show ?case
  proof (cases "next_ready s")
    case (Some j)
    then obtain u where u: "slot (slots s) j = Some u" "state u = Ready"
      by (rule next_ready_Some)
    then have "j \<noteq> i" "j < length (slots s)"
      using step_start.prems by (auto dest: slot_SomeD)
    with Some step_start show ?thesis
      by (auto simp: start_def prep_switch_def bind_eq_Some_conv Let_def slot_simps)
  qed (use step_start in \<open>auto simp: start_def println_def print_def\<close>)
next
  case (step_body s f s')
  then show ?case
    by (auto simp: current_task_body_def take_func_def bind_eq_Some_conv Let_def get_at_update split: option.splits)
next
  case (step_yield s r s')
  then show ?case
    using schedule_keeps_blocked [of s r s' i t] by (auto simp: yield_now_def split: if_splits)
next
  case (step_sleep s n r s')
  show ?case
  proof (cases "ACTIVE s")
    case True
    with step_sleep obtain w s1 where s1: "block_current (Sleep w) s = Some s1" "schedule s1 = Some (r, s')"
      by (auto simp: sleep_def bind_eq_Some_conv)
    moreover have "sched_inv s1"
      using block_current_inv [of s "Sleep w"] s1(1) step_sleep by auto
    ultimately show ?thesis
      using schedule_keeps_blocked [of s1 r s' i t] block_current_other [OF s1(1), of i] step_sleep by auto
  qed (use step_sleep in \<open>auto simp: sleep_def\<close>)
next
  case (step_join s k r s')
  show ?case
  proof (cases "slots s' = slots s")
    case False
    with step_join obtain s1 where s1: "block_current (Join k) s = Some s1" "schedule s1 = Some (r, s')"
        "find_slot k s \<noteq> None"
      by (auto simp: join_def join_done_def bind_eq_Some_conv split: if_splits option.splits)
    then have "sched_inv s1"
      using block_current_inv [of s "Join k"] step_join find_slot_Some by fastforce
    with s1 show ?thesis
      using schedule_keeps_blocked [of s1 r s' i t] block_current_other [OF s1(1), of i] step_join by auto
  qed (use step_join in auto)
next
  case (step_exit s r s')
  then obtain u where u: "slot (slots s) (current s) = Some u"
    using run_ok_current by blast
  have "slot (slots s') i = Some t" if "block t \<noteq> Join (task_id u)"
    using exit_current_slot [OF step_exit.prems(1) u step_exit.hyps(2) step_exit.prems(4,2)]
      that step_exit.prems(3) by auto
  then show ?case
    using exit_current_dead [OF step_exit.prems(1) u step_exit.hyps(2)] by auto
next
  case (step_timer s r s')
  then show ?case
    using timer_blocked by blast
qed (auto simp: sched_init_def resume_def)

text \<open>C16. A task that is blocked, and not the one executing, stays exactly as it is in every step of
  the system, until the event it waits for: a sleeper until the tick counter has reached its
  wake-up tick, a joiner until the task it waits for has left the table.\<close>

theorem blocked_until_event:
  assumes "sched_step tramp s s'" and "sched_inv s"
    and "slot (slots s) i = Some t" and "state t = Blocked" and "i \<noteq> current s"
  shows "slot (slots s') i = Some t \<or>
    (\<exists>w. block t = Sleep w \<and> w \<le> TICKS s') \<or>
    (\<exists>k. block t = Join k \<and> find_slot k s' = None)"
  using assms by (rule blocked_step)

definition sleepers :: "unit task option list" where
  "sleepers = [Some (demo_task 7 Blocked (Sleep 10) 2), Some (demo_task 8 Running NotBlocked 2),
     Some (demo_task 9 Blocked (Join 8) 2)]"

lemma sleepers_inv: "sched_inv (demo_sched sleepers 1 0)"
  by (auto simp: sched_inv_def ids_ok_def run_ok_def join_ok_def demo_sched_def sleepers_def
      demo_task_def slot_Cons slot_Nil split: nat.splits intro!: exI [of _ 1])

theorem blocked_until_event_witness:
  "\<exists>s'. sched_step 0 (demo_sched sleepers 1 0) s' \<and> slot (slots s') 0 = Some (demo_task 7 Blocked (Sleep 10) 2)"
proof -
  obtain r s' where s': "timer_interrupt_handler (demo_sched sleepers 1 0) = Some (r, s')"
    using timer_inv [OF sleepers_inv] by blast
  moreover have "TICKS s' = 1"
    using timer_TICKS [OF s' sleepers_inv] by (simp add: demo_sched_def)
  moreover have "sched_step 0 (demo_sched sleepers 1 0) s'"
    by (rule step_timer [OF _ s']) (simp add: demo_sched_def)
  moreover have "slot (slots (demo_sched sleepers 1 0)) 0 = Some (demo_task 7 Blocked (Sleep 10) 2)"
      "state (demo_task 7 Blocked (Sleep 10) 2) = Blocked" "0 \<noteq> current (demo_sched sleepers 1 0)"
      "block (demo_task 7 Blocked (Sleep 10) 2) = Sleep 10"
    by (simp_all add: demo_sched_def sleepers_def demo_task_def slot_Cons)
  moreover have "\<not> (10 :: u64) \<le> 1"
    by (simp add: word_le_nat_alt)
  ultimately show ?thesis
    using blocked_until_event [OF _ sleepers_inv, of 0 s' 0 "demo_task 7 Blocked (Sleep 10) 2"] by auto
qed

section \<open>Exit\<close>

text \<open>C17. When a task exits it leaves the table (the count of live tasks drops by one and its
  identifier is no longer found), every task blocked in \<open>join\<close> on it is made runnable with no
  block reason left, and no other blocked task is touched.\<close>

theorem exit_wakes_joiners:
  assumes "sched_inv s" and "slot (slots s) (current s) = Some t" and "exit_current s = Some (r, s')"
  shows "find_slot (task_id t) s' = None \<and> Suc (task_count s') = task_count s \<and>
    (\<forall>i u. i \<noteq> current s \<longrightarrow> slot (slots s) i = Some u \<longrightarrow> state u = Blocked \<longrightarrow>
       (if block u = Join (task_id t)
        then \<exists>u'. slot (slots s') i = Some u' \<and> state u' \<in> {Ready, Running} \<and> block u' = NotBlocked
        else slot (slots s') i = Some u))"
proof -
  have "dom (slot (slots s')) = dom (slot (slots s)) - {current s}"
  proof (rule set_eqI)
    show "i \<in> dom (slot (slots s')) \<longleftrightarrow> i \<in> dom (slot (slots s)) - {current s}" for i
      using exit_current_ids [OF assms, of i]
      by (cases "slot (slots s') i"; cases "slot (slots s) i") (auto split: if_splits)
  qed
  moreover have "current s \<in> dom (slot (slots s))"
    using assms(2) by blast
  ultimately have "Suc (task_count s') = task_count s"
    using card_Suc_Diff1 [OF finite_dom_slot] by (simp only: task_count_def live_card)
  moreover have "if block u = Join (task_id t)
        then \<exists>u'. slot (slots s') i = Some u' \<and> state u' \<in> {Ready, Running} \<and> block u' = NotBlocked
        else slot (slots s') i = Some u"
    if "i \<noteq> current s" "slot (slots s) i = Some u" "state u = Blocked" for i u
    using exit_current_slot [OF assms that(1,2)] that(3)
    by (cases "block u = Join (task_id t)") (auto simp: wake_joiner_def split: block_reason.splits)
  ultimately show ?thesis
    using exit_current_dead [OF assms] by blast
qed

theorem exit_wakes_joiners_witness:
  "\<exists>r s' u. exit_current (demo_sched sleepers 1 0) = Some (r, s') \<and> find_slot 8 s' = None \<and>
     slot (slots s') 2 = Some u \<and> state u \<in> {Ready, Running} \<and>
     slot (slots s') 0 = Some (demo_task 7 Blocked (Sleep 10) 2)"
proof -
  let ?s = "demo_sched sleepers 1 0"
  have cur: "slot (slots ?s) (current ?s) = Some (demo_task 8 Running NotBlocked 2)" "current ?s \<noteq> NO_TASK"
    by (simp_all add: demo_sched_def sleepers_def slot_Cons NO_TASK_def)
  then obtain r s' where s': "exit_current ?s = Some (r, s')"
    using exit_current_inv [OF sleepers_inv] by blast
  have others: "slot (slots ?s) 0 = Some (demo_task 7 Blocked (Sleep 10) 2)"
    "slot (slots ?s) 2 = Some (demo_task 9 Blocked (Join 8) 2)" "current ?s = 1"
    by (simp_all add: demo_sched_def sleepers_def slot_Cons numeral_2_eq_2)
  note h = exit_wakes_joiners [OF sleepers_inv cur(1) s', THEN conjunct2, THEN conjunct2, rule_format]
  have "\<exists>u. slot (slots s') 2 = Some u \<and> state u \<in> {Ready, Running} \<and> block u = NotBlocked"
    using h [OF _ others(2)] others(3) by (simp add: demo_task_def)
  moreover have "slot (slots s') 0 = Some (demo_task 7 Blocked (Sleep 10) 2)"
    using h [OF _ others(1)] others(3) by (simp add: demo_task_def)
  moreover have "find_slot 8 s' = None"
    using exit_wakes_joiners [OF sleepers_inv cur(1) s'] by (simp add: demo_task_def)
  ultimately show ?thesis
    using s' by blast
qed

section \<open>Time slices\<close>

text \<open>Timer interrupts after which the interrupted code simply continues.\<close>

fun quiet_ticks :: "nat \<Rightarrow> 'f sched \<Rightarrow> 'f sched option" where
  "quiet_ticks 0 s = Some s"
| "quiet_ticks (Suc n) s = do {
     (r, s) \<leftarrow> timer_interrupt_handler s;
     if r = Stay then quiet_ticks n s else None
   }"

lemma current_live_not_boot: "sched_inv s \<Longrightarrow> slot (slots s) (current s) = Some t \<Longrightarrow> current s \<noteq> NO_TASK"
  using slot_NO_TASK [of s] by (auto simp: sched_inv_def)

lemma timer_charge:
  assumes "sched_inv s" and "ACTIVE s" and "slot (slots s) (current s) = Some t"
  defines "u \<equiv> wake_sleeper (TICKS s + 1) t"
  defines "s1 \<equiv> s\<lparr>int_flag := False, TICKS := TICKS s + 1,
      slots := (map (map_option (wake_sleeper (TICKS s + 1))) (slots s))
        [current s := Some (u\<lparr>slice_left := if slice_left t = 0 then DEFAULT_SLICE else slice_left t - 1\<rparr>)]\<rparr>"
  shows "timer_interrupt_handler s = (if slice_left t = 0 then schedule s1 else Some (Stay, s1))"
    and "slot (slots s1) (current s) =
      Some (u\<lparr>slice_left := if slice_left t = 0 then DEFAULT_SLICE else slice_left t - 1\<rparr>)"
proof -
  have "get_at (map (map_option (wake_sleeper (TICKS s + 1))) (slots s)) (current s) = Some (Some u)"
    using assms(3) by (intro slot_get_at) (simp add: slot_map u_def)
  with assms show "timer_interrupt_handler s = (if slice_left t = 0 then schedule s1 else Some (Stay, s1))"
    using current_live_not_boot [OF assms(1,3)]
    by (simp add: timer_interrupt_handler_def timer_tick_def tick_def charge_slice_def)
  show "slot (slots s1) (current s) =
      Some (u\<lparr>slice_left := if slice_left t = 0 then DEFAULT_SLICE else slice_left t - 1\<rparr>)"
    using assms(3) by (auto simp: s1_def slot_simps dest: slot_SomeD)
qed

lemma quiet_slice:
  assumes "sched_inv s" and "ACTIVE s" and "slot (slots s) (current s) = Some t" and "unat (slice_left t) = n"
  shows "\<exists>s' u. quiet_ticks n s = Some s' \<and> sched_inv s' \<and> ACTIVE s' \<and> current s' = current s \<and>
    slot (slots s') (current s') = Some u \<and> slice_left u = 0"
  using assms
proof (induction n arbitrary: s t)
  case 0
  then show ?case
    by (auto simp: unat_eq_0)
next
  case (Suc n)
  then have nz: "slice_left t \<noteq> 0"
    by auto
  from timer_charge [OF Suc.prems(1-3)] nz obtain s1 u where s1: "timer_interrupt_handler s = Some (Stay, s1)"
      "slot (slots s1) (current s) = Some u" "slice_left u = slice_left t - 1"
      "current s1 = current s" "ACTIVE s1"
    using Suc.prems(2) by fastforce
  have "sched_inv s1"
    using timer_inv [OF Suc.prems(1)] s1(1) by auto
  moreover have "unat (slice_left u) = n"
    using s1(3) Suc.prems(4) nz by (simp add: unat_minus_one)
  ultimately show ?case
    using Suc.IH [of s1 u] s1 by auto
qed

text \<open>The time slice of a running task: a task with \<open>k\<close> ticks left keeps the processor over the next \<open>k\<close>
  timer interrupts, whatever other tasks are woken, and the interrupt after those enters the
  scheduler with the slice refilled. A task that starts with \<open>DEFAULT_SLICE = 2\<close> is therefore
  preempted by its third tick, not its second.\<close>

theorem time_slice:
  assumes "sched_inv s" and "ACTIVE s" and "slot (slots s) (current s) = Some t"
  shows "\<exists>s' s1 u. quiet_ticks (unat (slice_left t)) s = Some s' \<and> current s' = current s \<and>
    timer_interrupt_handler s' = schedule s1 \<and> current s1 = current s \<and>
    slot (slots s1) (current s) = Some u \<and> slice_left u = DEFAULT_SLICE"
proof -
  from quiet_slice [OF assms refl] obtain s' u where s': "quiet_ticks (unat (slice_left t)) s = Some s'"
      "sched_inv s'" "ACTIVE s'" "current s' = current s" "slot (slots s') (current s') = Some u" "slice_left u = 0"
    by blast
  from timer_charge [OF s'(2,3,5)] s'(6) obtain s1 v where "timer_interrupt_handler s' = schedule s1"
      "slot (slots s1) (current s') = Some v" "slice_left v = DEFAULT_SLICE" "current s1 = current s'"
    by fastforce
  with s' show ?thesis
    by auto
qed

theorem time_slice_witness:
  "\<exists>s' s1. quiet_ticks 2 (demo_sched three_tasks 1 0) = Some s' \<and> timer_interrupt_handler s' = schedule s1"
proof -
  have "slot (slots (demo_sched three_tasks 1 0)) (current (demo_sched three_tasks 1 0)) =
      Some (demo_task 8 Running NotBlocked 2)" "ACTIVE (demo_sched three_tasks 1 0)"
      "unat (slice_left (demo_task 8 Running NotBlocked 2)) = 2"
    by (simp_all add: demo_sched_def three_tasks_def demo_task_def slot_Cons)
  then show ?thesis
    using time_slice [OF three_tasks_inv] by metis
qed

section \<open>Where the code falls short of its documentation\<close>

lemma idle_tick:
  assumes "current s = NO_TASK" and "ACTIVE s"
  shows "timer_interrupt_handler s = Some (Stay, s\<lparr>int_flag := False, TICKS := TICKS s + 1,
    slots := map (map_option (wake_sleeper (TICKS s + 1))) (slots s)\<rparr>)"
  using assms by (simp add: timer_interrupt_handler_def timer_tick_def tick_def charge_slice_def)

definition due :: "nat \<Rightarrow> 'f task \<Rightarrow> bool" where
  "due now t \<longleftrightarrow> state t = Ready \<or> (state t = Blocked \<and> (\<exists>w. block t = Sleep w \<and> unat w \<le> now))"

lemma due_wake: "due n t \<Longrightarrow> due n (wake_sleeper now t)"
  by (auto simp: due_def wake_sleeper_def split: block_reason.splits)

lemma due_now: "due (unat now) t \<Longrightarrow> state (wake_sleeper now t) = Ready"
  by (auto simp: due_def wake_sleeper_def word_le_nat_alt)

lemma unat_tick: "unat (now :: u64) + Suc n < 2 ^ 64 \<Longrightarrow> unat (now + 1) = unat now + 1"
  by (simp add: unat_word_ariths)

lemma idle_ticks:
  assumes "current s = NO_TASK" and "ACTIVE s" and "unat (TICKS s) + Suc n < 2 ^ 64"
  shows "\<exists>s'. quiet_ticks (Suc n) s = Some s' \<and> current s' = NO_TASK \<and>
    (\<forall>i t. slot (slots s) i = Some t \<longrightarrow> due (unat (TICKS s) + Suc n) t \<longrightarrow>
       (\<exists>u. slot (slots s') i = Some u \<and> state u = Ready))"
  using assms
proof (induction n arbitrary: s)
  case 0
  then have "unat (TICKS s + 1) = unat (TICKS s) + Suc 0"
    using unat_tick [of "TICKS s" 0] by simp
  then have "state (wake_sleeper (TICKS s + 1) t) = Ready" if "due (unat (TICKS s) + Suc 0) t" for t :: "'a task"
    using that due_now [of "TICKS s + 1" t] by simp
  then show ?case
    using 0 by (simp add: idle_tick slot_map)
next
  case (Suc n)
  let ?s = "s\<lparr>int_flag := False, TICKS := TICKS s + 1,
    slots := map (map_option (wake_sleeper (TICKS s + 1))) (slots s)\<rparr>"
  have t1: "unat (TICKS s + 1) = unat (TICKS s) + 1"
    using unat_tick Suc.prems(3) by blast
  then obtain s' where s': "quiet_ticks (Suc n) ?s = Some s'" "current s' = NO_TASK"
      "\<forall>i t. slot (slots ?s) i = Some t \<longrightarrow> due (unat (TICKS ?s) + Suc n) t \<longrightarrow>
         (\<exists>u. slot (slots s') i = Some u \<and> state u = Ready)"
    using Suc.IH [of ?s] Suc.prems by (auto simp del: quiet_ticks.simps)
  have "\<exists>u. slot (slots s') i = Some u \<and> state u = Ready"
    if "slot (slots s) i = Some t" "due (unat (TICKS s) + Suc (Suc n)) t" for i t
    using s'(3) that t1 due_wake [OF that(2)] by (auto simp: slot_map)
  moreover have "quiet_ticks (Suc (Suc n)) s = Some s'"
    using idle_tick [OF Suc.prems(1,2)] s'(1) by (simp del: quiet_ticks.simps add: quiet_ticks.simps(2) [of "Suc n"])
  ultimately show ?case
    using s'(2) by blast
qed

text \<open>C26. The scheduler can lose a wake-up: when a task exits while no other task is ready, the
  processor parks with no current task, and from then on no number of timer ticks makes it
  switch to a task, although a sleeper whose tick has come is marked ready by those very
  ticks.\<close>

theorem exit_idle_never_resumes:
  assumes "sched_inv s" and "ACTIVE s" and "slot (slots s) (current s) = Some t"
    and "exit_current s = Some (IdleForever, s')" and "unat (TICKS s') + Suc n < 2 ^ 64"
  shows "\<exists>s''. quiet_ticks (Suc n) s' = Some s'' \<and> current s'' = NO_TASK \<and>
    (\<forall>i u w. slot (slots s') i = Some u \<longrightarrow> state u = Blocked \<longrightarrow> block u = Sleep w \<longrightarrow>
       unat w \<le> unat (TICKS s') + Suc n \<longrightarrow>
       (\<exists>v. slot (slots s'') i = Some v \<and> state v = Ready))"
  using assms(1,3)
proof (cases rule: exit_current_cases)
  case idle
  then have "current s' = NO_TASK" "ACTIVE s'"
    using assms(2,4) by auto
  from idle_ticks [OF this assms(5)] show ?thesis
    unfolding due_def by blast
next
  case (switch i u s2)
  with assms(4) show ?thesis
    by simp
qed

definition last_task :: "unit task option list" where
  "last_task = [Some (demo_task 7 Blocked (Sleep 2) 2), Some (demo_task 8 Running NotBlocked 2)]"

lemma last_task_inv: "sched_inv (demo_sched last_task 1 0)"
  by (auto simp: sched_inv_def ids_ok_def run_ok_def join_ok_def demo_sched_def last_task_def
      demo_task_def slot_Cons slot_Nil split: nat.splits)

theorem exit_idle_never_resumes_witness:
  "\<exists>s' s''. exit_current (demo_sched last_task 1 0) = Some (IdleForever, s') \<and>
     quiet_ticks 100 s' = Some s'' \<and> current s'' = NO_TASK \<and>
     (\<exists>v. slot (slots s'') 0 = Some v \<and> state v = Ready)"
proof -
  let ?s = "demo_sched last_task 1 0"
  let ?s' = "?s\<lparr>slots := [Some (demo_task 7 Blocked (Sleep 2) 2), None], current := NO_TASK\<rparr>"
  have ex: "exit_current ?s = Some (IdleForever, ?s')"
    by (simp add: exit_current_def demo_sched_def last_task_def demo_task_def get_at_def
        wake_joiner_def next_ready_def is_ready_def)
  have facts: "ACTIVE ?s" "slot (slots ?s) (current ?s) = Some (demo_task 8 Running NotBlocked 2)"
      "unat (TICKS ?s') + Suc 99 < 2 ^ 64" "slot (slots ?s') 0 = Some (demo_task 7 Blocked (Sleep 2) 2)"
      "state (demo_task 7 Blocked (Sleep 2) 2) = Blocked" "block (demo_task 7 Blocked (Sleep 2) 2) = Sleep 2"
      "unat (2 :: u64) \<le> unat (TICKS ?s') + Suc 99"
    by (simp_all add: demo_sched_def last_task_def demo_task_def slot_Cons)
  from exit_idle_never_resumes [OF last_task_inv facts(1,2) ex facts(3)] obtain s'' where
    "quiet_ticks (Suc 99) ?s' = Some s''" "current s'' = NO_TASK"
    "\<exists>v. slot (slots s'') 0 = Some v \<and> state v = Ready"
    using facts(4-7) by blast
  moreover have "Suc 99 = (100 :: nat)"
    by simp
  ultimately show ?thesis
    using ex by metis
qed

text \<open>A sleep (or join) called while no other task is ready returns at once, at the same tick, with the
  caller still executing although it is marked blocked: \<open>schedule\<close> finds nobody to switch to
  and returns to its caller.\<close>

theorem sleep_alone_returns:
  assumes "sched_inv s" and "ACTIVE s" and "slot (slots s) (current s) = Some t"
    and "\<forall>i u. slot (slots s) i = Some u \<longrightarrow> i \<noteq> current s \<longrightarrow> state u \<noteq> Ready"
    and "unat (TICKS s) + unat n < 2 ^ 64"
  shows "\<exists>s'. sleep n s = Some (Stay, s') \<and> TICKS s' = TICKS s \<and> current s' = current s \<and>
    slot (slots s') (current s) = Some (t\<lparr>state := Blocked, block := Sleep (TICKS s + n)\<rparr>)"
proof -
  let ?t = "t\<lparr>state := Blocked, block := Sleep (TICKS s + n)\<rparr>"
  let ?s = "s\<lparr>slots := (slots s)[current s := Some ?t]\<rparr>"
  have cur: "current s \<noteq> NO_TASK"
    by (rule current_live_not_boot [OF assms(1,3)])
  have blk: "block_current (Sleep (TICKS s + n)) s = Some ?s"
    using assms(3) by (simp add: block_current_def slot_get_at)
  then have inv: "sched_inv ?s"
    using block_current_inv [OF assms(1) cur, of "Sleep (TICKS s + n)"] by auto
  have len: "current s < length (slots s)"
    using assms(3) by (auto dest: slot_SomeD)
  have sl: "sleep n s = schedule ?s"
    using assms(2,5) blk by (simp add: sleep_def checked_add_def)
  from inv show ?thesis
  proof (cases rule: schedule_cases)
    case (stay s1)
    then show ?thesis
      using demote_slots [OF inv stay(1), of "current s"] sl len
      by (auto simp: slot_simps demote_def)
  next
    case (switch s1 i u old s2)
    have "slot (slots s1) i = map_option (\<lambda>t. if i = current s then demote t else t) (slot (slots ?s) i)"
      using demote_slots [OF inv switch(1), of i] by simp
    then have False
      using switch(5,6) assms(4) len by (cases "i = current s") (auto simp: slot_simps demote_def option.map_ident)
    then show ?thesis ..
  qed
qed

theorem sleep_alone_returns_witness:
  "\<exists>s'. sleep 50 (demo_sched last_task 1 0) = Some (Stay, s') \<and> TICKS s' = 0 \<and> current s' = 1"
proof -
  let ?s = "demo_sched last_task 1 0"
  have "\<forall>i u. slot (slots ?s) i = Some u \<longrightarrow> i \<noteq> current ?s \<longrightarrow> state u \<noteq> Ready"
    by (auto simp: demo_sched_def last_task_def demo_task_def slot_Cons slot_Nil split: nat.splits)
  moreover have "ACTIVE ?s" "slot (slots ?s) (current ?s) = Some (demo_task 8 Running NotBlocked 2)"
      "unat (TICKS ?s) + unat (50 :: u64) < 2 ^ 64" "TICKS ?s = 0" "current ?s = 1"
    by (simp_all add: demo_sched_def last_task_def demo_task_def slot_Cons)
  ultimately show ?thesis
    using sleep_alone_returns [OF last_task_inv] by metis
qed

end
