(* ===== verification/Checksum.thy ===== *)
theory Checksum
  imports Prelude
begin

unbundle bit_operations_syntax

text \<open>
  The internet checksum of \<open>net/mod.rs\<close>: the loop over 16-bit words in a 32-bit accumulator
  (whose overflow panics), the odd trailing byte, the folding of carries and the complement.
  The lemmas relate it to arithmetic on naturals: the sum of the words, and its residue
  modulo 65535. The properties are that a packet whose checksum field was filled in verifies
  to zero, and that a change of one word is detected.
\<close>

fun sum_words :: "u32 \<Rightarrow> byte list \<Rightarrow> u32 option" where
  "sum_words s (a # b # r) = do {
     s \<leftarrow> checked_add s (ucast (from_be16 [a, b]));
     sum_words s r
   }"
| "sum_words s [a] = checked_add s (push_bit 8 (ucast a))"
| "sum_words s [] = Some s"

lemma shiftr16: "unat (drop_bit 16 (s :: u32)) = unat s div 65536"
  by (simp add: drop_bit_eq_div unat_div)

lemma mask16: "unat (s AND 0xffff :: u32) = unat s mod 65536"
proof -
  have "s AND 0xffff = take_bit 16 s"
    by (simp add: take_bit_eq_mask mask_eq_exp_minus_1)
  then show ?thesis
    by (simp add: take_bit_eq_mod unat_mod)
qed

lemma fold_step: "unat ((s AND 0xffff) + drop_bit 16 s :: u32) = unat s mod 65536 + unat s div 65536"
proof -
  have "unat s < 4294967296"
    using unat_less [of s] by simp
  then have "unat s div 65536 < 65536"
    by simp
  then have "unat s mod 65536 + unat s div 65536 < 4294967296"
    using mod_less_divisor [of 65536 "unat s"] by linarith
  then show ?thesis
    by (simp add: unat_word_ariths mask16 shiftr16)
qed

function fold_carry :: "u32 \<Rightarrow> u32" where
  "fold_carry s = (if drop_bit 16 s \<noteq> 0 then fold_carry ((s AND 0xffff) + drop_bit 16 s) else s)"
  by auto
termination
proof (relation "measure unat")
  fix s :: u32
  assume "drop_bit 16 s \<noteq> 0"
  then have "unat s div 65536 \<noteq> 0"
    using shiftr16 [of s] by (metis unat_eq_0)
  moreover have "unat s = unat s div 65536 * 65536 + unat s mod 65536"
    by simp
  ultimately have "unat s mod 65536 + unat s div 65536 < unat s"
    by linarith
  then show "((s AND 0xffff) + drop_bit 16 s, s) \<in> measure unat"
    by (simp only: in_measure fold_step)
qed simp

declare fold_carry.simps [simp del]

definition checksum :: "byte list \<Rightarrow> u16 option" where
  "checksum data = do {
     sum \<leftarrow> sum_words 0 data;
     Some (NOT (ucast (fold_carry sum)))
   }"

section \<open>The checksum as arithmetic\<close>

lemma word_of_nat_unat: "word_of_nat (unat x) = (x :: 'w::len word)"
  by simp

fun wsum :: "byte list \<Rightarrow> nat" where
  "wsum (a # b # r) = unat a * 256 + unat b + wsum r"
| "wsum [a] = unat a * 256"
| "wsum [] = 0"

lemma be_val_pair: "be_val [a, b] = unat a * 256 + unat b"
  by (simp add: be_val_def)

lemma pair_less: "unat (a :: byte) * 256 + unat (b :: byte) < 65536"
  using unat_byte_less [of a] unat_byte_less [of b] by linarith

lemma unat_pair: "unat (ucast (from_be16 [a, b]) :: u32) = unat a * 256 + unat b"
proof -
  have "unat (from_be16 [a, b]) = unat a * 256 + unat b"
    using pair_less [of a b] by (simp add: from_be16_def be_val_pair unat_of_nat del: of_nat_add of_nat_mult)
  then show ?thesis
    using pair_less [of a b] by (simp add: unsigned_ucast_eq take_bit_eq_mod)
qed

lemma unat_odd: "unat (push_bit 8 (ucast (a :: byte)) :: u32) = unat a * 256"
proof -
  have "unat a * 256 < 4294967296"
    using unat_byte_less [of a] by linarith
  then show ?thesis
    by (simp add: push_bit_eq_mult unat_word_ariths unsigned_ucast_eq take_bit_eq_mod)
qed

lemma sum_words_eq:
  "sum_words s d = (if unat s + wsum d < 2 ^ 32 then Some (s + word_of_nat (wsum d)) else None)"
proof (induction s d rule: sum_words.induct)
  case (1 s a b r)
  define w where "w = (ucast (from_be16 [a, b]) :: u32)"
  have sum: "wsum (a # b # r) = unat w + wsum r"
    by (simp add: w_def unat_pair)
  have split: "word_of_nat (unat w + wsum r) = w + word_of_nat (wsum r)"
    by (simp only: of_nat_add word_of_nat_unat)
  show ?case
  proof (cases "unat s + unat w < 2 ^ 32")
    case True
    then have "unat (s + w) = unat s + unat w" "checked_add s w = Some (s + w)"
      by (simp_all add: unat_word_ariths checked_add_def)
    with True 1 show ?thesis
      unfolding sum split by (simp add: w_def [symmetric] add.assoc)
  next
    case False
    then show ?thesis
      unfolding sum by (simp add: checked_add_def w_def [symmetric])
  qed
next
  case (2 s a)
  have "push_bit 8 (ucast a) = (word_of_nat (unat a * 256) :: u32)"
    by (simp only: unat_odd [symmetric] word_of_nat_unat)
  then show ?case
    using unat_odd [of a] by (simp add: checked_add_def)
next
  case (3 s)
  show ?case
    using unat_less [of s] by simp
qed

lemma fold_carry_eq: "unat (fold_carry s) = (if unat s = 0 then 0 else (unat s - 1) mod 65535 + 1)"
proof (induction s rule: fold_carry.induct)
  case (1 s)
  show ?case
  proof (cases "drop_bit 16 s = 0")
    case True
    then have "unat s div 65536 = 0"
      using shiftr16 [of s] by simp
    then have "unat s < 65536"
      by simp
    then show ?thesis
      using True by (auto simp: fold_carry.simps [of s])
  next
    case False
    let ?n = "unat s" and ?m = "unat s mod 65536 + unat s div 65536"
    have "?n div 65536 \<noteq> 0"
      using False shiftr16 [of s] by (metis unat_eq_0)
    then have "?m \<noteq> 0" "?n \<noteq> 0"
      by auto
    have "?n - 1 = ?m - 1 + 65535 * (?n div 65536)"
      using \<open>?m \<noteq> 0\<close> div_mult_mod_eq [of ?n 65536] by linarith
    then have "(?n - 1) mod 65535 = (?m - 1) mod 65535"
      by (metis mod_mult_self2)
    then show ?thesis
      using 1 [OF False] False \<open>?m \<noteq> 0\<close> \<open>?n \<noteq> 0\<close> fold_step [of s]
      by (simp add: fold_carry.simps [of s])
  qed
qed

lemma unat_not16: "unat (NOT (x :: u16)) = 65535 - unat x"
proof -
  have "NOT x = 65535 - x"
    by (simp add: not_eq_complement)
  moreover have "x \<le> 65535"
    using unat_u16_less [of x] by (simp add: word_le_nat_alt)
  ultimately show ?thesis
    by (simp add: unat_sub)
qed

text \<open>The residue the folding computes, in 1 .. 65535 for a sum that is not zero.\<close>

definition ones_residue :: "nat \<Rightarrow> nat" where
  "ones_residue n = (if n = 0 then 0 else (n - 1) mod 65535 + 1)"

lemma ones_residue_le: "ones_residue n \<le> 65535"
  by (auto simp: ones_residue_def Suc_le_eq)

lemma checksum_eq:
  "checksum d = (if wsum d < 2 ^ 32 then Some (word_of_nat (65535 - ones_residue (wsum d))) else None)"
proof (cases "wsum d < 2 ^ 32")
  case True
  let ?s = "word_of_nat (wsum d) :: u32"
  have s: "unat ?s = wsum d"
    using True by (simp add: unat_of_nat)
  have "unat (ucast (fold_carry ?s) :: u16) = ones_residue (wsum d)"
    using fold_carry_eq [of ?s] s ones_residue_le [of "wsum d"]
    by (simp add: ones_residue_def unsigned_ucast_eq take_bit_eq_mod)
  then have n: "65535 - ones_residue (wsum d) = unat (NOT (ucast (fold_carry ?s) :: u16))"
    by (simp add: unat_not16)
  have "NOT (ucast (fold_carry ?s) :: u16) = word_of_nat (65535 - ones_residue (wsum d))"
    by (simp only: n word_of_nat_unat)
  with True show ?thesis
    by (simp add: checksum_def sum_words_eq)
next
  case False
  then show ?thesis
    by (simp add: checksum_def sum_words_eq)
qed

lemma wsum_le: "wsum d \<le> 65535 * ((length d + 1) div 2)"
proof (induction d rule: wsum.induct)
  case (1 a b r)
  then show ?case
    using pair_less [of a b] by simp
next
  case (2 a)
  have "unat a * 256 \<le> 65535"
    using unat_byte_less [of a] by linarith
  then show ?case
    by simp
qed simp

text \<open>Packets of the sizes the stack builds never overflow the accumulator.\<close>

lemma wsum_small:
  assumes "length d \<le> 131072"
  shows "wsum d < 4294967296"
proof -
  have "(length d + 1) div 2 \<le> 65536"
    using assms by linarith
  then have "65535 * ((length d + 1) div 2) \<le> 65535 * 65536"
    by (rule mult_le_mono2)
  then show ?thesis
    using wsum_le [of d] by linarith
qed

lemma checksum_Some: "length d \<le> 131072 \<Longrightarrow> checksum d \<noteq> None"
  using wsum_small [of d] by (simp add: checksum_eq)

lemma wsum_append: "even (length xs) \<Longrightarrow> wsum (xs @ ys) = wsum xs + wsum ys"
  by (induction xs rule: wsum.induct) auto

lemma wsum_be16: "wsum (be16 c @ d) = unat c + wsum d"
proof -
  have "unat c div 256 < 256"
    using unat_u16_less [of c] by auto
  then show ?thesis
    by (simp add: be16_eq unsigned_ucast_eq take_bit_eq_mod)
qed

lemma ones_residue_zero: "65535 - ones_residue n = 0 \<longleftrightarrow> 0 < n \<and> n mod 65535 = 0"
proof (cases n)
  case (Suc m)
  have "Suc m mod 65535 = 0 \<longleftrightarrow> m mod 65535 = 65534"
    by (auto simp: mod_Suc)
  with Suc ones_residue_le [of n] show ?thesis
    by (auto simp: ones_residue_def)
qed (simp add: ones_residue_def)

lemma checksum_zero:
  assumes "wsum d < 4294967296"
  shows "checksum d = Some 0 \<longleftrightarrow> 0 < wsum d \<and> wsum d mod 65535 = 0"
proof -
  have "65535 - ones_residue (wsum d) < 65536"
    by simp
  then have "(word_of_nat (65535 - ones_residue (wsum d)) :: u16) = 0 \<longleftrightarrow> 65535 - ones_residue (wsum d) = 0"
    by (simp add: unat_of_nat flip: unat_eq_0)
  then show ?thesis
    using assms ones_residue_zero [of "wsum d"] by (simp add: checksum_eq)
qed

lemma ones_residue_complement: "0 < n + (65535 - ones_residue n) \<and> (n + (65535 - ones_residue n)) mod 65535 = 0"
proof (cases n)
  case (Suc m)
  then have "ones_residue n = m mod 65535 + 1"
    by (simp add: ones_residue_def)
  then have "n + (65535 - ones_residue n) = m div 65535 * 65535 + 65535"
    using Suc div_mult_mod_eq [of m 65535] mod_less_divisor [of 65535 m] by linarith
  then show ?thesis
    by simp
qed (simp add: ones_residue_def)

section \<open>Properties\<close>

lemma checksum_fill:
  assumes "even (length pre)" and "length pre + length post + 2 \<le> 131072"
    and "checksum (pre @ be16 0 @ post) = Some c"
  shows "checksum (pre @ be16 c @ post) = Some 0"
proof -
  let ?n = "wsum (pre @ be16 0 @ post)"
  have n: "?n = wsum pre + wsum post"
    using assms(1) wsum_be16 [of 0 post] by (simp add: wsum_append)
  have "?n < 4294967296"
    using assms(2) by (intro wsum_small) simp
  then have "unat c = 65535 - ones_residue ?n"
    using assms(3) by (auto simp: checksum_eq unat_of_nat split: if_splits)
  then have "wsum (pre @ be16 c @ post) = ?n + (65535 - ones_residue ?n)"
    using assms(1) n by (simp add: wsum_append wsum_be16)
  moreover have "wsum (pre @ be16 c @ post) < 4294967296"
    using assms(2) by (intro wsum_small) simp
  ultimately show ?thesis
    using checksum_zero ones_residue_complement by metis
qed

text \<open>The checksum of a packet with its 16-bit checksum field zeroed, written into that field (which lies at
  an even offset), makes the packet verify: the checksum of the completed packet is 0. This
  is what a receiver checks.\<close>

theorem checksum_verifies:
  assumes "even (length pre)" and "length pre + length post + 2 \<le> 131072"
    and "checksum (pre @ be16 0 @ post) = Some c"
  shows "checksum (pre @ be16 c @ post) = Some 0"
  using assms by (rule checksum_fill)

theorem checksum_verifies_witness:
  "\<exists>c. checksum ([0x45, 0] @ be16 0 @ [1, 2, 3]) = Some c \<and> checksum ([0x45, 0] @ be16 c @ [1, 2, 3]) = Some 0"
proof -
  obtain c where "checksum ([0x45, 0] @ be16 0 @ [1, 2, 3]) = Some c"
    using checksum_Some [of "[0x45, 0] @ be16 0 @ [1, 2, 3]"] by auto
  then show ?thesis
    using checksum_verifies [of "[0x45, 0]" "[1, 2, 3]" c] by auto
qed

lemma residue_cancel:
  fixes n x y :: nat
  assumes "(n + x) mod 65535 = (n + y) mod 65535" and "x < 65536" and "y < 65536"
  shows "x = y \<or> (x = 65535 \<and> y = 0) \<or> (x = 0 \<and> y = 65535)"
proof -
  have "int (n + x) mod 65535 = int (n + y) mod 65535"
    using arg_cong [OF assms(1), of int] by (simp only: zmod_int of_nat_numeral)
  then have "65535 dvd int x - int y"
    by (simp add: mod_eq_dvd_iff)
  then obtain k where k: "int x - int y = 65535 * k"
    by (rule dvdE)
  then have "-1 \<le> k" "k \<le> 1"
    using assms(2,3) by linarith+
  then consider "k = 0" | "k = 1" | "k = -1"
    by linarith
  then show ?thesis
    by cases (use k assms(2,3) in auto)
qed

text \<open>Any corruption of a single 16-bit word of a packet that verifies is detected, except the one the
  ones-complement sum cannot see, an exchange of 0x0000 and 0xffff.\<close>

theorem checksum_detects_word:
  assumes "even (length pre)" and "length pre + length post + 2 \<le> 131072"
    and "checksum (pre @ be16 w @ post) = Some 0" and "w' \<noteq> w" and "\<not> (w = 0 \<and> w' = 0xffff)" and "\<not> (w = 0xffff \<and> w' = 0)"
  shows "checksum (pre @ be16 w' @ post) \<noteq> Some 0"
proof
  assume "checksum (pre @ be16 w' @ post) = Some 0"
  moreover have "wsum (pre @ be16 v @ post) < 4294967296" for v
    using assms(2) by (intro wsum_small) simp
  ultimately have "(wsum pre + wsum post + unat w) mod 65535 = (wsum pre + wsum post + unat w') mod 65535"
    using assms(1,3) by (simp add: checksum_zero wsum_append wsum_be16 ac_simps)
  from residue_cancel [OF this unat_u16_less unat_u16_less] show False
    using assms(4-6) by (auto simp: word_unat_eq_iff)
qed

theorem checksum_detects_word_witness:
  "checksum ([0x45, 0] @ be16 0xb9fd @ [1, 2]) = Some 0 \<and> checksum ([0x45, 0] @ be16 0xb9fe @ [1, 2]) \<noteq> Some 0"
proof -
  have "wsum ([0x45, 0] @ be16 0xb9fd @ [1, 2]) = 65535"
    by (simp add: be16_eq)
  then have "checksum ([0x45, 0] @ be16 0xb9fd @ [1, 2]) = Some 0"
    by (simp add: checksum_zero)
  then show ?thesis
    using checksum_detects_word [of "[0x45, 0]" "[1, 2]" "0xb9fd" "0xb9fe"] by auto
qed

end
