(* ===== verification/E1000.thy ===== *)
theory E1000
  imports Memory
begin

unbundle bit_operations_syntax

text \<open>
  The e1000 network driver (\<open>drivers/e1000.rs\<close>): PCI discovery, MMIO mapping, bring-up of the
  descriptor rings, and the polled send and receive paths.

  The byte store \<open>ram\<close> is the kernel's view of memory by virtual address. The two descriptor
  rings are pages the driver only accesses as arrays of eight descriptors, so they are lists
  in the \<open>nic\<close> record; frame buffers are ranges of \<open>ram\<close>. Port and MMIO accesses are appended
  to a log; the device is a parameter \<open>dev\<close> that gives the value of the read at the end of a
  log, so every behaviour of the hardware is some \<open>dev\<close>. What the device writes by DMA is not
  an operation of the driver: \<open>dma_receive\<close> states it where a property needs it.
\<close>

section \<open>State\<close>

type_synonym ram = "u64 \<Rightarrow> byte"

fun store_bytes :: "u64 \<Rightarrow> byte list \<Rightarrow> ram \<Rightarrow> ram" where
  "store_bytes a [] m = m"
| "store_bytes a (b # bs) m = store_bytes (a + 1) bs (m(a := b))"

fun load_bytes :: "u64 \<Rightarrow> nat \<Rightarrow> ram \<Rightarrow> byte list" where
  "load_bytes a 0 m = []"
| "load_bytes a (Suc n) m = m a # load_bytes (a + 1) n m"

type_synonym mac_addr = "byte \<times> byte \<times> byte \<times> byte \<times> byte \<times> byte"
type_synonym ipv4 = "byte \<times> byte \<times> byte \<times> byte"

record desc =
  d_addr :: u64
  d_length :: u16
  d_tos :: byte
  d_cmd :: byte
  d_status :: byte
  d_css :: byte
  d_offset :: u16

record nic =
  base :: u64
  mac :: mac_addr
  rx_ring :: "desc list"
  rx_bufs :: "(u64 \<times> u64) list"
  rx_cursor :: nat
  tx_ring :: "desc list"
  tx_buf :: u64
  tx_buf_phys :: u64
  tx_cursor :: nat
  rx_ring_phys :: u64
  tx_ring_phys :: u64

datatype io_event = MmioWrite u64 u32 | MmioRead u64 | OutL u16 u32 | InL u16

type_synonym device = "io_event list \<Rightarrow> u32"

record e1000 = memory +
  ram :: ram
  io_log :: "io_event list"
  NIC :: "nic option"

section \<open>Constants\<close>

definition VENDOR_INTEL :: u16 where "VENDOR_INTEL = 0x8086"
definition DEVICE_E1000 :: u16 where "DEVICE_E1000 = 0x100e"

definition REG_CTRL :: u32 where "REG_CTRL = 0x0000"
definition REG_STATUS :: u32 where "REG_STATUS = 0x0008"
definition REG_IMC :: u32 where "REG_IMC = 0x0068"
definition REG_ICR :: u32 where "REG_ICR = 0x00c0"
definition REG_RCTL :: u32 where "REG_RCTL = 0x0100"
definition REG_TCTL :: u32 where "REG_TCTL = 0x0400"
definition REG_MTA :: u32 where "REG_MTA = 0x2c00"
definition REG_RAL0 :: u32 where "REG_RAL0 = 0x5400"
definition REG_RAH0 :: u32 where "REG_RAH0 = 0x5404"
definition REG_RDBAL :: u32 where "REG_RDBAL = 0x2800"
definition REG_RDBAH :: u32 where "REG_RDBAH = 0x2804"
definition REG_RDLEN :: u32 where "REG_RDLEN = 0x2808"
definition REG_RDH :: u32 where "REG_RDH = 0x2810"
definition REG_RDT :: u32 where "REG_RDT = 0x2818"
definition REG_TDBAL :: u32 where "REG_TDBAL = 0x3800"
definition REG_TDBAH :: u32 where "REG_TDBAH = 0x3804"
definition REG_TDLEN :: u32 where "REG_TDLEN = 0x3808"
definition REG_TDH :: u32 where "REG_TDH = 0x3810"
definition REG_TDT :: u32 where "REG_TDT = 0x3818"

definition CTRL_SLU :: u32 where "CTRL_SLU = push_bit 6 1"
definition CTRL_RST :: u32 where "CTRL_RST = push_bit 26 1"
definition STATUS_LU :: u32 where "STATUS_LU = push_bit 1 1"
definition RCTL_EN :: u32 where "RCTL_EN = push_bit 1 1"
definition RCTL_UPE :: u32 where "RCTL_UPE = push_bit 2 1"
definition TCTL_EN :: u32 where "TCTL_EN = push_bit 0 1"

definition NUM_RX :: nat where "NUM_RX = 8"
definition NUM_TX :: nat where "NUM_TX = 8"
definition DESC_DD :: byte where "DESC_DD = 0x01"
definition TX_CMD :: byte where "TX_CMD = 0x19"

definition IP :: ipv4 where "IP = (10, 0, 2, 15)"
definition GATEWAY :: ipv4 where "GATEWAY = (10, 0, 2, 2)"

definition empty_desc :: "u64 \<Rightarrow> desc" where
  "empty_desc a = \<lparr>d_addr = a, d_length = 0, d_tos = 0, d_cmd = 0, d_status = 0, d_css = 0, d_offset = 0\<rparr>"

section \<open>PCI configuration space\<close>

definition pci_addr :: "byte \<Rightarrow> byte \<Rightarrow> byte \<Rightarrow> byte \<Rightarrow> u32" where
  "pci_addr bus dv fn offset =
     0x80000000 OR push_bit 16 (ucast bus) OR push_bit 11 (ucast dv) OR push_bit 8 (ucast fn)
       OR (ucast offset AND 0xfc)"

definition pci_read ::
  "device \<Rightarrow> byte \<Rightarrow> byte \<Rightarrow> byte \<Rightarrow> byte \<Rightarrow> 'a e1000_scheme \<Rightarrow> u32 \<times> 'a e1000_scheme" where
  "pci_read dev bus dv fn offset s =
     (let log = io_log s @ [OutL 0xcf8 (pci_addr bus dv fn offset), InL 0xcfc]
      in (dev log, s\<lparr>io_log := log\<rparr>))"

definition pci_write ::
  "byte \<Rightarrow> byte \<Rightarrow> byte \<Rightarrow> byte \<Rightarrow> u32 \<Rightarrow> 'a e1000_scheme \<Rightarrow> 'a e1000_scheme" where
  "pci_write bus dv fn offset val s =
     s\<lparr>io_log := io_log s @ [OutL 0xcf8 (pci_addr bus dv fn offset), OutL 0xcfc val]\<rparr>"

fun find_device_from ::
  "device \<Rightarrow> byte list \<Rightarrow> 'a e1000_scheme \<Rightarrow> (byte \<times> byte \<times> u64) option \<times> 'a e1000_scheme" where
  "find_device_from dev [] s = (None, s)"
| "find_device_from dev (d # ds) s =
     (let (v, s) = pci_read dev 0 d 0 0x00 s;
          vid = (ucast (v AND 0xffff) :: u16)
      in if vid = 0xffff then find_device_from dev ds s
         else
           let (v, s) = pci_read dev 0 d 0 0x00 s;
               did = (ucast (drop_bit 16 v) :: u16)
           in if vid = VENDOR_INTEL \<and> did = DEVICE_E1000 then
                let (bar, s) = pci_read dev 0 d 0 0x10 s;
                    b = (ucast bar :: u64) AND 0xfffffff0;
                    (cmd, s) = pci_read dev 0 d 0 0x04 s;
                    s = pci_write 0 d 0 0x04 (cmd OR 0x06) s
                in (Some (d, 0, b), s)
              else find_device_from dev ds s)"

definition find_device :: "device \<Rightarrow> 'a e1000_scheme \<Rightarrow> (byte \<times> byte \<times> u64) option \<times> 'a e1000_scheme" where
  "find_device dev s = find_device_from dev (map word_of_nat [0..<32]) s"

section \<open>Memory for the device\<close>

definition mmio_flags :: "pflag set" where
  "mmio_flags = {PRESENT, WRITABLE, NO_CACHE, NO_EXECUTE}"

definition page_of :: "u64 \<Rightarrow> u64" where
  "page_of a = a - a mod 4096"

fun map_mmio_pages ::
  "map_to_fn \<Rightarrow> u64 \<Rightarrow> u64 \<Rightarrow> nat list \<Rightarrow> 'a e1000_scheme \<Rightarrow> 'a e1000_scheme option" where
  "map_mmio_pages map_to phys virt [] s = Some s"
| "map_mmio_pages map_to phys virt (i # js) s = do {
     v \<leftarrow> checked_add virt (word_of_nat i * 4096);
     t \<leftarrow> translate (page_of v) s;
     (case t of
        Some _ \<Rightarrow> map_mmio_pages map_to phys virt js s
      | None \<Rightarrow> do {
          p \<leftarrow> checked_add phys (word_of_nat i * 4096);
          (r, s) \<leftarrow> map_page map_to (page_of v) (page_of p) mmio_flags s;
          (case r of Inl _ \<Rightarrow> None | Inr _ \<Rightarrow> map_mmio_pages map_to phys virt js s)
        })
   }"

definition map_mmio ::
  "map_to_fn \<Rightarrow> u64 \<Rightarrow> nat \<Rightarrow> 'a e1000_scheme \<Rightarrow> (u64 \<times> 'a e1000_scheme) option" where
  "map_mmio map_to phys pages s = do {
     offset \<leftarrow> phys_offset s;
     virt \<leftarrow> checked_add offset phys;
     s \<leftarrow> map_mmio_pages map_to phys virt [0..<pages] s;
     Some (virt, s)
   }"

definition alloc_page :: "bool \<Rightarrow> 'a e1000_scheme \<Rightarrow> ((u64 \<times> u64) \<times> 'a e1000_scheme) option" where
  "alloc_page zero s =
     (let (frame, s) = vmm_alloc_frame s in
      do {
        phys \<leftarrow> frame;
        offset \<leftarrow> phys_offset s;
        virt \<leftarrow> checked_add offset phys;
        let s = (if zero then s\<lparr>ram := store_bytes virt (replicate 4096 0) (ram s)\<rparr> else s);
        Some ((virt, phys), s)
      })"

fun alloc_pages :: "nat \<Rightarrow> 'a e1000_scheme \<Rightarrow> ((u64 \<times> u64) list \<times> 'a e1000_scheme) option" where
  "alloc_pages 0 s = Some ([], s)"
| "alloc_pages (Suc n) s = do {
     (p, s) \<leftarrow> alloc_page False s;
     (ps, s) \<leftarrow> alloc_pages n s;
     Some (p # ps, s)
   }"

section \<open>Registers\<close>

definition write_reg :: "nic \<Rightarrow> u32 \<Rightarrow> u32 \<Rightarrow> 'a e1000_scheme \<Rightarrow> 'a e1000_scheme option" where
  "write_reg n off val s = do {
     a \<leftarrow> checked_add (base n) (ucast off);
     Some (s\<lparr>io_log := io_log s @ [MmioWrite a val]\<rparr>)
   }"

definition read_reg :: "device \<Rightarrow> nic \<Rightarrow> u32 \<Rightarrow> 'a e1000_scheme \<Rightarrow> (u32 \<times> 'a e1000_scheme) option" where
  "read_reg dev n off s = do {
     a \<leftarrow> checked_add (base n) (ucast off);
     let log = io_log s @ [MmioRead a];
     Some (dev log, s\<lparr>io_log := log\<rparr>)
   }"

section \<open>Bring-up\<close>

definition build_nic :: "map_to_fn \<Rightarrow> u64 \<Rightarrow> 'a e1000_scheme \<Rightarrow> (nic \<times> 'a e1000_scheme) option" where
  "build_nic map_to bar s = do {
     (b, s) \<leftarrow> map_mmio map_to bar 16 s;
     ((rx_v, rx_p), s) \<leftarrow> alloc_page True s;
     ((tx_v, tx_p), s) \<leftarrow> alloc_page True s;
     (bufs, s) \<leftarrow> alloc_pages NUM_RX s;
     ((tb, tbp), s) \<leftarrow> alloc_page True s;
     Some (\<lparr>base = b, mac = (0, 0, 0, 0, 0, 0), rx_ring = map (\<lambda>(_, p). empty_desc p) bufs,
            rx_bufs = bufs, rx_cursor = 0, tx_ring = replicate NUM_TX (empty_desc 0),
            tx_buf = tb, tx_buf_phys = tbp, tx_cursor = 0,
            rx_ring_phys = rx_p, tx_ring_phys = tx_p\<rparr>, s)
   }"

text \<open>The bounded wait for the reset bit to clear.\<close>

fun await_reset :: "device \<Rightarrow> nic \<Rightarrow> nat \<Rightarrow> 'a e1000_scheme \<Rightarrow> 'a e1000_scheme option" where
  "await_reset dev n 0 s = Some s"
| "await_reset dev n (Suc k) s = do {
     (v, s) \<leftarrow> read_reg dev n REG_CTRL s;
     if v AND CTRL_RST = 0 then Some s else await_reset dev n k s
   }"

fun clear_mta :: "nic \<Rightarrow> nat list \<Rightarrow> 'a e1000_scheme \<Rightarrow> 'a e1000_scheme option" where
  "clear_mta n [] s = Some s"
| "clear_mta n (i # js) s = do {
     s \<leftarrow> write_reg n (REG_MTA + word_of_nat i * 4) 0 s;
     clear_mta n js s
   }"

definition mac_of_regs :: "u32 \<Rightarrow> u32 \<Rightarrow> mac_addr" where
  "mac_of_regs ral rah =
     (ucast ral, ucast (drop_bit 8 ral), ucast (drop_bit 16 ral), ucast (drop_bit 24 ral),
      ucast rah, ucast (drop_bit 8 rah))"

definition mac_bytes :: "mac_addr \<Rightarrow> byte list" where
  "mac_bytes m = (case m of (a, b, c, d, e, f) \<Rightarrow> [a, b, c, d, e, f])"

definition byte_args :: "byte list \<Rightarrow> fmt_arg list" where
  "byte_args bs = map (\<lambda>b. ANum (unat b)) bs"

definition configure :: "device \<Rightarrow> map_to_fn \<Rightarrow> u64 \<Rightarrow> 'a e1000_scheme \<Rightarrow> 'a e1000_scheme option" where
  "configure dev map_to bar s = do {
     (n, s) \<leftarrow> build_nic map_to bar s;
     s \<leftarrow> write_reg n REG_IMC 0x7fffffff s;
     (_, s) \<leftarrow> read_reg dev n REG_ICR s;
     (c, s) \<leftarrow> read_reg dev n REG_CTRL s;
     s \<leftarrow> write_reg n REG_CTRL (c OR CTRL_RST) s;
     s \<leftarrow> await_reset dev n 100000 s;
     (c, s) \<leftarrow> read_reg dev n REG_CTRL s;
     s \<leftarrow> write_reg n REG_CTRL (c OR CTRL_SLU) s;
     (ral, s) \<leftarrow> read_reg dev n REG_RAL0 s;
     (rah, s) \<leftarrow> read_reg dev n REG_RAH0 s;
     let n = n\<lparr>mac := mac_of_regs ral rah\<rparr>;
     s \<leftarrow> clear_mta n [0..<128] s;
     s \<leftarrow> write_reg n REG_RDBAL (ucast (rx_ring_phys n)) s;
     s \<leftarrow> write_reg n REG_RDBAH 0 s;
     s \<leftarrow> write_reg n REG_RDLEN (word_of_nat (NUM_RX * 16)) s;
     s \<leftarrow> write_reg n REG_RDH 0 s;
     s \<leftarrow> write_reg n REG_RDT (word_of_nat NUM_RX - 1) s;
     s \<leftarrow> write_reg n REG_RCTL (RCTL_EN OR RCTL_UPE) s;
     s \<leftarrow> write_reg n REG_TDBAL (ucast (tx_ring_phys n)) s;
     s \<leftarrow> write_reg n REG_TDBAH 0 s;
     s \<leftarrow> write_reg n REG_TDLEN (word_of_nat (NUM_TX * 16)) s;
     s \<leftarrow> write_reg n REG_TCTL TCTL_EN s;
     s \<leftarrow> write_reg n REG_TDH 0 s;
     s \<leftarrow> write_reg n REG_TDT 0 s;
     (st, s) \<leftarrow> read_reg dev n REG_STATUS s;
     let link = (st AND STATUS_LU \<noteq> 0);
     Some (println ''[e1000] MAC {:02x}:{:02x}:{:02x}:{:02x}:{:02x}:{:02x}, link {}''
             (byte_args (mac_bytes (mac n)) @ [AStr (str (if link then ''up'' else ''down''))])
             (s\<lparr>NIC := Some n\<rparr>))
   }"

definition e1000_init :: "device \<Rightarrow> map_to_fn \<Rightarrow> 'a e1000_scheme \<Rightarrow> 'a e1000_scheme option" where
  "e1000_init dev map_to s =
     (case find_device dev s of
        (None, s) \<Rightarrow> Some (println ''[e1000] no Intel e1000 found on PCI bus 0'' [] s)
      | (Some (d, fn, bar), s) \<Rightarrow>
          let s = println ''[e1000] device found, BAR0 MMIO base = {:#x}'' [ANum (unat bar)] s;
              (cmd, s) = pci_read dev 0 d fn 0x04 s;
              s = println ''[e1000] PCI cmd={:#x} (mem={}, busmaster={})''
                    [ANum (unat cmd), ABool (cmd AND 0x02 \<noteq> 0), ABool (cmd AND 0x04 \<noteq> 0)] s
          in configure dev map_to bar s)"

section \<open>Send and receive\<close>

definition e1000_send :: "byte list \<Rightarrow> 'a e1000_scheme \<Rightarrow> (bool \<times> 'a e1000_scheme) option" where
  "e1000_send frame s =
     (case NIC s of
        None \<Rightarrow> Some (False, s)
      | Some n \<Rightarrow> do {
          let s = s\<lparr>ram := store_bytes (tx_buf n) frame (ram s)\<rparr>;
          let i = tx_cursor n mod NUM_TX;
          ring \<leftarrow> put i \<lparr>d_addr = tx_buf_phys n, d_length = word_of_nat (length frame), d_tos = 0,
                       d_cmd = TX_CMD, d_status = 0, d_css = 0, d_offset = 0\<rparr> (tx_ring n);
          let n = n\<lparr>tx_ring := ring, tx_cursor := tx_cursor n + 1\<rparr>;
          s \<leftarrow> write_reg n REG_TDT (word_of_nat (tx_cursor n mod NUM_TX)) s;
          Some (True, s\<lparr>NIC := Some n\<rparr>)
        })"

definition poll_receive :: "'a e1000_scheme \<Rightarrow> (byte list option \<times> 'a e1000_scheme) option" where
  "poll_receive s =
     (case NIC s of
        None \<Rightarrow> Some (None, s)
      | Some n \<Rightarrow> do {
          let i = rx_cursor n mod NUM_RX;
          d \<leftarrow> get_at (rx_ring n) i;
          if d_status d AND DESC_DD = 0 \<or> d_length d = 0 then Some (None, s)
          else do {
            (virt, phys) \<leftarrow> get_at (rx_bufs n) i;
            let out = load_bytes virt (unat (d_length d)) (ram s);
            ring \<leftarrow> put i (empty_desc phys) (rx_ring n);
            let n = n\<lparr>rx_ring := ring\<rparr>;
            s \<leftarrow> write_reg n REG_RDT (word_of_nat i) s;
            Some (Some out, s\<lparr>NIC := Some (n\<lparr>rx_cursor := rx_cursor n + 1\<rparr>)\<rparr>)
          }
        })"

definition mac_address :: "'a e1000_scheme \<Rightarrow> mac_addr option" where
  "mac_address s = map_option mac (NIC s)"

definition rx_debug :: "device \<Rightarrow> 'a e1000_scheme \<Rightarrow> 'a e1000_scheme option" where
  "rx_debug dev s =
     (case NIC s of
        None \<Rightarrow> Some s
      | Some n \<Rightarrow> do {
          let dd = map d_status (take NUM_RX (rx_ring n));
          tx0 \<leftarrow> get_at (tx_ring n) 0;
          (rdh, s) \<leftarrow> read_reg dev n REG_RDH s;
          (rdt, s) \<leftarrow> read_reg dev n REG_RDT s;
          (icr, s) \<leftarrow> read_reg dev n REG_ICR s;
          let s = println ''[e1000] RX rdh={} rdt={} icr={:#x} desc_dd={:?}''
                    [ANum (unat rdh), ANum (unat rdt), ANum (unat icr), AList (byte_args dd)] s;
          (tdh, s) \<leftarrow> read_reg dev n REG_TDH s;
          (tdt, s) \<leftarrow> read_reg dev n REG_TDT s;
          (tctl, s) \<leftarrow> read_reg dev n REG_TCTL s;
          Some (println ''[e1000] TX tdh={} tdt={} tctl={:#x} desc0(status={:#x} cmd={:#x} len={})''
                  [ANum (unat tdh), ANum (unat tdt), ANum (unat tctl), ANum (unat (d_status tx0)),
                   ANum (unat (d_cmd tx0)), ANum (unat (d_length tx0))] s)
        })"

end
