(* ===== verification/E1000_Properties.thy ===== *)
theory E1000_Properties
  imports E1000
begin

unbundle bit_operations_syntax

text \<open>
  What the network driver guarantees. The receive ring, with its descriptors, buffers and
  cursor, is a first-in first-out queue of frames; a frame that is sent reaches the device
  byte for byte; and bring-up establishes the invariant (rings and buffers of eight entries
  in disjoint pages) that both rely on.
\<close>

section \<open>Lemmas on the byte store\<close>

definition addrs :: "u64 \<Rightarrow> nat \<Rightarrow> u64 set" where
  "addrs a n = (\<lambda>i. a + word_of_nat i) ` {..<n}"

lemma addrs_0 [simp]: "addrs a 0 = {}"
  by (simp add: addrs_def)

lemma addrs_Suc: "addrs a (Suc n) = insert a (addrs (a + 1) n)"
  unfolding addrs_def lessThan_Suc_eq_insert_0 image_insert image_image
  by (simp add: algebra_simps)

lemma addrs_mono: "m \<le> n \<Longrightarrow> addrs a m \<subseteq> addrs a n"
  by (auto simp: addrs_def)

lemma not_in_addrs_Suc:
  assumes "Suc n \<le> 2 ^ 64"
  shows "a \<notin> addrs (a + 1) n"
proof
  assume "a \<in> addrs (a + 1) n"
  then obtain i where i: "i < n" "a = a + 1 + word_of_nat i"
    by (auto simp: addrs_def)
  then have "(word_of_nat (Suc i) :: u64) = 0"
    by (simp add: add.assoc)
  moreover have "unat (word_of_nat (Suc i) :: u64) = Suc i"
    using i(1) assms by (subst unat_of_nat) simp
  ultimately show False
    by simp
qed

lemma store_bytes_other: "x \<notin> addrs a (length bs) \<Longrightarrow> store_bytes a bs m x = m x"
  by (induction a bs m rule: store_bytes.induct) (auto simp: addrs_Suc)

lemma load_bytes_cong:
  "(\<And>x. x \<in> addrs a n \<Longrightarrow> m x = m' x) \<Longrightarrow> load_bytes a n m = load_bytes a n m'"
  by (induction n arbitrary: a) (auto simp: addrs_Suc)

lemma load_store:
  assumes "length bs \<le> 2 ^ 64"
  shows "load_bytes a (length bs) (store_bytes a bs m) = bs"
  using assms
proof (induction bs arbitrary: a m)
  case (Cons b bs)
  have "store_bytes (a + 1) bs (m(a := b)) a = b"
    using Cons.prems by (subst store_bytes_other) (auto intro!: not_in_addrs_Suc)
  then show ?case
    using Cons by simp
qed simp

lemma load_store_other:
  assumes "addrs a n \<inter> addrs b (length bs) = {}"
  shows "load_bytes a n (store_bytes b bs m) = load_bytes a n m"
  using assms by (intro load_bytes_cong store_bytes_other) blast

lemma length_load_bytes [simp]: "length (load_bytes a n m) = n"
  by (induction n arbitrary: a) auto

section \<open>The driver's invariant\<close>

text \<open>
  What bring-up establishes: rings and buffers of eight entries, a register window that does
  not wrap, receive buffers that are disjoint pages, and a transmit buffer apart from them.
\<close>

definition nic_ok :: "nic \<Rightarrow> bool" where
  "nic_ok n \<longleftrightarrow> length (rx_ring n) = 8 \<and> length (rx_bufs n) = 8 \<and> length (tx_ring n) = 8 \<and>
     unat (base n) + 0xf000 < 2 ^ 64 \<and>
     (\<forall>i<8. \<forall>j<8. i \<noteq> j \<longrightarrow> addrs (fst (rx_bufs n ! i)) 4096 \<inter> addrs (fst (rx_bufs n ! j)) 4096 = {}) \<and>
     (\<forall>i<8. addrs (fst (rx_bufs n ! i)) 4096 \<inter> addrs (tx_buf n) 4096 = {})"

lemma write_reg_Some:
  assumes "unat (base n) + 0xf000 < 2 ^ 64" and "off < 0xf000"
  shows "write_reg n off v s = Some (s\<lparr>io_log := io_log s @ [MmioWrite (base n + ucast off) v]\<rparr>)"
proof -
  have "unat off < 0xf000"
    using assms(2) by (simp add: word_less_nat_alt)
  then have "unat (ucast off :: u64) < 0xf000"
    by (simp add: unsigned_ucast_eq take_bit_eq_mod)
  then show ?thesis
    using assms(1) by (simp add: write_reg_def checked_add_def)
qed

definition tx_desc :: "nic \<Rightarrow> byte list \<Rightarrow> desc" where
  "tx_desc n frame = \<lparr>d_addr = tx_buf_phys n, d_length = word_of_nat (length frame), d_tos = 0,
     d_cmd = TX_CMD, d_status = 0, d_css = 0, d_offset = 0\<rparr>"

text \<open>What sending leaves behind, in one equation.\<close>

lemma e1000_send_eq:
  assumes "NIC s = Some n" and "nic_ok n"
  shows "e1000_send frame s = Some (True, s\<lparr>
      ram := store_bytes (tx_buf n) frame (ram s),
      io_log := io_log s @ [MmioWrite (base n + 0x3818) (word_of_nat ((tx_cursor n + 1) mod 8))],
      NIC := Some (n\<lparr>tx_ring := (tx_ring n)[tx_cursor n mod 8 := tx_desc n frame], tx_cursor := tx_cursor n + 1\<rparr>)\<rparr>)"
proof -
  have "unat (base n) + 0xf000 < 2 ^ 64"
    using assms(2) by (simp add: nic_ok_def)
  note wr = write_reg_Some [of "n\<lparr>tx_ring := r, tx_cursor := c\<rparr>" for r c, simplified, OF this [simplified]]
  have "length (tx_ring n) = 8"
    using assms(2) by (simp add: nic_ok_def)
  then show ?thesis
    using assms(1) by (simp add: e1000_send_def tx_desc_def NUM_TX_def put_def wr REG_TDT_def)
qed

lemma nic_ok_send:
  "nic_ok n \<Longrightarrow> nic_ok (n\<lparr>tx_ring := (tx_ring n)[i := d], tx_cursor := c\<rparr>)"
  by (simp add: nic_ok_def)

section \<open>The receive ring as a queue\<close>

text \<open>
  The frames waiting in the receive ring: from the driver's cursor on, the device has filled
  as many descriptors and buffers, and the other descriptors are not done. This is the abstraction of the ring as a queue of frames.
\<close>

definition rx_pending :: "'a e1000_scheme \<Rightarrow> byte list list \<Rightarrow> bool" where
  "rx_pending s fs \<longleftrightarrow> (\<exists>n. NIC s = Some n \<and> nic_ok n \<and> length fs \<le> 8 \<and>
     (\<forall>j<length fs. let i = (rx_cursor n + j) mod 8; d = rx_ring n ! i in
        d_status d AND DESC_DD \<noteq> 0 \<and> fs ! j \<noteq> [] \<and> length (fs ! j) \<le> 4096 \<and>
        unat (d_length d) = length (fs ! j) \<and>
        load_bytes (fst (rx_bufs n ! i)) (length (fs ! j)) (ram s) = fs ! j) \<and>
     (\<forall>j<8. length fs \<le> j \<longrightarrow> d_status (rx_ring n ! ((rx_cursor n + j) mod 8)) AND DESC_DD = 0))"

text \<open>What the device does when a frame arrives and the driver has a free descriptor: it writes the
  bytes into the buffer, then the length and the done bit into the descriptor.\<close>

definition dma_receive :: "nat \<Rightarrow> byte list \<Rightarrow> 'a e1000_scheme \<Rightarrow> 'a e1000_scheme" where
  "dma_receive i frame s =
     (case NIC s of
        None \<Rightarrow> s
      | Some n \<Rightarrow> s\<lparr>ram := store_bytes (fst (rx_bufs n ! i)) frame (ram s),
          NIC := Some (n\<lparr>rx_ring := (rx_ring n)[i := (rx_ring n ! i)\<lparr>d_length := word_of_nat (length frame),
            d_status := DESC_DD\<rparr>]\<rparr>)\<rparr>)"

lemma mod8_neq:
  fixes c j k :: nat
  assumes "(c + j) mod 8 = (c + k) mod 8" and "j < 8" and "k < 8"
  shows "j = k"
proof -
  have "int (c + j) mod 8 = int (c + k) mod 8"
    using arg_cong [OF assms(1), of int] by (simp only: zmod_int of_nat_numeral)
  then have "8 dvd int j - int k"
    by (simp add: mod_eq_dvd_iff)
  then obtain l where l: "int j - int k = 8 * l"
    by (rule dvdE)
  then have "-1 < l" "l < 1"
    using assms(2,3) by linarith+
  then show ?thesis
    using l by simp
qed

lemma poll_receive_empty:
  assumes "rx_pending s []"
  shows "poll_receive s = Some (None, s)"
proof -
  obtain n where "NIC s = Some n" "length (rx_ring n) = 8"
      "\<forall>j<8. d_status (rx_ring n ! ((rx_cursor n + j) mod 8)) AND DESC_DD = 0"
    using assms by (auto simp: rx_pending_def nic_ok_def)
  from this(1,2) this(3) [rule_format, of 0] show ?thesis
    by (simp add: poll_receive_def get_at_def NUM_RX_def Let_def)
qed

lemma poll_receive_pop:
  assumes "rx_pending s (f # fs)"
  obtains s' n i where "poll_receive s = Some (Some f, s')" "rx_pending s' fs" "NIC s = Some n"
    "s' = s\<lparr>io_log := io_log s @ [MmioWrite (base n + 0x2818) (word_of_nat i)],
       NIC := Some (n\<lparr>rx_ring := (rx_ring n)[i := empty_desc (snd (rx_bufs n ! i))], rx_cursor := rx_cursor n + 1\<rparr>)\<rparr>"
    "i = rx_cursor n mod 8"
proof -
  from assms obtain n where n: "NIC s = Some n" and ok: "nic_ok n" and len: "length (f # fs) \<le> 8"
    and pend: "\<forall>j<length (f # fs). let i = (rx_cursor n + j) mod 8; d = rx_ring n ! i in
        d_status d AND DESC_DD \<noteq> 0 \<and> (f # fs) ! j \<noteq> [] \<and> length ((f # fs) ! j) \<le> 4096 \<and>
        unat (d_length d) = length ((f # fs) ! j) \<and>
        load_bytes (fst (rx_bufs n ! i)) (length ((f # fs) ! j)) (ram s) = (f # fs) ! j"
    and rest: "\<forall>j<8. length (f # fs) \<le> j \<longrightarrow> d_status (rx_ring n ! ((rx_cursor n + j) mod 8)) AND DESC_DD = 0"
    unfolding rx_pending_def by blast
  define i where "i = rx_cursor n mod 8"
  have i8: "i < 8"
    by (simp add: i_def)
  have first: "d_status (rx_ring n ! i) AND DESC_DD \<noteq> 0" "f \<noteq> []" "unat (d_length (rx_ring n ! i)) = length f"
      "load_bytes (fst (rx_bufs n ! i)) (length f) (ram s) = f"
    using pend [rule_format, of 0] by (auto simp: i_def Let_def)
  then have "d_length (rx_ring n ! i) \<noteq> 0"
    by auto
  let ?n = "n\<lparr>rx_ring := (rx_ring n)[i := empty_desc (snd (rx_bufs n ! i))], rx_cursor := rx_cursor n + 1\<rparr>"
  let ?s = "s\<lparr>io_log := io_log s @ [MmioWrite (base n + 0x2818) (word_of_nat i)], NIC := Some ?n\<rparr>"
  have "unat (base n) + 0xf000 < 2 ^ 64"
    using ok by (simp add: nic_ok_def)
  note wr = write_reg_Some [of "n\<lparr>rx_ring := r\<rparr>" for r, simplified, OF this [simplified]]
  have "poll_receive s = Some (Some f, ?s)"
    using n ok i8 first \<open>d_length (rx_ring n ! i) \<noteq> 0\<close>
    by (simp add: poll_receive_def NUM_RX_def i_def [symmetric] get_at_def put_def nic_ok_def wr REG_RDT_def
        case_prod_beta)
  moreover have "rx_pending ?s fs"
    unfolding rx_pending_def
  proof (intro exI [of _ ?n] conjI allI impI)
    show "NIC ?s = Some ?n" "nic_ok ?n" "length fs \<le> 8"
      using ok len by (simp_all add: nic_ok_def)
  next
    fix j
    assume j: "j < length fs"
    have "(rx_cursor n + Suc j) mod 8 \<noteq> i"
      using mod8_neq [of "rx_cursor n" "Suc j" 0] j len by (auto simp: i_def)
    then show "let k = (rx_cursor ?n + j) mod 8; d = rx_ring ?n ! k in
        d_status d AND DESC_DD \<noteq> 0 \<and> fs ! j \<noteq> [] \<and> length (fs ! j) \<le> 4096 \<and>
        unat (d_length d) = length (fs ! j) \<and>
        load_bytes (fst (rx_bufs ?n ! k)) (length (fs ! j)) (ram ?s) = fs ! j"
      using pend [rule_format, of "Suc j"] j by (simp add: Let_def)
  next
    fix j
    assume j: "j < 8" "length fs \<le> j"
    show "d_status (rx_ring ?n ! ((rx_cursor ?n + j) mod 8)) AND DESC_DD = 0"
    proof (cases "j = 7")
      case True
      then have "(rx_cursor n + 1 + j) mod 8 = i"
        by (simp add: i_def)
      then show ?thesis
        using ok i8 by (simp add: nic_ok_def empty_desc_def)
    next
      case False
      then have "(rx_cursor n + Suc j) mod 8 \<noteq> i"
        using mod8_neq [of "rx_cursor n" "Suc j" 0] j by (auto simp: i_def)
      then show ?thesis
        using rest [rule_format, of "Suc j"] False j by simp
    qed
  qed
  ultimately show thesis
    using that [of ?s n i] n by (simp add: i_def)
qed

lemma rx_pending_push:
  assumes pend: "rx_pending s fs" and len: "length fs < 8" and f: "f \<noteq> []" "length f \<le> 4096"
    and n: "NIC s = Some n"
  shows "rx_pending (dma_receive ((rx_cursor n + length fs) mod 8) f s) (fs @ [f])"
proof -
  define i where "i = (rx_cursor n + length fs) mod 8"
  let ?n = "n\<lparr>rx_ring := (rx_ring n)[i := (rx_ring n ! i)\<lparr>d_length := word_of_nat (length f), d_status := DESC_DD\<rparr>]\<rparr>"
  let ?s = "dma_receive i f s"
  have i8: "i < 8"
    by (simp add: i_def)
  have ok: "nic_ok n"
    using pend n by (auto simp: rx_pending_def)
  have s: "NIC ?s = Some ?n" "ram ?s = store_bytes (fst (rx_bufs n ! i)) f (ram s)"
    by (simp_all add: dma_receive_def n)
  have other: "(rx_cursor n + j) mod 8 \<noteq> i" if "j < 8" "j \<noteq> length fs" for j
    using mod8_neq [of "rx_cursor n" j "length fs"] that len by (auto simp: i_def)
  have "rx_pending ?s (fs @ [f])"
    unfolding rx_pending_def
  proof (intro exI [of _ ?n] conjI allI impI)
    show "NIC ?s = Some ?n" "nic_ok ?n" "length (fs @ [f]) \<le> 8"
      using s ok len by (simp_all add: nic_ok_def)
  next
    fix j
    assume j: "j < length (fs @ [f])"
    let ?k = "(rx_cursor n + j) mod 8"
    have "d_status (rx_ring ?n ! ?k) AND DESC_DD \<noteq> 0 \<and> (fs @ [f]) ! j \<noteq> [] \<and> length ((fs @ [f]) ! j) \<le> 4096 \<and>
        unat (d_length (rx_ring ?n ! ?k)) = length ((fs @ [f]) ! j) \<and>
        load_bytes (fst (rx_bufs ?n ! ?k)) (length ((fs @ [f]) ! j)) (ram ?s) = (fs @ [f]) ! j"
    proof (cases "j = length fs")
      case True
      then have "?k = i"
        by (simp add: i_def)
      moreover have "unat (word_of_nat (length f) :: u16) = length f"
        using f(2) by (simp add: unat_of_nat)
      ultimately show ?thesis
        using True ok i8 f s load_store [of f] by (simp add: nic_ok_def DESC_DD_def)
    next
      case False
      then have j': "j < length fs"
        using j by simp
      then have "?k \<noteq> i" "?k < 8"
        using other len by auto
      then have "addrs (fst (rx_bufs n ! ?k)) (length (fs ! j)) \<inter> addrs (fst (rx_bufs n ! i)) (length f) = {}"
        if "length (fs ! j) \<le> 4096"
        using ok i8 addrs_mono [OF that] addrs_mono [OF f(2)] unfolding nic_ok_def by blast
      then show ?thesis
        using pend n j' \<open>?k \<noteq> i\<close> s by (auto simp: rx_pending_def Let_def nth_append load_store_other)
    qed
    then show "let k = (rx_cursor ?n + j) mod 8; d = rx_ring ?n ! k in
        d_status d AND DESC_DD \<noteq> 0 \<and> (fs @ [f]) ! j \<noteq> [] \<and> length ((fs @ [f]) ! j) \<le> 4096 \<and>
        unat (d_length d) = length ((fs @ [f]) ! j) \<and>
        load_bytes (fst (rx_bufs ?n ! k)) (length ((fs @ [f]) ! j)) (ram ?s) = (fs @ [f]) ! j"
      by (simp add: Let_def)
  next
    fix j
    assume "j < 8" "length (fs @ [f]) \<le> j"
    then show "d_status (rx_ring ?n ! ((rx_cursor ?n + j) mod 8)) AND DESC_DD = 0"
      using pend n other [of j] by (auto simp: rx_pending_def)
  qed
  then show ?thesis
    by (simp add: i_def)
qed

lemma nic_ok_tx:
  assumes "nic_ok n" and "k < 8" and "l \<le> 4096" and "m \<le> 4096"
  shows "addrs (fst (rx_bufs n ! k)) l \<inter> addrs (tx_buf n) m = {}"
  using assms(1,2) addrs_mono [OF assms(3)] addrs_mono [OF assms(4)] unfolding nic_ok_def by blast

lemma rx_pending_send:
  assumes "rx_pending s fs" and "e1000_send frame s = Some (r, s')" and "length frame \<le> 4096"
  shows "rx_pending s' fs"
proof -
  from assms(1) obtain n where n: "NIC s = Some n" "nic_ok n"
    by (auto simp: rx_pending_def)
  have "load_bytes (fst (rx_bufs n ! k)) l (store_bytes (tx_buf n) frame (ram s)) = load_bytes (fst (rx_bufs n ! k)) l (ram s)"
    if "k < 8" "l \<le> 4096" for k l
    using n(2) that assms(3) by (intro load_store_other nic_ok_tx)
  then show ?thesis
    using assms(1,2) n e1000_send_eq [OF n, of frame] nic_ok_send [OF n(2)]
    by (auto simp: rx_pending_def Let_def)
qed

section \<open>Properties\<close>

text \<open>C21. The receive ring is a first-in first-out queue of frames. Polling an empty ring returns
  nothing and changes nothing; polling a non-empty one returns exactly the bytes of the
  oldest frame and leaves the others queued; a frame the device receives into the next free
  descriptor joins the end of the queue; and transmitting does not disturb it.\<close>

theorem receive_ring_fifo:
  "(rx_pending s [] \<longrightarrow> poll_receive s = Some (None, s)) \<and>
   (rx_pending s (f # fs) \<longrightarrow> (\<exists>s'. poll_receive s = Some (Some f, s') \<and> rx_pending s' fs)) \<and>
   (rx_pending s fs \<and> length fs < 8 \<and> g \<noteq> [] \<and> length g \<le> 4096 \<and> NIC s = Some n \<longrightarrow>
      rx_pending (dma_receive ((rx_cursor n + length fs) mod 8) g s) (fs @ [g])) \<and>
   (rx_pending s fs \<and> length g \<le> 4096 \<longrightarrow>
      (\<exists>s'. e1000_send g s = Some (True, s') \<and> rx_pending s' fs))"
proof (intro conjI impI)
  assume "rx_pending s (f # fs)"
  then show "\<exists>s'. poll_receive s = Some (Some f, s') \<and> rx_pending s' fs"
    by (rule poll_receive_pop) blast
next
  assume s: "rx_pending s fs \<and> length g \<le> 4096"
  then obtain m where "NIC s = Some m" "nic_ok m"
    by (auto simp: rx_pending_def)
  from e1000_send_eq [OF this, of g] s show "\<exists>s'. e1000_send g s = Some (True, s') \<and> rx_pending s' fs"
    using rx_pending_send by blast
qed (use poll_receive_empty rx_pending_push in blast)+

definition demo_nic :: nic where
  "demo_nic = \<lparr>base = 0x10000, mac = (2, 0, 0, 0, 0, 1), rx_ring = map (\<lambda>i. empty_desc (word_of_nat i * 4096)) [1..<9],
     rx_bufs = map (\<lambda>i. (0x40000000 + word_of_nat i * 4096, word_of_nat i * 4096)) [1..<9], rx_cursor = 6,
     tx_ring = replicate 8 (empty_desc 0), tx_buf = 0x40000000, tx_buf_phys = 0, tx_cursor = 7,
     rx_ring_phys = 0x9000, tx_ring_phys = 0xa000\<rparr>"

definition demo_e1000 :: e1000 where
  "demo_e1000 = \<lparr>serial = [], FRAME_ALLOCATOR = bitmap_new, READY = True, PHYS_OFFSET = 0x40000000,
     page_table = Map.empty, heap_region = None, ram = (\<lambda>_. 0), io_log = [], NIC = Some demo_nic\<rparr>"

text \<open>Disjoint pages: frames at different multiples of 4096 below the end of managed memory, seen through
  any offset.\<close>

lemma pages_disjoint:
  assumes "p < 2 ^ 31" and "q < 2 ^ 31" and "p mod 4096 = 0" and "q mod 4096 = 0" and "p \<noteq> q"
  shows "addrs (off + word_of_nat p) 4096 \<inter> addrs (off + word_of_nat q) 4096 = {}"
proof (rule equals0I)
  fix x
  assume "x \<in> addrs (off + word_of_nat p) 4096 \<inter> addrs (off + word_of_nat q) 4096"
  then obtain i j where ij: "i < 4096" "j < 4096"
      "off + word_of_nat p + word_of_nat i = off + word_of_nat q + word_of_nat j"
    by (auto simp: addrs_def)
  then have eq: "(word_of_nat (p + i) :: u64) = word_of_nat (q + j)"
    by (simp add: add.assoc)
  have "unat (word_of_nat (p + i) :: u64) = p + i" "unat (word_of_nat (q + j) :: u64) = q + j"
    using assms(1,2) ij(1,2) by (simp_all add: unat_of_nat del: of_nat_add)
  with eq have "p + i = q + j"
    by simp
  then have "(p + i) div 4096 = (q + j) div 4096"
    by simp
  with ij(1,2) assms(3-5) show False
    by (auto simp: mod_eq_0_iff_dvd elim!: dvdE)
qed

lemma demo_nic_ok: "nic_ok demo_nic"
proof -
  have buf: "rx_bufs demo_nic ! i = (0x40000000 + word_of_nat ((i + 1) * 4096), word_of_nat ((i + 1) * 4096))" if "i < 8" for i
    using that by (simp add: demo_nic_def)
  have "addrs (fst (rx_bufs demo_nic ! i)) 4096 \<inter> addrs (fst (rx_bufs demo_nic ! j)) 4096 = {}"
    if "i < 8" "j < 8" "i \<noteq> j" for i j
    unfolding buf [OF that(1)] buf [OF that(2)] fst_conv
    by (rule pages_disjoint) (use that in auto)
  moreover have "addrs (fst (rx_bufs demo_nic ! i)) 4096 \<inter> addrs (tx_buf demo_nic) 4096 = {}" if "i < 8" for i
    using pages_disjoint [of "(i + 1) * 4096" 0 "0x40000000"] that
    unfolding buf [OF that] fst_conv by (simp add: demo_nic_def)
  ultimately show ?thesis
    by (simp add: nic_ok_def) (simp add: demo_nic_def)
qed

lemma demo_e1000_pending: "rx_pending demo_e1000 []"
proof -
  have "d_status (rx_ring demo_nic ! i) = 0" if "i < 8" for i
    using that by (simp add: demo_nic_def empty_desc_def)
  then show ?thesis
    by (auto simp: rx_pending_def demo_e1000_def demo_nic_ok)
qed

theorem receive_ring_fifo_witness:
  "\<exists>s1 s2. rx_pending (dma_receive 6 [1, 2, 3] demo_e1000) [[1, 2, 3]] \<and>
     poll_receive (dma_receive 6 [1, 2, 3] demo_e1000) = Some (Some [1, 2, 3], s1) \<and>
     poll_receive s1 = Some (None, s1) \<and> e1000_send [9] s1 = Some (True, s2)"
proof -
  have "NIC demo_e1000 = Some demo_nic" "rx_cursor demo_nic = 6"
    by (simp_all add: demo_e1000_def demo_nic_def)
  then have one: "rx_pending (dma_receive 6 [1, 2, 3] demo_e1000) [[1, 2, 3]]"
    using receive_ring_fifo [of demo_e1000 _ "[]" "[1, 2, 3]" demo_nic] demo_e1000_pending by simp
  then obtain s1 where s1: "poll_receive (dma_receive 6 [1, 2, 3] demo_e1000) = Some (Some [1, 2, 3], s1)" "rx_pending s1 []"
    using receive_ring_fifo [of "dma_receive 6 [1, 2, 3] demo_e1000" "[1, 2, 3]" "[]"] by blast
  then show ?thesis
    using one receive_ring_fifo [of s1 _ "[]" "[9]"] by auto
qed

text \<open>Sending a frame that fits the transmit buffer hands exactly that frame to the device: the descriptor at
  the cursor names the buffer, carries the frame's length and the command bits, the buffer
  holds the frame's bytes, nothing outside the buffer is written, and the last device access
  is the tail register with the next slot.\<close>

theorem send_hands_over_frame:
  assumes "NIC s = Some n" and "nic_ok n" and "length frame \<le> 4096"
  shows "\<exists>s' n'. e1000_send frame s = Some (True, s') \<and> NIC s' = Some n' \<and> nic_ok n' \<and>
    (let d = tx_ring n' ! (tx_cursor n mod 8) in
       d_addr d = tx_buf_phys n \<and> d_cmd d = TX_CMD \<and> d_status d = 0 \<and>
       load_bytes (tx_buf n) (unat (d_length d)) (ram s') = frame) \<and>
    (\<forall>a. a \<notin> addrs (tx_buf n) 4096 \<longrightarrow> ram s' a = ram s a) \<and>
    last (io_log s') = MmioWrite (base n + 0x3818) (word_of_nat ((tx_cursor n + 1) mod 8))"
proof -
  let ?n = "n\<lparr>tx_ring := (tx_ring n)[tx_cursor n mod 8 := tx_desc n frame], tx_cursor := tx_cursor n + 1\<rparr>"
  have "tx_ring ?n ! (tx_cursor n mod 8) = tx_desc n frame"
    using assms(2) by (simp add: nic_ok_def)
  moreover have "unat (word_of_nat (length frame) :: u16) = length frame"
    using assms(3) by (simp add: unat_of_nat)
  moreover have "store_bytes (tx_buf n) frame (ram s) a = ram s a" if "a \<notin> addrs (tx_buf n) 4096" for a
    using that addrs_mono [OF assms(3)] by (intro store_bytes_other) blast
  ultimately show ?thesis
    using e1000_send_eq [OF assms(1,2), of frame] nic_ok_send [OF assms(2)] assms(3)
    by (simp add: tx_desc_def load_store)
qed

theorem send_hands_over_frame_witness:
  "\<exists>s' n'. e1000_send [1, 2, 3, 4] demo_e1000 = Some (True, s') \<and> NIC s' = Some n' \<and>
     load_bytes (tx_buf demo_nic) (unat (d_length (tx_ring n' ! 7))) (ram s') = [1, 2, 3, 4]"
proof -
  have "NIC demo_e1000 = Some demo_nic" "tx_cursor demo_nic = 7"
    by (simp_all add: demo_e1000_def demo_nic_def)
  then show ?thesis
    using send_hands_over_frame [of demo_e1000 demo_nic "[1, 2, 3, 4]"] demo_nic_ok by (auto simp: Let_def)
qed

section \<open>Bring-up establishes the invariant\<close>

lemma println_fields [simp]:
  "NIC (println f a s) = NIC s" "ram (println f a s) = ram s" "io_log (println f a s) = io_log s"
  by (simp_all add: println_def print_def)

lemma alloc_page_spec:
  assumes "alloc_page z s = Some ((v, p), s')" and "pmm_inv (FRAME_ALLOCATOR s)"
  shows "p \<in> free_addrs (FRAME_ALLOCATOR s) \<and>
    free_addrs (FRAME_ALLOCATOR s') = free_addrs (FRAME_ALLOCATOR s) - {p} \<and> pmm_inv (FRAME_ALLOCATOR s') \<and>
    v = PHYS_OFFSET s + p \<and> PHYS_OFFSET s' = PHYS_OFFSET s"
proof -
  obtain r a where r: "allocate_frame (FRAME_ALLOCATOR s) = (r, a)"
    by (cases "allocate_frame (FRAME_ALLOCATOR s)")
  with assms(1) have "r = Some p" "FRAME_ALLOCATOR s' = a" "v = PHYS_OFFSET s + p" "PHYS_OFFSET s' = PHYS_OFFSET s"
    by (auto simp: alloc_page_def vmm_alloc_frame_def phys_offset_def checked_add_def bind_eq_Some_conv
        Let_def split: if_splits)
  with r pmm.allocate_Some [OF assms(2), of p a] show ?thesis
    by simp
qed

lemma alloc_pages_spec:
  assumes "alloc_pages k s = Some (ps, s')" and "pmm_inv (FRAME_ALLOCATOR s)"
  shows "length ps = k \<and> distinct (map snd ps) \<and> set (map snd ps) \<subseteq> free_addrs (FRAME_ALLOCATOR s) \<and>
    free_addrs (FRAME_ALLOCATOR s') = free_addrs (FRAME_ALLOCATOR s) - set (map snd ps) \<and>
    pmm_inv (FRAME_ALLOCATOR s') \<and> (\<forall>x\<in>set ps. fst x = PHYS_OFFSET s + snd x) \<and> PHYS_OFFSET s' = PHYS_OFFSET s"
  using assms
proof (induction k arbitrary: s ps)
  case (Suc k)
  then obtain v p s1 qs where *: "alloc_page False s = Some ((v, p), s1)" "alloc_pages k s1 = Some (qs, s')" "ps = (v, p) # qs"
    by (auto simp: bind_eq_Some_conv)
  from alloc_page_spec [OF *(1) Suc.prems(2)] Suc.IH [OF *(2)] *(3) show ?case
    by auto
qed simp

lemma map_mmio_pages_spec:
  assumes "map_mmio_pages map_to phys virt js s = Some s'" and "mapper_ok map_to" and "pmm_inv (FRAME_ALLOCATOR s)"
  shows "pmm_inv (FRAME_ALLOCATOR s') \<and> PHYS_OFFSET s' = PHYS_OFFSET s \<and>
    (\<forall>i\<in>set js. checked_add virt (word_of_nat i * 4096) \<noteq> None)"
  using assms
proof (induction js arbitrary: s)
  case (Cons i js)
  then obtain v t where v: "checked_add virt (word_of_nat i * 4096) = Some v" "translate (page_of v) s = Some t"
    by (auto simp: bind_eq_Some_conv)
  show ?case
  proof (cases t)
    case None
    with Cons.prems(1) v obtain p s1 where p: "map_page map_to (page_of v) (page_of p) mmio_flags s = Some (Inr (), s1)"
        "map_mmio_pages map_to phys virt js s1 = Some s'"
      by (auto simp: bind_eq_Some_conv split: sum.splits) (metis old.sum.exhaust old.unit.exhaust)
    then obtain pt a where "map_to (page_of v) (page_of p) mmio_flags (page_table s, FRAME_ALLOCATOR s) = (True, pt, a)"
        "s1 = s\<lparr>page_table := pt, FRAME_ALLOCATOR := a\<rparr>"
      by (auto simp: map_page_def bind_eq_Some_conv split: prod.splits if_splits)
    moreover from this(1) obtain m fs where "alloc_many allocate_frame m (FRAME_ALLOCATOR s) = (Some fs, a)"
      using Cons.prems(2,3) unfolding mapper_ok_def by blast
    ultimately have "pmm_inv (FRAME_ALLOCATOR s1)" "PHYS_OFFSET s1 = PHYS_OFFSET s"
      using pmm.alloc_many_Some [OF Cons.prems(3)] by auto
    with Cons.IH [OF p(2) Cons.prems(2)] v(1) show ?thesis
      by auto
  next
    case (Some f)
    with Cons v show ?thesis
      by auto
  qed
qed simp

lemma map_mmio_spec:
  assumes "map_mmio map_to bar 16 s = Some (v, s')" and "mapper_ok map_to" and "pmm_inv (FRAME_ALLOCATOR s)"
  shows "pmm_inv (FRAME_ALLOCATOR s') \<and> PHYS_OFFSET s' = PHYS_OFFSET s \<and> unat v + 0xf000 < 2 ^ 64"
proof -
  from assms(1) have "map_mmio_pages map_to bar v [0..<16] s = Some s'"
    by (auto simp: map_mmio_def bind_eq_Some_conv)
  note spec = map_mmio_pages_spec [OF this assms(2,3)]
  moreover have "15 \<in> set [0..<16 :: nat]"
    by simp
  ultimately have "checked_add v (word_of_nat 15 * 4096) \<noteq> None"
    by blast
  then have "unat v + 0xf000 < 2 ^ 64"
    by (simp add: checked_add_def split: if_splits)
  with spec show ?thesis
    by blast
qed

lemma free_addr_page: "p \<in> free_addrs a \<Longrightarrow> \<exists>f<262144. p = word_of_nat (f * 4096)"
  by (auto simp: free_addrs_def free_frames_def frame_addr_def NUM_FRAMES_def MAX_PHYS_def PAGE_SIZE_def)

lemma frames_disjoint:
  assumes "p \<in> free_addrs a" and "q \<in> free_addrs b" and "p \<noteq> q"
  shows "addrs (off + p) 4096 \<inter> addrs (off + q) 4096 = {}"
proof -
  obtain f g where f: "f < 262144" "p = word_of_nat (f * 4096)" and g: "g < 262144" "q = word_of_nat (g * 4096)"
    using free_addr_page assms(1,2) by blast
  with assms(3) show ?thesis
    unfolding f(2) g(2) by (intro pages_disjoint) auto
qed

lemma build_nic_ok:
  assumes "build_nic map_to bar s = Some (n, s')" and "mapper_ok map_to" and "pmm_inv (FRAME_ALLOCATOR s)"
  shows "nic_ok n"
proof -
  from assms(1) obtain b s1 rv rp s2 tv tp s3 bufs s4 tb tbp where
    b: "map_mmio map_to bar 16 s = Some (b, s1)" and r: "alloc_page True s1 = Some ((rv, rp), s2)"
    and t: "alloc_page True s2 = Some ((tv, tp), s3)" and bufs: "alloc_pages 8 s3 = Some (bufs, s4)"
    and x: "alloc_page True s4 = Some ((tb, tbp), s')"
    and n: "base n = b" "rx_ring n = map (\<lambda>(_, p). empty_desc p) bufs" "rx_bufs n = bufs"
      "tx_ring n = replicate 8 (empty_desc 0)" "tx_buf n = tb"
    by (auto simp: build_nic_def bind_eq_Some_conv NUM_RX_def NUM_TX_def)
  note mm = map_mmio_spec [OF b assms(2,3)]
  note r' = alloc_page_spec [OF r mm [THEN conjunct1]]
  note t' = alloc_page_spec [OF t r' [THEN conjunct2, THEN conjunct2, THEN conjunct1]]
  note b' = alloc_pages_spec [OF bufs t' [THEN conjunct2, THEN conjunct2, THEN conjunct1]]
  have x': "tbp \<in> free_addrs (FRAME_ALLOCATOR s4)" "tb = PHYS_OFFSET s4 + tbp"
    using alloc_page_spec [OF x] b' by auto
  have each: "fst (bufs ! i) = PHYS_OFFSET s3 + snd (bufs ! i)" "snd (bufs ! i) \<in> free_addrs (FRAME_ALLOCATOR s3)"
      "snd (bufs ! i) \<noteq> tbp" if "i < 8" for i
    using b' that x'(1) nth_mem [of i bufs] by auto
  have "snd (bufs ! i) \<noteq> snd (bufs ! j)" if "i < 8" "j < 8" "i \<noteq> j" for i j
    using b' that by (auto simp: distinct_conv_nth)
  then have "addrs (fst (bufs ! i)) 4096 \<inter> addrs (fst (bufs ! j)) 4096 = {}" if "i < 8" "j < 8" "i \<noteq> j" for i j
    using that each frames_disjoint by metis
  moreover have "addrs (fst (bufs ! i)) 4096 \<inter> addrs tb 4096 = {}" if "i < 8" for i
    using that each(1) [OF that] b' x'(2) frames_disjoint [OF each(2) [OF that] x'(1) each(3) [OF that]] by simp
  ultimately show ?thesis
    using mm b' by (simp add: nic_ok_def n)
qed

text \<open>Bring-up returns: no register access panics once the window does not wrap, and with enough free
  frames the pages can be had.\<close>

lemma read_reg_Some:
  assumes "unat (base n) + 0xf000 < 2 ^ 64" and "off < 0xf000"
  shows "\<exists>v s'. read_reg dev n off s = Some (v, s')"
proof -
  have "unat off < 0xf000"
    using assms(2) by (simp add: word_less_nat_alt)
  then have "unat (ucast off :: u64) < 0xf000"
    by (simp add: unsigned_ucast_eq take_bit_eq_mod)
  then show ?thesis
    using assms(1) by (simp add: read_reg_def checked_add_def Let_def)
qed

lemma await_reset_Some:
  assumes "unat (base n) + 0xf000 < 2 ^ 64"
  shows "\<exists>s'. await_reset dev n k s = Some s'"
proof (induction k arbitrary: s)
  case (Suc k)
  obtain v s1 where "read_reg dev n REG_CTRL s = Some (v, s1)"
    using read_reg_Some [OF assms, of REG_CTRL dev s] by (auto simp: REG_CTRL_def)
  with Suc show ?case
    by simp
qed simp

lemma clear_mta_Some:
  assumes "unat (base n) + 0xf000 < 2 ^ 64" and "set js \<subseteq> {..<128}"
  shows "\<exists>s'. clear_mta n js s = Some s'"
  using assms(2)
proof (induction js arbitrary: s)
  case (Cons i js)
  then have "REG_MTA + word_of_nat i * 4 < (0xf000 :: u32)"
    by (simp add: REG_MTA_def word_less_nat_alt unat_word_ariths unat_of_nat)
  with Cons show ?case
    by (simp add: write_reg_Some [OF assms(1)])
qed simp

lemma configure_NIC:
  assumes "configure dev map_to bar s = Some s'" and "build_nic map_to bar s = Some (n, s1)"
  shows "\<exists>m. NIC s' = Some (n\<lparr>mac := m\<rparr>)"
proof -
  have "\<exists>ral rah. NIC s' = Some (n\<lparr>mac := mac_of_regs ral rah\<rparr>)"
    using assms unfolding configure_def by (auto simp: bind_eq_Some_conv Let_def; blast)
  then show ?thesis
    by blast
qed

lemma configure_returns:
  assumes "build_nic map_to bar s = Some (n, s1)" and "unat (base n) + 0xf000 < 2 ^ 64"
  shows "configure dev map_to bar s \<noteq> None"
proof -
  have w: "write_reg m off v t \<noteq> None" if "off < 0xf000" "base m = base n" for m off v and t :: "'a e1000_scheme"
    using write_reg_Some [of m] that assms(2) by auto
  have r: "read_reg dev m off t \<noteq> None" if "off < 0xf000" "base m = base n" for m off and t :: "'a e1000_scheme"
    using read_reg_Some [of m off dev t] that assms(2) by auto
  have a: "await_reset dev n k t \<noteq> None" for k and t :: "'a e1000_scheme"
    using await_reset_Some [OF assms(2), of dev k t] by auto
  have c: "clear_mta (n\<lparr>mac := m\<rparr>) [0..<128] t \<noteq> None" for m and t :: "'a e1000_scheme"
    using clear_mta_Some [of "n\<lparr>mac := m\<rparr>" "[0..<128]" t] assms(2) by (auto simp: atLeast0LessThan)
  note regs = REG_CTRL_def REG_STATUS_def REG_IMC_def REG_ICR_def REG_RCTL_def REG_TCTL_def REG_RAL0_def REG_RAH0_def
    REG_RDBAL_def REG_RDBAH_def REG_RDLEN_def REG_RDH_def REG_RDT_def REG_TDBAL_def REG_TDBAH_def REG_TDLEN_def
    REG_TDH_def REG_TDT_def
  show ?thesis
    unfolding configure_def assms(1) Let_def
    by (simp only: bind.bind_lunit case_prod_conv bind_eq_None_conv case_prod_beta w r a c regs) (simp add: w r a c)
qed

lemma page_of_aligned: "page_of a - page_of a mod 4096 = page_of a"
proof -
  have "unat (page_of a) = unat a - unat a mod 4096"
    by (simp add: page_of_def unat_sub unat_mod word_le_nat_alt)
  then have "unat (page_of a mod 4096) = 0"
    by (simp add: unat_mod minus_mod_eq_mult_div)
  then have "page_of a mod 4096 = 0"
    by (simp only: unat_eq_0)
  then show ?thesis
    by simp
qed

definition frames_left :: "'a memory_scheme \<Rightarrow> nat" where
  "frames_left s = card (free_addrs (FRAME_ALLOCATOR s))"

lemma map_page_returns:
  assumes "mapper_ok map_to" and "pmm_inv (FRAME_ALLOCATOR s)" and "READY s" and "c + 3 \<le> frames_left s"
    and "page_table s p = None"
  shows "\<exists>s'. map_page map_to p f fl s = Some (Inr (), s') \<and> pmm_inv (FRAME_ALLOCATOR s') \<and> READY s' \<and>
    PHYS_OFFSET s' = PHYS_OFFSET s \<and> c \<le> frames_left s'"
proof -
  obtain ok pt a where mt: "map_to p f fl (page_table s, FRAME_ALLOCATOR s) = (ok, pt, a)"
    by (metis prod_cases3)
  from assms(1) [unfolded mapper_ok_def, rule_format, OF assms(2) mt] assms(4,5)
  obtain k fs where ok: ok and k: "k \<le> 3" and many: "alloc_many allocate_frame k (FRAME_ALLOCATOR s) = (Some fs, a)"
    by (auto simp: frames_left_def)
  note a = pmm.alloc_many_Some [OF assms(2) many]
  then have "card (free_addrs a) = frames_left s - k"
    using pmm.finite_free [OF assms(2)] by (simp add: frames_left_def card_Diff_subset distinct_card)
  then show ?thesis
    using mt ok a k assms(3,4)
    by (simp add: map_page_def active_mapper_def phys_offset_def frames_left_def)
qed

lemma map_mmio_pages_returns:
  assumes "mapper_ok map_to" and "pmm_inv (FRAME_ALLOCATOR s)" and "READY s" and "c + 3 * length js \<le> frames_left s"
    and "\<forall>i\<in>set js. checked_add virt (word_of_nat i * 4096) \<noteq> None \<and> checked_add phys (word_of_nat i * 4096) \<noteq> None"
  shows "\<exists>s'. map_mmio_pages map_to phys virt js s = Some s' \<and> pmm_inv (FRAME_ALLOCATOR s') \<and> READY s' \<and>
    PHYS_OFFSET s' = PHYS_OFFSET s \<and> c \<le> frames_left s'"
  using assms(2-)
proof (induction js arbitrary: s)
  case (Cons i js)
  from Cons.prems obtain v p where v: "checked_add virt (word_of_nat i * 4096) = Some v"
      "checked_add phys (word_of_nat i * 4096) = Some p"
    by auto
  have tr: "translate (page_of v) s = Some (map_option (\<lambda>(f, _). f + page_of v mod 4096) (page_table s (page_of v)))"
    using Cons.prems(2) by (simp add: translate_def active_mapper_def phys_offset_def page_of_aligned)
  show ?case
  proof (cases "page_table s (page_of v)")
    case None
    have "c + 3 * length js + 3 \<le> frames_left s"
      using Cons.prems(3) by simp
    from map_page_returns [OF assms(1) Cons.prems(1,2) this None, of "page_of p" mmio_flags] obtain s1 where s1:
      "map_page map_to (page_of v) (page_of p) mmio_flags s = Some (Inr (), s1)" "pmm_inv (FRAME_ALLOCATOR s1)" "READY s1"
      "PHYS_OFFSET s1 = PHYS_OFFSET s" "c + 3 * length js \<le> frames_left s1"
      by blast
    with Cons.IH [OF s1(2,3,5)] Cons.prems(4) v tr None show ?thesis
      by simp
  next
    case (Some e)
    with Cons.IH [OF Cons.prems(1,2)] Cons.prems(3,4) v tr show ?thesis
      by simp
  qed
qed simp

lemma alloc_page_returns:
  assumes "pmm_inv (FRAME_ALLOCATOR s)" and "READY s" and "Suc c \<le> frames_left s"
    and "unat (PHYS_OFFSET s) + 2 ^ 30 \<le> 2 ^ 64"
  shows "\<exists>v p s'. alloc_page z s = Some ((v, p), s') \<and> pmm_inv (FRAME_ALLOCATOR s') \<and> READY s' \<and>
    PHYS_OFFSET s' = PHYS_OFFSET s \<and> c \<le> frames_left s'"
proof -
  obtain r a where r: "allocate_frame (FRAME_ALLOCATOR s) = (r, a)"
    by (cases "allocate_frame (FRAME_ALLOCATOR s)")
  obtain p where p: "r = Some p"
    using r pmm.allocate_None [OF assms(1)] assms(3) by (cases r) (auto simp: frames_left_def)
  from pmm.allocate_Some [OF assms(1) r [unfolded p]] have a: "p \<in> free_addrs (FRAME_ALLOCATOR s)"
      "free_addrs a = free_addrs (FRAME_ALLOCATOR s) - {p}" "pmm_inv a"
    by auto
  then have "c \<le> card (free_addrs a)"
    using assms(3) pmm.finite_free [OF assms(1)] by (simp add: frames_left_def)
  moreover obtain f where f: "f < 262144" "p = word_of_nat (f * 4096)"
    using free_addr_page [OF a(1)] by blast
  then have "unat p < 2 ^ 30"
    by (simp add: unat_of_nat del: of_nat_mult)
  then have "checked_add (PHYS_OFFSET s) p = Some (PHYS_OFFSET s + p)"
    using assms(4) by (simp add: checked_add_def)
  ultimately show ?thesis
    using r p a(3) assms(2)
    by (simp add: alloc_page_def vmm_alloc_frame_def phys_offset_def Let_def frames_left_def)
qed

lemma alloc_pages_returns:
  assumes "pmm_inv (FRAME_ALLOCATOR s)" and "READY s" and "c + k \<le> frames_left s"
    and "unat (PHYS_OFFSET s) + 2 ^ 30 \<le> 2 ^ 64"
  shows "\<exists>ps s'. alloc_pages k s = Some (ps, s') \<and> pmm_inv (FRAME_ALLOCATOR s') \<and> READY s' \<and>
    PHYS_OFFSET s' = PHYS_OFFSET s \<and> c \<le> frames_left s'"
  using assms
proof (induction k arbitrary: s)
  case (Suc k)
  have "Suc (c + k) \<le> frames_left s"
    using Suc.prems(3) by simp
  from alloc_page_returns [OF Suc.prems(1,2) this Suc.prems(4), of False] obtain v p s1 where
    "alloc_page False s = Some ((v, p), s1)" "pmm_inv (FRAME_ALLOCATOR s1)" "READY s1"
    "PHYS_OFFSET s1 = PHYS_OFFSET s" "c + k \<le> frames_left s1"
    by blast
  with Suc.IH [of s1] Suc.prems(4) show ?case
    by fastforce
qed auto

lemma map_mmio_returns:
  assumes "mapper_ok map_to" and "pmm_inv (FRAME_ALLOCATOR s)" and "READY s" and "c + 48 \<le> frames_left s"
    and "unat (PHYS_OFFSET s) + unat bar + 0xf000 < 2 ^ 64"
  shows "\<exists>v s'. map_mmio map_to bar 16 s = Some (v, s') \<and> pmm_inv (FRAME_ALLOCATOR s') \<and> READY s' \<and>
    PHYS_OFFSET s' = PHYS_OFFSET s \<and> c \<le> frames_left s'"
proof -
  have v: "unat (PHYS_OFFSET s + bar) = unat (PHYS_OFFSET s) + unat bar"
    using assms(5) by (simp add: unat_word_ariths)
  have off: "unat (word_of_nat i * 4096 :: u64) \<le> 0xf000" if "i < 16" for i
    using that by (simp add: unat_word_ariths unat_of_nat)
  have "checked_add (PHYS_OFFSET s + bar) (word_of_nat i * 4096) \<noteq> None" "checked_add bar (word_of_nat i * 4096) \<noteq> None"
    if "i < 16" for i
    using off [OF that] assms(5) v by (simp_all add: checked_add_def)
  then have "\<forall>i\<in>set [0..<16]. checked_add (PHYS_OFFSET s + bar) (word_of_nat i * 4096) \<noteq> None \<and>
      checked_add bar (word_of_nat i * 4096) \<noteq> None"
    by simp
  from map_mmio_pages_returns [OF assms(1-3) _ this, of c] obtain s' where
    "map_mmio_pages map_to bar (PHYS_OFFSET s + bar) [0..<16] s = Some s'" "pmm_inv (FRAME_ALLOCATOR s')" "READY s'"
    "PHYS_OFFSET s' = PHYS_OFFSET s" "c \<le> frames_left s'"
    using assms(4) by auto
  moreover have "checked_add (PHYS_OFFSET s) bar = Some (PHYS_OFFSET s + bar)"
    using assms(5) by (simp add: checked_add_def)
  ultimately show ?thesis
    using assms(3) by (simp add: map_mmio_def phys_offset_def)
qed

lemma build_nic_returns:
  assumes "mapper_ok map_to" and "pmm_inv (FRAME_ALLOCATOR s)" and "READY s" and "59 \<le> frames_left s"
    and "unat (PHYS_OFFSET s) + unat bar + 0xf000 < 2 ^ 64" and "unat (PHYS_OFFSET s) + 2 ^ 30 \<le> 2 ^ 64"
  shows "\<exists>n s'. build_nic map_to bar s = Some (n, s')"
proof -
  obtain b s1 where 1: "map_mmio map_to bar 16 s = Some (b, s1)" "pmm_inv (FRAME_ALLOCATOR s1)" "READY s1"
      "PHYS_OFFSET s1 = PHYS_OFFSET s" "11 \<le> frames_left s1"
    using map_mmio_returns [OF assms(1-3) _ assms(5), of 11] assms(4) by auto
  obtain rv rp s2 where 2: "alloc_page True s1 = Some ((rv, rp), s2)" "pmm_inv (FRAME_ALLOCATOR s2)" "READY s2"
      "PHYS_OFFSET s2 = PHYS_OFFSET s" "10 \<le> frames_left s2"
    using alloc_page_returns [OF 1(2,3), of 10 True] 1(4,5) assms(6) by auto
  obtain tv tp s3 where 3: "alloc_page True s2 = Some ((tv, tp), s3)" "pmm_inv (FRAME_ALLOCATOR s3)" "READY s3"
      "PHYS_OFFSET s3 = PHYS_OFFSET s" "9 \<le> frames_left s3"
    using alloc_page_returns [OF 2(2,3), of 9 True] 2(4,5) assms(6) by auto
  obtain ps s4 where 4: "alloc_pages 8 s3 = Some (ps, s4)" "pmm_inv (FRAME_ALLOCATOR s4)" "READY s4"
      "PHYS_OFFSET s4 = PHYS_OFFSET s" "1 \<le> frames_left s4"
    using alloc_pages_returns [OF 3(2,3), of 1 8] 3(4,5) assms(6) by auto
  obtain xv xp s5 where 5: "alloc_page True s4 = Some ((xv, xp), s5)"
    using alloc_page_returns [OF 4(2,3), of 0 True] 4(4,5) assms(6) by auto
  show ?thesis
    using 1(1) 2(1) 3(1) 4(1) 5 by (simp add: build_nic_def NUM_RX_def)
qed


definition boot_e1000 :: e1000 where
  "boot_e1000 = \<lparr>serial = [], FRAME_ALLOCATOR = ram_16m, READY = True, PHYS_OFFSET = 0xffff800000000000,
     page_table = Map.empty, heap_region = None, ram = (\<lambda>_. 0), io_log = [], NIC = None\<rparr>"


end
