(* ===== verification/Fs_Error.thy ===== *)
theory Fs_Error
  imports Prelude
begin

text \<open>
  The errors of the file layer (\<open>fs/vfs.rs\<close>), shared by file systems, sockets and system calls,
  and decimal rendering of numbers as \<open>format!\<close> produces it.
\<close>

datatype fs_error = NotFound | PermissionDenied | NotDir | IsDir | InvalidArg | NoSpace | Io

type_synonym 'a fs_result = "fs_error + 'a"

fun errno :: "fs_error \<Rightarrow> int" where
  "errno Io = -5"
| "errno NotFound = -2"
| "errno PermissionDenied = -13"
| "errno NotDir = -20"
| "errno IsDir = -21"
| "errno InvalidArg = -22"
| "errno NoSpace = -28"

datatype file_kind = File | Dir | CharDev

lemma errno_inj: "errno a = errno b \<longleftrightarrow> a = b"
  by (cases a; cases b) simp_all

lemma errno_negative: "errno e < 0"
  by (cases e) simp_all

section \<open>Decimal rendering\<close>

fun dec :: "nat \<Rightarrow> byte list" where
  "dec n = (if n < 10 then [word_of_nat (48 + n)] else dec (n div 10) @ [word_of_nat (48 + n mod 10)])"

declare dec.simps [simp del]

text \<open>Reading a decimal numeral back.\<close>

definition undec :: "byte list \<Rightarrow> nat" where
  "undec bs = foldl (\<lambda>a b. a * 10 + (unat b - 48)) 0 bs"

lemma undec_snoc: "undec (bs @ [b]) = undec bs * 10 + (unat b - 48)"
  by (simp add: undec_def)

lemma undec_dec: "undec (dec n) = n"
proof (induction n rule: dec.induct)
  case (1 n)
  show ?case
  proof (cases "n < 10")
    case True
    have "undec (dec n) = unat (word_of_nat (48 + n) :: byte) - 48"
      using True by (simp only: dec.simps [of n] if_True) (simp add: undec_def del: of_nat_add)
    then show ?thesis
      using True by (simp del: of_nat_add)
  next
    case False
    then have "undec (dec n) = n div 10 * 10 + (unat (word_of_nat (48 + n mod 10) :: byte) - 48)"
      using 1 [OF False] by (simp only: dec.simps [of n] if_False undec_snoc)
    then show ?thesis
      by (simp del: of_nat_add)
  qed
qed

lemma dec_ne: "dec n \<noteq> []"
  by (simp add: dec.simps [of n])

lemma dec_digits: "b \<in> set (dec n) \<Longrightarrow> 48 \<le> unat b \<and> unat b \<le> 57"
proof (induction n rule: dec.induct)
  case (1 n)
  show ?case
  proof (cases "n < 10")
    case True
    then have "unat b = 48 + n"
      using 1(2) by (simp add: dec.simps [of n] del: of_nat_add)
    with True show ?thesis by simp
  next
    case False
    then have "b \<in> set (dec (n div 10)) \<or> b = word_of_nat (48 + n mod 10)"
      using 1(2) by (auto simp: dec.simps [of n])
    then show ?thesis
    proof
      assume "b = word_of_nat (48 + n mod 10)"
      then have "unat b = 48 + n mod 10"
        by (simp del: of_nat_add)
      then show ?thesis by simp
    qed (rule 1(1) [OF False])
  qed
qed

end
