(* ===== verification/Net.thy ===== *)
theory Net
  imports E1000 Checksum Fs_Error "HOL-Library.Product_Lexorder"
begin

unbundle bit_operations_syntax

text \<open>
  The network stack (\<open>net/*.rs\<close>) on top of the driver: Ethernet framing and dispatch, ARP with
  its cache, IPv4, ICMP echo, UDP, the TCP handshake step, the socket table and the receive
  pump. Incoming frames are decoded bottom-up by one function per layer, outgoing packets are
  built top-down. \<open>None\<close> is a panic: a slice out of range or an arithmetic overflow.

  The ARP cache is a \<open>BTreeMap\<close>, here an association list kept sorted by key. Addresses are
  tuples of bytes, so their length is part of the type as in the source.
\<close>

section \<open>State\<close>

record socket =
  s_proto :: byte
  local_port :: u16
  peer :: "(ipv4 \<times> u16) option"
  rx :: "(ipv4 \<times> u16 \<times> byte list) list"

record net = e1000 +
  CACHE :: "(ipv4 \<times> mac_addr) list"
  SOCKETS :: "socket option list"

fun btree_insert :: "'k::linorder \<Rightarrow> 'v \<Rightarrow> ('k \<times> 'v) list \<Rightarrow> ('k \<times> 'v) list" where
  "btree_insert k v [] = [(k, v)]"
| "btree_insert k v ((k', v') # m) =
     (if k = k' then (k, v) # m
      else if k < k' then (k, v) # (k', v') # m
      else (k', v') # btree_insert k v m)"

definition ip_bytes :: "ipv4 \<Rightarrow> byte list" where
  "ip_bytes i = (case i of (a, b, c, d) \<Rightarrow> [a, b, c, d])"

definition ip_at :: "nat \<Rightarrow> byte list \<Rightarrow> ipv4" where
  "ip_at i p = (p ! i, p ! (i + 1), p ! (i + 2), p ! (i + 3))"

definition ip_args :: "ipv4 \<Rightarrow> fmt_arg list" where
  "ip_args i = byte_args (ip_bytes i)"

section \<open>Ethernet\<close>

definition BROADCAST :: mac_addr where
  "BROADCAST = (0xff, 0xff, 0xff, 0xff, 0xff, 0xff)"

definition hex_digit :: "byte \<Rightarrow> byte" where
  "hex_digit d = str ''0123456789abcdef'' ! unat d"

definition mac_fmt :: "mac_addr \<Rightarrow> byte list" where
  "mac_fmt m =
     concat (map (\<lambda>(i, b). (if i > 0 then str '':'' else []) @ [hex_digit (drop_bit 4 b), hex_digit (b AND 0xf)])
       (enumerate 0 (mac_bytes m)))"

definition ETHERTYPE_ARP :: u16 where "ETHERTYPE_ARP = 0x0806"
definition ETHERTYPE_IP :: u16 where "ETHERTYPE_IP = 0x0800"
definition ETH_HEADER_LEN :: nat where "ETH_HEADER_LEN = 14"

definition eth_frame :: "mac_addr \<Rightarrow> mac_addr \<Rightarrow> u16 \<Rightarrow> byte list \<Rightarrow> byte list" where
  "eth_frame dst src ethertype payload = mac_bytes dst @ mac_bytes src @ be16 ethertype @ payload"

definition our_mac :: "'a net_scheme \<Rightarrow> mac_addr" where
  "our_mac s = (case mac_address s of Some m \<Rightarrow> m | None \<Rightarrow> (0, 0, 0, 0, 0, 0))"

definition transmit_ethernet ::
  "mac_addr \<Rightarrow> u16 \<Rightarrow> byte list \<Rightarrow> 'a net_scheme \<Rightarrow> (bool \<times> 'a net_scheme) option" where
  "transmit_ethernet dst ethertype payload s = e1000_send (eth_frame dst (our_mac s) ethertype payload) s"

section \<open>ARP\<close>

definition HTYPE_ETH :: u16 where "HTYPE_ETH = 1"
definition PTYPE_IP :: u16 where "PTYPE_IP = 0x0800"
definition OP_REQUEST :: u16 where "OP_REQUEST = 1"
definition OP_REPLY :: u16 where "OP_REPLY = 2"

definition arp_init :: "'a net_scheme \<Rightarrow> 'a net_scheme" where
  "arp_init s = s\<lparr>CACHE := []\<rparr>"

definition remember :: "ipv4 \<Rightarrow> mac_addr \<Rightarrow> 'a net_scheme \<Rightarrow> 'a net_scheme" where
  "remember ip m s = s\<lparr>CACHE := btree_insert ip m (CACHE s)\<rparr>"

definition arp_lookup :: "ipv4 \<Rightarrow> 'a net_scheme \<Rightarrow> mac_addr option" where
  "arp_lookup ip s = map_of (CACHE s) ip"

definition arp_table :: "'a net_scheme \<Rightarrow> (ipv4 \<times> mac_addr) list" where
  "arp_table s = CACHE s"

definition arp_payload :: "u16 \<Rightarrow> mac_addr \<Rightarrow> ipv4 \<Rightarrow> mac_addr \<Rightarrow> ipv4 \<Rightarrow> byte list" where
  "arp_payload oper sha spa tha tpa =
     be16 HTYPE_ETH @ be16 PTYPE_IP @ [6, 4] @ be16 oper @ mac_bytes sha @ ip_bytes spa @ mac_bytes tha @ ip_bytes tpa"

definition arp_request :: "ipv4 \<Rightarrow> 'a net_scheme \<Rightarrow> 'a net_scheme option" where
  "arp_request target s = do {
     let pkt = arp_payload OP_REQUEST (our_mac s) IP (0, 0, 0, 0, 0, 0) target;
     (_, s) \<leftarrow> transmit_ethernet BROADCAST ETHERTYPE_ARP pkt s;
     Some (println ''[arp] who-has {}.{}.{}.{} tell {}.{}.{}.{}'' (ip_args target @ ip_args IP) s)
   }"

definition mac_at :: "nat \<Rightarrow> byte list \<Rightarrow> mac_addr" where
  "mac_at i p = (p ! i, p ! (i + 1), p ! (i + 2), p ! (i + 3), p ! (i + 4), p ! (i + 5))"

definition arp_handle :: "byte list \<Rightarrow> 'a net_scheme \<Rightarrow> 'a net_scheme option" where
  "arp_handle arp s =
     (if length arp < 28 then Some s
      else do {
        let oper = from_be16 [arp ! 6, arp ! 7];
        let sha = mac_at 8 arp;
        let spa = ip_at 14 arp;
        let tpa = ip_at 24 arp;
        let s = remember spa sha s;
        let s = println ''[arp] learned {}.{}.{}.{} -> {}'' (ip_args spa @ [AStr (mac_fmt sha)]) s;
        if oper = OP_REQUEST \<and> tpa = IP then do {
          let pkt = arp_payload OP_REPLY (our_mac s) IP sha spa;
          (_, s) \<leftarrow> transmit_ethernet sha ETHERTYPE_ARP pkt s;
          Some (println ''[arp] reply {}.{}.{}.{} is at {}'' (ip_args IP @ [AStr (mac_fmt (our_mac s))]) s)
        } else Some s
      })"

definition next_hop_mac :: "ipv4 \<Rightarrow> 'a net_scheme \<Rightarrow> mac_addr" where
  "next_hop_mac dst s =
     (case arp_lookup dst s of
        Some m \<Rightarrow> m
      | None \<Rightarrow> (case arp_lookup GATEWAY s of Some m \<Rightarrow> m | None \<Rightarrow> BROADCAST))"

definition arp_demo :: "'a net_scheme \<Rightarrow> 'a net_scheme option" where
  "arp_demo s = do {
     let s = println ''[arp] -- demo --'' [] s;
     let reply = arp_payload OP_REPLY (0x52, 0x54, 0x00, 0x12, 0x34, 0x02) GATEWAY (our_mac s) IP;
     s \<leftarrow> arp_handle reply s;
     Some (case arp_lookup GATEWAY s of
       Some m \<Rightarrow> println ''[arp] gateway resolved to {} (cache size {})''
         [AStr (mac_fmt m), ANum (length (arp_table s))] s
     | None \<Rightarrow> println ''[arp] gateway unresolved'' [] s)
   }"

section \<open>IPv4: building and sending\<close>

definition PROTO_ICMP :: byte where "PROTO_ICMP = 1"
definition PROTO_TCP :: byte where "PROTO_TCP = 6"
definition PROTO_UDP :: byte where "PROTO_UDP = 17"
definition IHL :: byte where "IHL = 5"
definition IP_HEADER_LEN :: nat where "IP_HEADER_LEN = 20"

definition ip_header :: "byte \<Rightarrow> ipv4 \<Rightarrow> ipv4 \<Rightarrow> u16 \<Rightarrow> byte list option" where
  "ip_header proto src dst tot = do {
     let h = [push_bit 4 4 OR IHL, 0] @ be16 tot @ be16 1 @ be16 0x4000 @ [64, proto] @ [0, 0]
               @ ip_bytes src @ ip_bytes dst;
     cks \<leftarrow> checksum h;
     copy_at 10 (be16 cks) h
   }"

definition ip_send :: "ipv4 \<Rightarrow> byte \<Rightarrow> byte list \<Rightarrow> 'a net_scheme \<Rightarrow> (bool \<times> 'a net_scheme) option" where
  "ip_send dst proto payload s = do {
     let tot = (word_of_nat (IP_HEADER_LEN + length payload) :: u16);
     h \<leftarrow> ip_header proto IP dst tot;
     transmit_ethernet (next_hop_mac dst s) ETHERTYPE_IP (h @ payload) s
   }"

definition ip_fmt :: "ipv4 \<Rightarrow> byte list" where
  "ip_fmt i = (case i of (a, b, c, d) \<Rightarrow>
     dec (unat a) @ str ''.'' @ dec (unat b) @ str ''.'' @ dec (unat c) @ str ''.'' @ dec (unat d))"

section \<open>ICMP\<close>

definition ECHO_REPLY :: byte where "ECHO_REPLY = 0"
definition ECHO_REQUEST :: byte where "ECHO_REQUEST = 8"

definition echo_request :: "u16 \<Rightarrow> u16 \<Rightarrow> byte list \<Rightarrow> byte list option" where
  "echo_request ident sq payload = do {
     let m = [ECHO_REQUEST, 0] @ be16 0 @ be16 ident @ be16 sq @ payload;
     cks \<leftarrow> checksum m;
     copy_at 2 (be16 cks) m
   }"

definition echo_reply :: "byte list \<Rightarrow> byte list option" where
  "echo_reply req = do {
     m \<leftarrow> put 0 ECHO_REPLY req;
     m \<leftarrow> put 1 0 m;
     m \<leftarrow> put 2 0 m;
     m \<leftarrow> put 3 0 m;
     cks \<leftarrow> checksum m;
     copy_at 2 (be16 cks) m
   }"

definition icmp_handle :: "ipv4 \<Rightarrow> byte list \<Rightarrow> 'a net_scheme \<Rightarrow> 'a net_scheme option" where
  "icmp_handle src msg s =
     (if length msg < 8 then Some s
      else if msg ! 0 = ECHO_REQUEST then do {
        let s = println ''[icmp] echo request from {}.{}.{}.{} ({} data bytes) -> reply''
                  (ip_args src @ [ANum (length msg - 8)]) s;
        reply \<leftarrow> echo_reply msg;
        (_, s) \<leftarrow> ip_send src PROTO_ICMP reply s;
        Some s
      }
      else if msg ! 0 = ECHO_REPLY then
        let ident = from_be16 [msg ! 4, msg ! 5]; sq = from_be16 [msg ! 6, msg ! 7]
        in Some (println ''[icmp] echo reply from {}.{}.{}.{} id={:#x} seq={}''
             (ip_args src @ [ANum (unat ident), ANum (unat sq)]) s)
      else Some (println ''[icmp] unhandled type {}'' [ANum (unat (msg ! 0))] s))"

definition ping :: "ipv4 \<Rightarrow> u16 \<Rightarrow> 'a net_scheme \<Rightarrow> 'a net_scheme option" where
  "ping dst sq s = do {
     req \<leftarrow> echo_request 0x5f sq (str ''simplelinux-ping'');
     let s = println ''[icmp] ping {}.{}.{}.{} seq={} ({} bytes)''
               (ip_args dst @ [ANum (unat sq), ANum (length req)]) s;
     (_, s) \<leftarrow> ip_send dst PROTO_ICMP req s;
     Some s
   }"

definition icmp_demo :: "'a net_scheme \<Rightarrow> 'a net_scheme option" where
  "icmp_demo s = do {
     let s = println ''[icmp] -- demo --'' [] s;
     req \<leftarrow> echo_request 7 1 (str ''hi'');
     c \<leftarrow> checksum req;
     let s = println ''[icmp] echo request checksum ok = {}'' [ABool (c = 0)] s;
     reply \<leftarrow> echo_reply req;
     c \<leftarrow> checksum reply;
     t \<leftarrow> get_at reply 0;
     let s = println ''[icmp] built reply type={} checksum ok = {}'' [ANum (unat t), ABool (c = 0)] s;
     let s = println ''[icmp] handling a fabricated echo request from the gateway:'' [] s;
     icmp_handle GATEWAY req s
   }"

section \<open>Sockets\<close>

definition socket_init :: "'a net_scheme \<Rightarrow> 'a net_scheme" where
  "socket_init s = s\<lparr>SOCKETS := []\<rparr>"

definition net_init :: "'a net_scheme \<Rightarrow> 'a net_scheme" where
  "net_init s = println ''[net] stack up: ip={}.{}.{}.{} gw={}.{}.{}.{}'' (ip_args IP @ ip_args GATEWAY)
     (socket_init (arp_init s))"

definition socket_new :: "byte \<Rightarrow> 'a net_scheme \<Rightarrow> nat \<times> 'a net_scheme" where
  "socket_new proto s =
     (let (t, i) = place \<lparr>s_proto = proto, local_port = 0, peer = None, rx = []\<rparr> (SOCKETS s)
      in (i, s\<lparr>SOCKETS := t\<rparr>))"

definition update_slot :: "nat \<Rightarrow> ('x \<Rightarrow> 'x) \<Rightarrow> 'x option list \<Rightarrow> 'x option list" where
  "update_slot i f t = (if i < length t then t[i := map_option f (t ! i)] else t)"

definition sock_bind :: "nat \<Rightarrow> u16 \<Rightarrow> 'a net_scheme \<Rightarrow> bool \<times> 'a net_scheme" where
  "sock_bind i port s =
     (case slot (SOCKETS s) i of
        Some _ \<Rightarrow> (True, s\<lparr>SOCKETS := update_slot i (\<lambda>x. x\<lparr>local_port := port\<rparr>) (SOCKETS s)\<rparr>)
      | None \<Rightarrow> (False, s))"

definition sock_connect :: "nat \<Rightarrow> ipv4 \<Rightarrow> u16 \<Rightarrow> 'a net_scheme \<Rightarrow> bool \<times> 'a net_scheme" where
  "sock_connect i ip port s =
     (case slot (SOCKETS s) i of
        Some _ \<Rightarrow> (True, s\<lparr>SOCKETS := update_slot i (\<lambda>x. x\<lparr>peer := Some (ip, port)\<rparr>) (SOCKETS s)\<rparr>)
      | None \<Rightarrow> (False, s))"

definition sock_close :: "nat \<Rightarrow> 'a net_scheme \<Rightarrow> 'a net_scheme" where
  "sock_close i s =
     (if i < length (SOCKETS s) then s\<lparr>SOCKETS := (SOCKETS s)[i := None]\<rparr> else s)"

text \<open>\<open>recvfrom\<close> with a buffer of \<open>cap\<close> bytes: the bytes copied into it, and the sender.\<close>

definition recvfrom :: "nat \<Rightarrow> nat \<Rightarrow> 'a net_scheme \<Rightarrow> (byte list \<times> ipv4 \<times> u16) option \<times> 'a net_scheme" where
  "recvfrom i cap s =
     (case slot (SOCKETS s) i of
        None \<Rightarrow> (None, s)
      | Some x \<Rightarrow>
          (case rx x of
             [] \<Rightarrow> (None, s)
           | (src, sport, data) # q \<Rightarrow>
               (Some (take (min cap (length data)) data, src, sport),
                s\<lparr>SOCKETS := update_slot i (\<lambda>x. x\<lparr>rx := q\<rparr>) (SOCKETS s)\<rparr>)))"

definition is_bound :: "u16 \<Rightarrow> socket option \<Rightarrow> bool" where
  "is_bound dport sl = (case sl of Some x \<Rightarrow> s_proto x = PROTO_UDP \<and> local_port x = dport | None \<Rightarrow> False)"

definition enqueue :: "ipv4 \<Rightarrow> u16 \<Rightarrow> byte list \<Rightarrow> socket \<Rightarrow> socket" where
  "enqueue src sport data x = x\<lparr>rx := rx x @ [(src, sport, data)]\<rparr>"

definition deliver :: "u16 \<Rightarrow> ipv4 \<Rightarrow> u16 \<Rightarrow> byte list \<Rightarrow> 'a net_scheme \<Rightarrow> 'a net_scheme" where
  "deliver dport src sport data s =
     (let delivered = length (filter (is_bound dport) (SOCKETS s));
          s = s\<lparr>SOCKETS := map (\<lambda>sl. if is_bound dport sl then map_option (enqueue src sport data) sl else sl) (SOCKETS s)\<rparr>
      in if delivered > 0
         then println ''[sock] delivered {} bytes to {} socket(s) on :{}''
                [ANum (length data), ANum delivered, ANum (unat dport)] s
         else s)"

definition sock_info :: "'a net_scheme \<Rightarrow> (nat \<times> byte \<times> u16 \<times> (ipv4 \<times> u16) option \<times> nat) list" where
  "sock_info s =
     List.map_filter (\<lambda>(i, sl). map_option (\<lambda>x. (i, s_proto x, local_port x, peer x, length (rx x))) sl)
       (enumerate 0 (SOCKETS s))"

section \<open>UDP\<close>

definition UDP_HEADER_LEN :: nat where "UDP_HEADER_LEN = 8"

definition udp_pseudo :: "byte \<Rightarrow> ipv4 \<Rightarrow> u16 \<Rightarrow> byte list \<Rightarrow> byte list" where
  "udp_pseudo proto dst tot d = ip_bytes IP @ ip_bytes dst @ [0, proto] @ be16 tot @ d"

definition udp_datagram :: "u16 \<Rightarrow> ipv4 \<Rightarrow> u16 \<Rightarrow> byte list \<Rightarrow> byte list option" where
  "udp_datagram src_port dst dst_port data = do {
     let tot = (word_of_nat (UDP_HEADER_LEN + length data) :: u16);
     let d = be16 src_port @ be16 dst_port @ be16 tot @ be16 0 @ data;
     cks \<leftarrow> checksum (udp_pseudo PROTO_UDP dst tot d);
     copy_at 6 (be16 cks) d
   }"

definition udp_send ::
  "u16 \<Rightarrow> ipv4 \<Rightarrow> u16 \<Rightarrow> byte list \<Rightarrow> 'a net_scheme \<Rightarrow> (bool \<times> 'a net_scheme) option" where
  "udp_send src_port dst dst_port data s = do {
     d \<leftarrow> udp_datagram src_port dst dst_port data;
     ip_send dst PROTO_UDP d s
   }"

definition udp_handle :: "ipv4 \<Rightarrow> byte list \<Rightarrow> 'a net_scheme \<Rightarrow> 'a net_scheme option" where
  "udp_handle src d s =
     (if length d < UDP_HEADER_LEN then Some s
      else do {
        let sport = from_be16 [d ! 0, d ! 1];
        let dport = from_be16 [d ! 2, d ! 3];
        let len = unat (from_be16 [d ! 4, d ! 5]);
        payload \<leftarrow> slice UDP_HEADER_LEN (min (max len UDP_HEADER_LEN) (length d)) d;
        let s = println ''[udp] {}.{}.{}.{}:{} -> :{} ({} bytes)''
                  (ip_args src @ [ANum (unat sport), ANum (unat dport), ANum (length payload)]) s;
        Some (deliver dport src sport payload s)
      })"

definition sendto :: "nat \<Rightarrow> ipv4 \<Rightarrow> u16 \<Rightarrow> byte list \<Rightarrow> 'a net_scheme \<Rightarrow> (nat fs_result \<times> 'a net_scheme) option" where
  "sendto i dst port data s =
     (let proto = (case slot (SOCKETS s) i of Some x \<Rightarrow> s_proto x | None \<Rightarrow> 0) in
      if proto \<noteq> PROTO_UDP then Some (Inl InvalidArg, s)
      else do {
        let sport = (case slot (SOCKETS s) i of Some x \<Rightarrow> local_port x | None \<Rightarrow> 0);
        (ok, s) \<leftarrow> udp_send sport dst port data s;
        Some (if ok then Inr (length data) else Inl Io, s)
      })"

definition udp_demo :: "'a net_scheme \<Rightarrow> 'a net_scheme option" where
  "udp_demo s = do {
     let s = println ''[udp] -- demo --'' [] s;
     let (sock, s) = socket_new PROTO_UDP s;
     let (_, s) = sock_bind sock 9999 s;
     let msg = str ''hello over udp'';
     let seg = be16 7 @ be16 9999 @ be16 (word_of_nat (UDP_HEADER_LEN + length msg)) @ be16 0 @ msg;
     s \<leftarrow> udp_handle GATEWAY seg s;
     let (r, s) = recvfrom sock 64 s;
     let s = (case r of
       Some (bs, from, fport) \<Rightarrow> println (''[udp] socket {} recv {} bytes from {}.{}.{}.{}:{}: '{}'' @ [CHR 0x27])
         ([ANum sock, ANum (length bs)] @ ip_args from @ [ANum (unat fport), AStr bs]) s
     | None \<Rightarrow> println ''[udp] socket {} got nothing'' [ANum sock] s);
     Some (sock_close sock s)
   }"

section \<open>TCP\<close>

definition MSS :: nat where "MSS = 536"
definition TCP_HEADER_LEN :: nat where "TCP_HEADER_LEN = 20"
definition FIN :: u16 where "FIN = 0x01"
definition SYN :: u16 where "SYN = 0x02"
definition RST :: u16 where "RST = 0x04"
definition ACK :: u16 where "ACK = 0x10"

datatype tcp_state = Closed | Listen | SynSent | SynReceived | Established | FinWait1 | FinWait2
  | CloseWait | LastAck | TimeWait

definition flag_names :: "u16 \<Rightarrow> string" where
  "flag_names f =
     (case (f AND SYN \<noteq> 0, f AND ACK \<noteq> 0, f AND FIN \<noteq> 0, f AND RST \<noteq> 0) of
        (True, False, False, False) \<Rightarrow> ''SYN''
      | (True, True, False, False) \<Rightarrow> ''SYN-ACK''
      | (False, True, False, False) \<Rightarrow> ''ACK''
      | (False, True, True, False) \<Rightarrow> ''FIN-ACK''
      | (False, False, False, True) \<Rightarrow> ''RST''
      | _ \<Rightarrow> ''?'')"

definition tcp_segment ::
  "u16 \<Rightarrow> u16 \<Rightarrow> u32 \<Rightarrow> u32 \<Rightarrow> u16 \<Rightarrow> byte list \<Rightarrow> ipv4 \<Rightarrow> byte list option" where
  "tcp_segment sport dport sq ack flags payload dst = do {
     let t = be16 sport @ be16 dport @ be32 sq @ be32 ack
               @ be16 (push_bit 12 (word_of_nat (TCP_HEADER_LEN div 4)) OR flags)
               @ be16 536 @ be16 0 @ be16 0 @ payload;
     cks \<leftarrow> checksum (udp_pseudo PROTO_TCP dst (word_of_nat (length t)) t);
     copy_at 16 (be16 cks) t
   }"

definition send_segment ::
  "u16 \<Rightarrow> ipv4 \<Rightarrow> u16 \<Rightarrow> u32 \<Rightarrow> u32 \<Rightarrow> u16 \<Rightarrow> 'a net_scheme \<Rightarrow> (bool \<times> 'a net_scheme) option" where
  "send_segment sport dst dport sq ack flags s = do {
     t \<leftarrow> tcp_segment sport dport sq ack flags [] dst;
     ip_send dst PROTO_TCP t s
   }"

definition tcp_handle :: "ipv4 \<Rightarrow> byte list \<Rightarrow> 'a net_scheme \<Rightarrow> 'a net_scheme option" where
  "tcp_handle src t s =
     (if length t < TCP_HEADER_LEN then Some s
      else do {
        let sport = from_be16 [t ! 0, t ! 1];
        let dport = from_be16 [t ! 2, t ! 3];
        let sq = from_be32 [t ! 4, t ! 5, t ! 6, t ! 7];
        let ack = from_be32 [t ! 8, t ! 9, t ! 10, t ! 11];
        let flags = from_be16 [t ! 12, t ! 13];
        let s = println ''[tcp] {}.{}.{}.{}:{} -> :{} {} seq={} ack={}''
                  (ip_args src @ [ANum (unat sport), ANum (unat dport), AStr (str (flag_names flags)),
                     ANum (unat sq), ANum (unat ack)]) s;
        if flags AND SYN \<noteq> 0 \<and> flags AND ACK = 0 then do {
          sq1 \<leftarrow> checked_add sq 1;
          syn_ack \<leftarrow> tcp_segment dport sport 1000 sq1 (SYN OR ACK) [] src;
          (_, s) \<leftarrow> ip_send src PROTO_TCP syn_ack s;
          Some (println ''[tcp] state Listen -> SynReceived (sent SYN-ACK on :{})'' [ANum (unat dport)] s)
        } else Some s
      })"

definition tcp_demo :: "'a net_scheme \<Rightarrow> 'a net_scheme option" where
  "tcp_demo s = do {
     let s = println ''[tcp] -- demo -- (MSS={})'' [ANum MSS] s;
     let seg = be16 51000 @ be16 80 @ be32 777 @ be32 0
                 @ be16 (push_bit 12 (word_of_nat (TCP_HEADER_LEN div 4)) OR SYN) @ be16 536 @ be16 0 @ be16 0;
     let s = println ''[tcp] feeding a synthetic inbound SYN:'' [] s;
     s \<leftarrow> tcp_handle GATEWAY seg s;
     Some (println ''[tcp] states: {:?}''
       [AList [AVariant ''Listen'' [], AVariant ''SynReceived'' [], AVariant ''Established'' []]] s)
   }"

section \<open>Receiving\<close>

definition ip_handle :: "byte list \<Rightarrow> 'a net_scheme \<Rightarrow> 'a net_scheme option" where
  "ip_handle pkt s =
     (if length pkt < IP_HEADER_LEN \<or> drop_bit 4 (pkt ! 0) \<noteq> 4
      then Some (println ''[ip] malformed packet ({} bytes)'' [ANum (length pkt)] s)
      else do {
        let ihl = unat (pkt ! 0 AND 0x0f) * 4;
        let tot = unat (from_be16 [pkt ! 2, pkt ! 3]);
        let proto = pkt ! 9;
        let src = ip_at 12 pkt;
        body \<leftarrow> slice (max ihl IP_HEADER_LEN) (min tot (length pkt)) pkt;
        let s = println ''[ip] {} -> {} proto={} len={}''
                  [AStr (ip_fmt src), AStr (ip_fmt IP), ANum (unat proto), ANum tot] s;
        if proto = PROTO_ICMP then icmp_handle src body s
        else if proto = PROTO_UDP then udp_handle src body s
        else if proto = PROTO_TCP then tcp_handle src body s
        else Some (println ''[ip] unsupported protocol {}'' [ANum (unat proto)] s)
      })"

definition ip_demo :: "'a net_scheme \<Rightarrow> 'a net_scheme option" where
  "ip_demo s = do {
     let s = println ''[ip] -- demo --'' [] s;
     let s = println ''[ip] next-hop MAC for gateway: {}'' [AStr (mac_fmt (next_hop_mac GATEWAY s))] s;
     icmp_req \<leftarrow> echo_request 0x1234 1 (str ''simplelinux'');
     h \<leftarrow> ip_header PROTO_ICMP (10, 0, 2, 2) IP (word_of_nat (IP_HEADER_LEN + length icmp_req));
     let s = println ''[ip] feeding a crafted inbound echo-request through the decoder:'' [] s;
     ip_handle (h @ icmp_req) s
   }"

definition ethernet_handle :: "byte list \<Rightarrow> 'a net_scheme \<Rightarrow> 'a net_scheme option" where
  "ethernet_handle frame s =
     (if length frame < ETH_HEADER_LEN then Some s
      else
        let ethertype = from_be16 [frame ! 12, frame ! 13];
            payload = drop ETH_HEADER_LEN frame
        in if ethertype = ETHERTYPE_ARP then arp_handle payload s
           else if ethertype = ETHERTYPE_IP then ip_handle payload s
           else Some (println ''[eth] unknown EtherType {:#06x} ({} bytes)''
                  [ANum (unat ethertype), ANum (length payload)] s))"

text \<open>The pump handles at most 16 frames per call: \<open>pump_from n\<close> is the loop after \<open>n\<close> of them.\<close>

function pump_from :: "nat \<Rightarrow> 'a net_scheme \<Rightarrow> (nat \<times> 'a net_scheme) option" where
  "pump_from n s = do {
     (f, s) \<leftarrow> poll_receive s;
     (case f of
        None \<Rightarrow> Some (n, s)
      | Some frame \<Rightarrow> do {
          s \<leftarrow> ethernet_handle frame s;
          if n + 1 \<ge> 16 then Some (n + 1, s) else pump_from (n + 1) s
        })
   }"
  by pat_completeness auto
termination
  by (relation "measure (\<lambda>(n, _). 16 - n)") auto

declare pump_from.simps [simp del]

definition pump :: "'a net_scheme \<Rightarrow> (nat \<times> 'a net_scheme) option" where
  "pump s = pump_from 0 s"

end
