(* ===== verification/Net_Properties.thy ===== *)
theory Net_Properties
  imports Net E1000_Properties
begin

unbundle bit_operations_syntax

text \<open>
  What the network stack guarantees: the ARP cache holds the latest binding of every sender,
  packets the stack builds carry checksums that verify and parse back to what was sent, a
  datagram sent by one machine ends up in the sockets bound to its port on another, echo
  requests are answered, incoming frames make the stack panic in two precisely described
  cases only, and the pump drains the receive ring.
\<close>

section \<open>Sending, as a function on the state\<close>

definition drv_ok :: "'a e1000_scheme \<Rightarrow> bool" where
  "drv_ok s \<longleftrightarrow> (\<forall>n. NIC s = Some n \<longrightarrow> nic_ok n)"

definition after_send :: "byte list \<Rightarrow> 'a e1000_scheme \<Rightarrow> 'a e1000_scheme" where
  "after_send f s =
     (case NIC s of
        None \<Rightarrow> s
      | Some n \<Rightarrow> s\<lparr>ram := store_bytes (tx_buf n) f (ram s),
          io_log := io_log s @ [MmioWrite (base n + 0x3818) (word_of_nat ((tx_cursor n + 1) mod 8))],
          NIC := Some (n\<lparr>tx_ring := (tx_ring n)[tx_cursor n mod 8 := tx_desc n f], tx_cursor := tx_cursor n + 1\<rparr>)\<rparr>)"

definition driver_of :: "'a e1000_scheme \<Rightarrow> nic option \<times> ram \<times> io_event list" where
  "driver_of s = (NIC s, ram s, io_log s)"

lemma e1000_send_after: "drv_ok s \<Longrightarrow> e1000_send f s = Some (NIC s \<noteq> None, after_send f s)"
proof (cases "NIC s")
  case (Some n)
  moreover assume "drv_ok s"
  ultimately show ?thesis
    using e1000_send_eq [of s n f] by (simp add: drv_ok_def after_send_def)
qed (simp add: after_send_def e1000_send_def)

lemma drv_ok_after_send [simp]: "drv_ok s \<Longrightarrow> drv_ok (after_send f s)"
  by (cases "NIC s") (auto simp: drv_ok_def after_send_def nic_ok_def)

lemma after_send_other [simp]:
  "CACHE (after_send f s) = CACHE s" "SOCKETS (after_send f s) = SOCKETS s" "serial (after_send f s) = serial s"
  "mac_address (after_send f s) = mac_address s" "our_mac (after_send f s) = our_mac s"
  by (cases "NIC s"; simp add: after_send_def mac_address_def our_mac_def)+

lemma net_println [simp]:
  "CACHE (println x a s) = CACHE s" "SOCKETS (println x a s) = SOCKETS s" "mac_address (println x a s) = mac_address s"
  "our_mac (println x a s) = our_mac s" "drv_ok (println x a s) = drv_ok s" "arp_lookup ip (println x a s) = arp_lookup ip s"
  "driver_of (println x a s) = driver_of s" "next_hop_mac ip (println x a s) = next_hop_mac ip s"
  by (simp_all add: println_def print_def mac_address_def our_mac_def drv_ok_def arp_lookup_def driver_of_def
      next_hop_mac_def cong: option.case_cong)

lemma net_update [simp]:
  "drv_ok (s\<lparr>SOCKETS := x\<rparr>) = drv_ok s" "driver_of (s\<lparr>SOCKETS := x\<rparr>) = driver_of s"
  "drv_ok (remember ip m s) = drv_ok s" "driver_of (remember ip m s) = driver_of s"
  "CACHE (remember ip m s) = btree_insert ip m (CACHE s)"
  "SOCKETS (remember ip m s) = SOCKETS s" "our_mac (remember ip m s) = our_mac s"
  by (simp_all add: drv_ok_def driver_of_def remember_def our_mac_def mac_address_def)

lemma driver_after_send:
  "driver_of s = driver_of t \<Longrightarrow> driver_of (after_send f s) = driver_of (after_send f t)"
  by (cases "NIC t") (auto simp: driver_of_def after_send_def)

lemma transmit_after: "drv_ok s \<Longrightarrow>
  transmit_ethernet dst ty p s = Some (NIC s \<noteq> None, after_send (eth_frame dst (our_mac s) ty p) s)"
  by (simp add: transmit_ethernet_def e1000_send_after)

section \<open>The ARP cache\<close>

text \<open>The contract of a map that is updated in place, and what a sequence of updates amounts to.\<close>

locale kv_map =
  fixes lookup :: "'m \<Rightarrow> 'k \<Rightarrow> 'v option"
    and insert :: "'k \<Rightarrow> 'v \<Rightarrow> 'm \<Rightarrow> 'm"
    and inv :: "'m \<Rightarrow> bool"
  assumes lookup_insert: "inv m \<Longrightarrow> lookup (insert k v m) = (lookup m)(k \<mapsto> v)"
    and inv_insert: "inv m \<Longrightarrow> inv (insert k v m)"
begin

lemma insert_all:
  "inv m \<Longrightarrow> inv (fold (\<lambda>(k, v). insert k v) kvs m) \<and>
     lookup (fold (\<lambda>(k, v). insert k v) kvs m) = lookup m ++ map_of (rev kvs)"
proof (induction kvs arbitrary: m)
  case (Cons kv kvs)
  then show ?case
    using Cons.IH [of "insert (fst kv) (snd kv) m"]
    by (cases kv) (simp add: inv_insert lookup_insert map_add_def fun_eq_iff split: option.splits)
qed simp

lemma insert_overwrites: "inv m \<Longrightarrow> lookup (insert k v (insert k w m)) = lookup (insert k v m)"
  by (simp add: lookup_insert inv_insert)

end

lemma map_of_btree_insert: "map_of (btree_insert k v m) = (map_of m)(k \<mapsto> v)"
  by (induction k v m rule: btree_insert.induct) (auto simp: fun_eq_iff)

lemma set_btree_insert: "fst ` set (btree_insert k v m) = Set.insert k (fst ` set m)"
  by (induction k v m rule: btree_insert.induct) auto

lemma sorted_btree_insert:
  "sorted_wrt (<) (map fst m) \<Longrightarrow> sorted_wrt (<) (map fst (btree_insert k v m))"
proof (induction k v m rule: btree_insert.induct)
  case (2 k v k' v' m)
  consider "k = k'" | "k < k'" | "k' < k"
    by (rule linorder_cases)
  then show ?case
  proof cases
    case 3
    then have "sorted_wrt (<) (map fst (btree_insert k v m))" "\<forall>x\<in>fst ` set m. k' < x"
      using 2 by auto
    moreover have "\<forall>x\<in>fst ` set (btree_insert k v m). k' < x"
      using calculation(2) 3 by (simp add: set_btree_insert)
    ultimately show ?thesis
      using 3 by auto
  qed (use 2(2) in auto)
qed simp

interpretation btree: kv_map map_of btree_insert "\<lambda>m. sorted_wrt (<) (map fst m)"
  by unfold_locales (simp_all add: map_of_btree_insert sorted_btree_insert)

definition arp_binding :: "byte list \<Rightarrow> ipv4 \<times> mac_addr" where
  "arp_binding arp = (ip_at 14 arp, mac_at 8 arp)"

definition asks_us :: "byte list \<Rightarrow> bool" where
  "asks_us arp \<longleftrightarrow> from_be16 [arp ! 6, arp ! 7] = OP_REQUEST \<and> ip_at 24 arp = IP"

definition arp_reply_frame :: "byte list \<Rightarrow> mac_addr \<Rightarrow> byte list" where
  "arp_reply_frame arp me =
     eth_frame (mac_at 8 arp) me ETHERTYPE_ARP (arp_payload OP_REPLY me IP (mac_at 8 arp) (ip_at 14 arp))"

lemma arp_handle_spec:
  assumes "drv_ok s" and "28 \<le> length arp"
  shows "\<exists>s'. arp_handle arp s = Some s' \<and>
    CACHE s' = btree_insert (fst (arp_binding arp)) (snd (arp_binding arp)) (CACHE s) \<and>
    SOCKETS s' = SOCKETS s \<and> drv_ok s' \<and> our_mac s' = our_mac s \<and>
    driver_of s' = (if asks_us arp then driver_of (after_send (arp_reply_frame arp (our_mac s)) s) else driver_of s)"
proof -
  let ?s1 = "println ''[arp] learned {}.{}.{}.{} -> {}'' (ip_args (ip_at 14 arp) @ [AStr (mac_fmt (mac_at 8 arp))])
    (remember (ip_at 14 arp) (mac_at 8 arp) s)"
  have s1: "drv_ok ?s1" "driver_of ?s1 = driver_of s" "our_mac ?s1 = our_mac s"
      "CACHE ?s1 = btree_insert (ip_at 14 arp) (mac_at 8 arp) (CACHE s)" "SOCKETS ?s1 = SOCKETS s"
    using assms(1) by simp_all
  show ?thesis
  proof (cases "asks_us arp")
    case True
    then show ?thesis
      using assms(2) s1 driver_after_send [OF s1(2)]
      by (simp add: arp_handle_def asks_us_def Let_def transmit_after arp_reply_frame_def arp_binding_def)
  next
    case False
    then show ?thesis
      using assms(2) s1 by (auto simp: arp_handle_def asks_us_def Let_def arp_binding_def)
  qed
qed

fun arp_handles :: "byte list list \<Rightarrow> 'a net_scheme \<Rightarrow> 'a net_scheme option" where
  "arp_handles [] s = Some s"
| "arp_handles (p # ps) s = do { s \<leftarrow> arp_handle p s; arp_handles ps s }"

lemma arp_handles_spec:
  assumes "drv_ok s" and "\<forall>p\<in>set ps. 28 \<le> length p"
  shows "\<exists>s'. arp_handles ps s = Some s' \<and>
    CACHE s' = fold (\<lambda>(k, v). btree_insert k v) (map arp_binding ps) (CACHE s)"
  using assms
proof (induction ps arbitrary: s)
  case (Cons p ps)
  then obtain s1 where s1: "arp_handle p s = Some s1" "drv_ok s1"
      "CACHE s1 = btree_insert (fst (arp_binding p)) (snd (arp_binding p)) (CACHE s)"
    using arp_handle_spec [of s p] by auto
  then obtain s' where "arp_handles ps s1 = Some s'"
      "CACHE s' = fold (\<lambda>(k, v). btree_insert k v) (map arp_binding ps) (CACHE s1)"
    using Cons.IH [OF s1(2)] Cons.prems(2) by auto
  with s1 show ?case
    by (cases "arp_binding p") simp
qed simp

text \<open>C23. The ARP cache learns from every ARP packet: after any sequence of well-sized packets it answers a
  lookup with the hardware address the most recent packet from that protocol address
  carried, and as before for addresses that sent nothing; and the table shown by \<open>arp\<close> is
  sorted without duplicates.\<close>

theorem arp_cache_latest:
  assumes "drv_ok s" and "\<forall>p\<in>set ps. 28 \<le> length p" and "sorted_wrt (<) (map fst (CACHE s))"
  shows "\<exists>s'. arp_handles ps s = Some s' \<and>
    (\<forall>ip. arp_lookup ip s' = (case map_of (rev (map arp_binding ps)) ip of
        Some m \<Rightarrow> Some m | None \<Rightarrow> arp_lookup ip s)) \<and>
    sorted_wrt (<) (map fst (arp_table s'))"
proof -
  obtain s' where s': "arp_handles ps s = Some s'"
      "CACHE s' = fold (\<lambda>(k, v). btree_insert k v) (map arp_binding ps) (CACHE s)"
    using arp_handles_spec [OF assms(1,2)] by blast
  with btree.insert_all [OF assms(3), of "map arp_binding ps"] show ?thesis
    by (simp add: arp_lookup_def arp_table_def map_add_def cong: option.case_cong)
qed

definition demo_net :: net where
  "demo_net = \<lparr>serial = [], FRAME_ALLOCATOR = bitmap_new, READY = True, PHYS_OFFSET = 0x40000000,
     page_table = Map.empty, heap_region = None, ram = (\<lambda>_. 0), io_log = [], NIC = Some demo_nic,
     CACHE = [], SOCKETS = []\<rparr>"

lemma demo_net_ok: "drv_ok demo_net"
  by (simp add: drv_ok_def demo_net_def demo_nic_ok)

lemma length_mac_bytes [simp]: "length (mac_bytes m) = 6"
  by (cases m) (simp add: mac_bytes_def)

lemma length_ip_bytes [simp]: "length (ip_bytes i) = 4"
  by (cases i) (simp add: ip_bytes_def)

lemma arp_payload_eq:
  "arp_payload oper (a, b, c, d, e, f) (g, h, i, j) (k, l, m, n, p, q) (r, t, u, v) =
     [0, 1, 8, 0, 6, 4, word_of_nat (unat oper div 256), word_of_nat (unat oper),
      a, b, c, d, e, f, g, h, i, j, k, l, m, n, p, q, r, t, u, v]"
  by (simp add: arp_payload_def mac_bytes_def ip_bytes_def HTYPE_ETH_def PTYPE_IP_def be16_eq)

lemma from_be16_pair [simp]: "from_be16 [word_of_nat (unat w div 256), word_of_nat (unat w)] = w"
  using from_be16_be16 [of w] by (simp only: be16_eq)

lemma arp_payload_fields:
  "length (arp_payload oper sha spa tha tpa) = 28"
  "arp_binding (arp_payload oper sha spa tha tpa) = (spa, sha)"
  "asks_us (arp_payload oper sha spa tha tpa) \<longleftrightarrow> oper = OP_REQUEST \<and> tpa = IP"
proof -
  obtain a b c d e f where sha: "sha = (a, b, c, d, e, f)" by (cases sha)
  obtain g h i j where spa: "spa = (g, h, i, j)" by (cases spa)
  obtain k l m n p q where tha: "tha = (k, l, m, n, p, q)" by (cases tha)
  obtain r t u v where tpa: "tpa = (r, t, u, v)" by (cases tpa)
  note eq = arp_payload_eq [of oper a b c d e f g h i j k l m n p q r t u v, folded sha spa tha tpa]
  have six: "from_be16 [arp_payload oper sha spa tha tpa ! 6, arp_payload oper sha spa tha tpa ! 7] = oper"
    unfolding eq by (simp del: of_nat_unat word_of_nat_unat)
  show "length (arp_payload oper sha spa tha tpa) = 28"
    unfolding eq by simp
  show "arp_binding (arp_payload oper sha spa tha tpa) = (spa, sha)"
    unfolding eq by (simp add: arp_binding_def ip_at_def mac_at_def sha spa)
  show "asks_us (arp_payload oper sha spa tha tpa) \<longleftrightarrow> oper = OP_REQUEST \<and> tpa = IP"
    unfolding asks_us_def six unfolding eq by (simp add: ip_at_def tpa)
qed

theorem arp_cache_latest_witness:
  "\<exists>s'. arp_handles [arp_payload OP_REPLY (2, 0, 0, 0, 0, 7) GATEWAY (0, 0, 0, 0, 0, 0) IP,
       arp_payload OP_REPLY (2, 0, 0, 0, 0, 8) GATEWAY (0, 0, 0, 0, 0, 0) IP] demo_net = Some s' \<and>
     arp_lookup GATEWAY s' = Some (2, 0, 0, 0, 0, 8)"
proof -
  have "sorted_wrt (<) (map fst (CACHE demo_net))"
    by (simp add: demo_net_def)
  from arp_cache_latest [OF demo_net_ok _ this, of "[arp_payload OP_REPLY (2, 0, 0, 0, 0, 7) GATEWAY (0, 0, 0, 0, 0, 0) IP,
       arp_payload OP_REPLY (2, 0, 0, 0, 0, 8) GATEWAY (0, 0, 0, 0, 0, 0) IP]"]
  show ?thesis
    by (auto simp: arp_payload_fields simp del: split_paired_All arp_handles.simps)
qed

section \<open>Ethernet dispatch\<close>

lemma eth_frame_parts:
  "length (eth_frame dst src ty p) = 14 + length p"
  "drop 14 (eth_frame dst src ty p) = p"
  "from_be16 [eth_frame dst src ty p ! 12, eth_frame dst src ty p ! 13] = ty"
proof -
  obtain a b c d e f where dst: "dst = (a, b, c, d, e, f)" by (cases dst)
  obtain g h i j k l where src: "src = (g, h, i, j, k, l)" by (cases src)
  show "length (eth_frame dst src ty p) = 14 + length p" "drop 14 (eth_frame dst src ty p) = p"
    by (simp_all add: eth_frame_def dst src mac_bytes_def be16_eq)
  show "from_be16 [eth_frame dst src ty p ! 12, eth_frame dst src ty p ! 13] = ty"
    by (simp add: eth_frame_def dst src mac_bytes_def be16_eq del: of_nat_unat)
qed

lemma ethernet_handle_arp: "ethernet_handle (eth_frame dst src ETHERTYPE_ARP p) s = arp_handle p s"
  by (simp add: ethernet_handle_def eth_frame_parts ETH_HEADER_LEN_def)

lemma ethernet_handle_ip: "ethernet_handle (eth_frame dst src ETHERTYPE_IP p) s = ip_handle p s"
  by (simp add: ethernet_handle_def eth_frame_parts ETH_HEADER_LEN_def ETHERTYPE_IP_def ETHERTYPE_ARP_def)

text \<open>Address resolution works end to end: an ARP request for our address, from any station, makes us
  remember the sender and hand the driver exactly one frame, the unicast reply with our
  hardware address; and a station that handles that reply resolves our address to it.\<close>

theorem arp_exchange:
  assumes "drv_ok s" and "NIC s \<noteq> None" and "drv_ok b"
  shows "\<exists>s' t reply b'.
    ethernet_handle (eth_frame BROADCAST sha ETHERTYPE_ARP (arp_payload OP_REQUEST sha spa (0, 0, 0, 0, 0, 0) IP)) s = Some s' \<and>
    arp_lookup spa s' = Some sha \<and> e1000_send reply s = Some (True, t) \<and> driver_of s' = driver_of t \<and>
    take 6 reply = mac_bytes sha \<and>
    ethernet_handle reply b = Some b' \<and> arp_lookup IP b' = Some (our_mac s) \<and>
    driver_of b' = driver_of b"
proof -
  let ?req = "arp_payload OP_REQUEST sha spa (0, 0, 0, 0, 0, 0) IP"
  let ?rep = "arp_payload OP_REPLY (our_mac s) IP sha spa"
  let ?frame = "eth_frame sha (our_mac s) ETHERTYPE_ARP ?rep"
  obtain s' where s': "arp_handle ?req s = Some s'" "CACHE s' = btree_insert spa sha (CACHE s)"
      "driver_of s' = driver_of (after_send (arp_reply_frame ?req (our_mac s)) s)"
    using arp_handle_spec [OF assms(1), of ?req] by (auto simp: arp_payload_fields)
  have "arp_reply_frame ?req (our_mac s) = ?frame"
    using arp_payload_fields(2) [of OP_REQUEST sha spa "(0, 0, 0, 0, 0, 0)" IP]
    by (simp add: arp_reply_frame_def arp_binding_def)
  moreover have "\<not> asks_us ?rep"
    by (simp add: arp_payload_fields OP_REPLY_def OP_REQUEST_def)
  then obtain p' where p': "arp_handle ?rep b = Some p'" "CACHE p' = btree_insert IP (our_mac s) (CACHE b)"
      "driver_of p' = driver_of b"
    using arp_handle_spec [OF assms(3), of ?rep] by (auto simp: arp_payload_fields)
  moreover have "e1000_send ?frame s = Some (True, after_send ?frame s)"
    using e1000_send_after [OF assms(1)] assms(2) by simp
  moreover have "take 6 ?frame = mac_bytes sha"
    by (simp add: eth_frame_def)
  ultimately show ?thesis
    using s' by (intro exI [of _ s'] exI [of _ "after_send ?frame s"] exI [of _ ?frame] exI [of _ p'])
      (simp add: ethernet_handle_arp arp_lookup_def map_of_btree_insert)
qed

theorem arp_exchange_witness:
  "\<exists>s'. ethernet_handle (eth_frame BROADCAST (2, 0, 0, 0, 0, 9) ETHERTYPE_ARP
       (arp_payload OP_REQUEST (2, 0, 0, 0, 0, 9) GATEWAY (0, 0, 0, 0, 0, 0) IP)) demo_net = Some s' \<and>
     arp_lookup GATEWAY s' = Some (2, 0, 0, 0, 0, 9)"
  using arp_exchange [OF demo_net_ok _ demo_net_ok, of "(2, 0, 0, 0, 0, 9)" GATEWAY]
  by (auto simp: demo_net_def)

section \<open>Packets and their checksums\<close>

lemma copy_at_middle:
  "length pre = a \<Longrightarrow> length src = length mid \<Longrightarrow> copy_at a src (pre @ mid @ post) = Some (pre @ src @ post)"
  by (simp add: copy_at_def)

lemma fill_checksum:
  assumes "even (length pre)" and "length pre + length post + 2 \<le> 131072"
  obtains c where "checksum (pre @ be16 0 @ post) = Some c" "checksum (pre @ be16 c @ post) = Some 0"
proof -
  have "length (pre @ be16 0 @ post) \<le> 131072"
    using assms(2) by simp
  then obtain c where "checksum (pre @ be16 0 @ post) = Some c"
    using checksum_Some by blast
  from this checksum_fill [OF assms this] show thesis
    by (rule that)
qed

lemma be16_0: "be16 0 = [0, 0]"
  by (simp add: be16_eq)

lemma be16_4000: "be16 0x4000 = [0x40, 0]"
  by (simp add: be16_eq word_unat_eq_iff)

lemma ip_header_built:
  obtains c where "ip_header proto src dst tot =
      Some ([0x45, 0] @ be16 tot @ [0, 1, 0x40, 0, 64, proto] @ be16 c @ ip_bytes src @ ip_bytes dst)"
    "checksum ([0x45, 0] @ be16 tot @ [0, 1, 0x40, 0, 64, proto] @ be16 c @ ip_bytes src @ ip_bytes dst) = Some 0"
proof -
  let ?pre = "[0x45, 0] @ be16 tot @ [0, 1, 0x40, 0, 64, proto]" and ?post = "ip_bytes src @ ip_bytes dst"
  obtain c where c: "checksum (?pre @ be16 0 @ ?post) = Some c" "checksum (?pre @ be16 c @ ?post) = Some 0"
    by (rule fill_checksum [of ?pre ?post]) auto
  have "copy_at 10 (be16 c) (?pre @ be16 0 @ ?post) = Some (?pre @ be16 c @ ?post)"
    by (rule copy_at_middle) simp_all
  with c have "ip_header proto src dst tot = Some (?pre @ be16 c @ ?post)"
    by (simp add: ip_header_def IHL_def be16_0 be16_eq [of 1] be16_4000)
  with c(2) show thesis
    by (intro that [of c]) simp_all
qed

text \<open>What \<open>ip_handle\<close> does with a packet once its fields are extracted.\<close>

definition ip_dispatch :: "byte \<Rightarrow> ipv4 \<Rightarrow> nat \<Rightarrow> byte list \<Rightarrow> 'a net_scheme \<Rightarrow> 'a net_scheme option" where
  "ip_dispatch proto src tot body s =
     (let s = println ''[ip] {} -> {} proto={} len={}'' [AStr (ip_fmt src), AStr (ip_fmt IP), ANum (unat proto), ANum tot] s in
      if proto = PROTO_ICMP then icmp_handle src body s
      else if proto = PROTO_UDP then udp_handle src body s
      else if proto = PROTO_TCP then tcp_handle src body s
      else Some (println ''[ip] unsupported protocol {}'' [ANum (unat proto)] s))"

lemma ip_handle_dispatch:
  assumes "20 \<le> length pkt" and "drop_bit 4 (pkt ! 0) = 4"
    and "slice (max (unat (pkt ! 0 AND 0x0f) * 4) 20) (min (unat (from_be16 [pkt ! 2, pkt ! 3])) (length pkt)) pkt = Some body"
  shows "ip_handle pkt s = ip_dispatch (pkt ! 9) (ip_at 12 pkt) (unat (from_be16 [pkt ! 2, pkt ! 3])) body s"
  using assms by (simp add: ip_handle_def ip_dispatch_def IP_HEADER_LEN_def Let_def)

lemma ip_handle_built:
  assumes "ip_header proto src dst (word_of_nat (20 + length body)) = Some h" and "length body \<le> 65515"
  shows "length h = 20 \<and> ip_handle (h @ body) s = ip_dispatch proto src (20 + length body) body s"
proof -
  define tot where "tot = (word_of_nat (20 + length body) :: u16)"
  have tot: "unat tot = 20 + length body"
    using assms(2) by (simp add: tot_def unat_of_nat del: of_nat_add)
  obtain a b c d where src: "src = (a, b, c, d)" by (cases src)
  obtain e f g i where dst: "dst = (e, f, g, i)" by (cases dst)
  obtain k where h: "h = [0x45, 0] @ be16 tot @ [0, 1, 0x40, 0, 64, proto] @ be16 k @ ip_bytes src @ ip_bytes dst"
    using ip_header_built [of proto src dst tot] assms(1) unfolding tot_def by (metis option.inject)
  have len: "length h = 20"
    by (simp add: h)
  have at: "(h @ body) ! 0 = 0x45" "(h @ body) ! 9 = proto" "ip_at 12 (h @ body) = src"
      "from_be16 [(h @ body) ! 2, (h @ body) ! 3] = tot"
    by (simp_all add: h src dst ip_bytes_def be16_eq ip_at_def del: of_nat_unat)
  have "slice 20 (min (unat tot) (length (h @ body))) (h @ body) = Some body"
    using len tot by (simp add: slice_def)
  then have "ip_handle (h @ body) s = ip_dispatch ((h @ body) ! 9) (ip_at 12 (h @ body)) (unat tot) body s"
    using len by (subst ip_handle_dispatch [of "h @ body" body]) (simp_all add: at drop_bit_eq_div)
  with len show ?thesis
    by (simp add: at tot)
qed

lemma ip_send_built:
  assumes "length body \<le> 65515"
  obtains h where "ip_header proto IP dst (word_of_nat (20 + length body)) = Some h" "length h = 20" "checksum h = Some 0"
    "ip_send dst proto body s = e1000_send (eth_frame (next_hop_mac dst s) (our_mac s) ETHERTYPE_IP (h @ body)) s"
proof -
  obtain c where c: "ip_header proto IP dst (word_of_nat (20 + length body)) =
      Some ([0x45, 0] @ be16 (word_of_nat (20 + length body)) @ [0, 1, 0x40, 0, 64, proto] @ be16 c @ ip_bytes IP @ ip_bytes dst)"
    "checksum ([0x45, 0] @ be16 (word_of_nat (20 + length body)) @ [0, 1, 0x40, 0, 64, proto] @ be16 c @ ip_bytes IP @ ip_bytes dst) = Some 0"
    by (rule ip_header_built)
  show thesis
    by (rule that [OF c(1) _ c(2)]) (use c(1) in \<open>simp_all add: ip_send_def IP_HEADER_LEN_def transmit_ethernet_def\<close>)
qed

lemma udp_datagram_built:
  assumes "length data \<le> 65527"
  obtains c where "udp_datagram sport dst dport data =
      Some (be16 sport @ be16 dport @ be16 (word_of_nat (8 + length data)) @ be16 c @ data)"
    "checksum (udp_pseudo PROTO_UDP dst (word_of_nat (8 + length data))
       (be16 sport @ be16 dport @ be16 (word_of_nat (8 + length data)) @ be16 c @ data)) = Some 0"
proof -
  let ?tot = "word_of_nat (8 + length data) :: u16"
  let ?head = "be16 sport @ be16 dport @ be16 ?tot"
  let ?pre = "ip_bytes IP @ ip_bytes dst @ [0, PROTO_UDP] @ be16 ?tot @ ?head"
  obtain c where c: "checksum (?pre @ be16 0 @ data) = Some c" "checksum (?pre @ be16 c @ data) = Some 0"
    by (rule fill_checksum [of ?pre data]) (use assms in auto)
  have "copy_at 6 (be16 c) (?head @ be16 0 @ data) = Some (?head @ be16 c @ data)"
    by (rule copy_at_middle) simp_all
  with c have "udp_datagram sport dst dport data = Some (?head @ be16 c @ data)"
    by (simp add: udp_datagram_def UDP_HEADER_LEN_def udp_pseudo_def)
  with c(2) show thesis
    by (intro that [of c]) (simp_all add: udp_pseudo_def)
qed

lemma udp_handle_built:
  assumes "length data \<le> 65527"
  shows "udp_handle src (be16 sport @ be16 dport @ be16 (word_of_nat (8 + length data)) @ be16 c @ data) s =
    Some (deliver dport src sport data (println ''[udp] {}.{}.{}.{}:{} -> :{} ({} bytes)''
       (ip_args src @ [ANum (unat sport), ANum (unat dport), ANum (length data)]) s))"
proof -
  define tot where "tot = (word_of_nat (8 + length data) :: u16)"
  have tot: "unat tot = 8 + length data"
    using assms by (simp add: tot_def unat_of_nat del: of_nat_add)
  let ?d = "be16 sport @ be16 dport @ be16 tot @ be16 c @ data"
  have "from_be16 [?d ! 0, ?d ! 1] = sport" "from_be16 [?d ! 2, ?d ! 3] = dport" "from_be16 [?d ! 4, ?d ! 5] = tot"
    by (simp_all add: be16_eq del: of_nat_unat)
  moreover have "slice 8 (min (max (unat tot) 8) (length ?d)) ?d = Some data"
    by (simp add: slice_def tot)
  ultimately show ?thesis
    unfolding tot_def [symmetric] by (simp add: udp_handle_def UDP_HEADER_LEN_def Let_def)
qed

lemma more_println_net [simp]: "net.more (println f a s) = net.more s"
  by (simp add: println_def print_def)

lemma deliver_spec:
  "SOCKETS (deliver dport src sport data s) =
     map (\<lambda>sl. if is_bound dport sl then map_option (enqueue src sport data) sl else sl) (SOCKETS s)"
  "driver_of (deliver dport src sport data s) = driver_of s" "CACHE (deliver dport src sport data s) = CACHE s"
  "drv_ok (deliver dport src sport data s) = drv_ok s" "net.more (deliver dport src sport data s) = net.more s"
  by (simp_all add: deliver_def Let_def)

interpretation socks: slot_table "\<lambda>(x :: socket) t. Some (place x t)"
  by unfold_locales (auto dest: place_spec)

lemma udp_delivery:
  assumes "length data \<le> 65507"
  shows "\<exists>f b'. udp_send sport dst dport data s = e1000_send f s \<and> ethernet_handle f b = Some b' \<and>
    SOCKETS b' = map (\<lambda>sl. if is_bound dport sl then map_option (enqueue IP sport data) sl else sl) (SOCKETS b) \<and>
    CACHE b' = CACHE b \<and> driver_of b' = driver_of b \<and> net.more b' = net.more b \<and> length f = length data + 42"
proof -
  obtain c where c: "udp_datagram sport dst dport data =
      Some (be16 sport @ be16 dport @ be16 (word_of_nat (8 + length data)) @ be16 c @ data)"
    by (rule udp_datagram_built [of data sport dst dport]) (use assms in auto)
  let ?d = "be16 sport @ be16 dport @ be16 (word_of_nat (8 + length data)) @ be16 c @ data"
  have len: "length ?d \<le> 65515"
    using assms by simp
  then obtain h where h: "ip_header PROTO_UDP IP dst (word_of_nat (20 + length ?d)) = Some h"
    "ip_send dst PROTO_UDP ?d s = e1000_send (eth_frame (next_hop_mac dst s) (our_mac s) ETHERTYPE_IP (h @ ?d)) s"
    by (rule ip_send_built)
  let ?f = "eth_frame (next_hop_mac dst s) (our_mac s) ETHERTYPE_IP (h @ ?d)"
  have "udp_send sport dst dport data s = e1000_send ?f s"
    using h(2) by (simp add: udp_send_def c)
  moreover have "ethernet_handle ?f b = ip_dispatch PROTO_UDP IP (20 + length ?d) ?d b"
    using ip_handle_built [OF h(1) len, of b] by (simp only: ethernet_handle_ip)
  moreover have "\<exists>b'. ip_dispatch PROTO_UDP IP (20 + length ?d) ?d b = Some b' \<and>
      SOCKETS b' = map (\<lambda>sl. if is_bound dport sl then map_option (enqueue IP sport data) sl else sl) (SOCKETS b) \<and>
      CACHE b' = CACHE b \<and> driver_of b' = driver_of b \<and> net.more b' = net.more b"
    using assms
    by (simp add: ip_dispatch_def PROTO_UDP_def PROTO_ICMP_def Let_def deliver_spec udp_handle_built del: of_nat_add)
  moreover have "length ?f = length data + 42"
    using ip_handle_built [OF h(1) len, of b] by (simp add: eth_frame_parts)
  ultimately show ?thesis
    by (intro exI [of _ ?f]) simp
qed

text \<open>A datagram crosses the network intact: what \<open>udp::send\<close> does is to send one frame through the
  driver, and any machine whose stack is given that frame appends the payload, with our
  address and source port, to the queue of every UDP socket bound to the destination port,
  and changes no other socket, no cache entry and nothing in its driver. The payload may be
  up to 65507 bytes, the most an IPv4 packet can carry.\<close>

theorem udp_end_to_end:
  assumes "length data \<le> 65507"
  shows "\<exists>f b'. udp_send sport dst dport data s = e1000_send f s \<and> ethernet_handle f b = Some b' \<and>
    SOCKETS b' = map (\<lambda>sl. if is_bound dport sl then map_option (enqueue IP sport data) sl else sl) (SOCKETS b) \<and>
    CACHE b' = CACHE b \<and> driver_of b' = driver_of b"
  using udp_delivery [OF assms] by blast

definition bound_net :: net where
  "bound_net = demo_net\<lparr>SOCKETS := [Some \<lparr>s_proto = PROTO_UDP, local_port = 9999, peer = None, rx = []\<rparr>, None,
     Some \<lparr>s_proto = PROTO_UDP, local_port = 53, peer = None, rx = []\<rparr>]\<rparr>"

theorem udp_end_to_end_witness:
  "\<exists>f b'. udp_send 7 GATEWAY 9999 (str ''hello'') demo_net = e1000_send f demo_net \<and>
     ethernet_handle f bound_net = Some b' \<and>
     SOCKETS b' = [Some \<lparr>s_proto = PROTO_UDP, local_port = 9999, peer = None, rx = [(IP, 7, str ''hello'')]\<rparr>, None,
       Some \<lparr>s_proto = PROTO_UDP, local_port = 53, peer = None, rx = []\<rparr>]"
proof -
  have "map (\<lambda>sl. if is_bound 9999 sl then map_option (enqueue IP 7 (str ''hello'')) sl else sl) (SOCKETS bound_net) =
     [Some \<lparr>s_proto = PROTO_UDP, local_port = 9999, peer = None, rx = [(IP, 7, str ''hello'')]\<rparr>, None,
       Some \<lparr>s_proto = PROTO_UDP, local_port = 53, peer = None, rx = []\<rparr>]"
    by (simp add: bound_net_def is_bound_def enqueue_def)
  then show ?thesis
    using udp_end_to_end [of "str ''hello''" 7 GATEWAY 9999 demo_net bound_net] by auto
qed

section \<open>Echo\<close>

definition echo_message :: "byte \<Rightarrow> u16 \<Rightarrow> u16 \<Rightarrow> u16 \<Rightarrow> byte list \<Rightarrow> byte list" where
  "echo_message ty c ident sq data = [ty, 0] @ be16 c @ be16 ident @ be16 sq @ data"

lemma echo_message_at:
  "echo_message ty c ident sq data ! 0 = ty" "8 \<le> length (echo_message ty c ident sq data)"
  "from_be16 [echo_message ty c ident sq data ! 4, echo_message ty c ident sq data ! 5] = ident"
  "from_be16 [echo_message ty c ident sq data ! 6, echo_message ty c ident sq data ! 7] = sq"
  "length (echo_message ty c ident sq data) = 8 + length data"
  by (simp_all add: echo_message_def be16_eq del: of_nat_unat)

lemma echo_request_built:
  assumes "length data \<le> 65507"
  obtains c where "echo_request ident sq data = Some (echo_message ECHO_REQUEST c ident sq data)"
    "checksum (echo_message ECHO_REQUEST c ident sq data) = Some 0"
proof -
  let ?post = "be16 ident @ be16 sq @ data"
  obtain c where c: "checksum ([ECHO_REQUEST, 0] @ be16 0 @ ?post) = Some c"
      "checksum ([ECHO_REQUEST, 0] @ be16 c @ ?post) = Some 0"
    by (rule fill_checksum [of "[ECHO_REQUEST, 0]" ?post]) (use assms in auto)
  have "copy_at 2 (be16 c) ([ECHO_REQUEST, 0] @ be16 0 @ ?post) = Some ([ECHO_REQUEST, 0] @ be16 c @ ?post)"
    by (rule copy_at_middle) simp_all
  with c show thesis
    by (intro that [of c]) (simp_all add: echo_request_def echo_message_def)
qed

lemma echo_reply_built:
  assumes "length data \<le> 65507"
  obtains c where "echo_reply (echo_message ty k ident sq data) = Some (echo_message ECHO_REPLY c ident sq data)"
    "checksum (echo_message ECHO_REPLY c ident sq data) = Some 0"
proof -
  let ?post = "be16 ident @ be16 sq @ data"
  obtain c where c: "checksum ([ECHO_REPLY, 0] @ be16 0 @ ?post) = Some c"
      "checksum ([ECHO_REPLY, 0] @ be16 c @ ?post) = Some 0"
    by (rule fill_checksum [of "[ECHO_REPLY, 0]" ?post]) (use assms in auto)
  have "copy_at 2 (be16 c) ([ECHO_REPLY, 0] @ be16 0 @ ?post) = Some ([ECHO_REPLY, 0] @ be16 c @ ?post)"
    by (rule copy_at_middle) simp_all
  with c have "echo_reply (echo_message ty k ident sq data) = Some (echo_message ECHO_REPLY c ident sq data)"
    by (simp add: echo_reply_def echo_message_def put_def be16_eq [of k] be16_0 numeral_3_eq_3)
  with c(2) show thesis
    by (intro that [of c]) (simp_all add: echo_message_def)
qed

lemma icmp_handle_request:
  assumes "length data \<le> 65507" and "drv_ok s"
  obtains c h s' where "icmp_handle src (echo_message ECHO_REQUEST k ident sq data) s = Some s'"
    "ip_header PROTO_ICMP IP src (word_of_nat (20 + length (echo_message ECHO_REPLY c ident sq data))) = Some h"
    "checksum h = Some 0" "checksum (echo_message ECHO_REPLY c ident sq data) = Some 0"
    "driver_of s' = driver_of (after_send (eth_frame (next_hop_mac src s) (our_mac s) ETHERTYPE_IP
        (h @ echo_message ECHO_REPLY c ident sq data)) s)"
    "CACHE s' = CACHE s" "SOCKETS s' = SOCKETS s" "drv_ok s'"
proof -
  let ?msg = "echo_message ECHO_REQUEST k ident sq data"
  obtain c where c: "echo_reply ?msg = Some (echo_message ECHO_REPLY c ident sq data)"
      "checksum (echo_message ECHO_REPLY c ident sq data) = Some 0"
    using echo_reply_built [OF assms(1)] by blast
  let ?rep = "echo_message ECHO_REPLY c ident sq data"
  let ?s1 = "println ''[icmp] echo request from {}.{}.{}.{} ({} data bytes) -> reply'' (ip_args src @ [ANum (length ?msg - 8)]) s"
  have "length ?rep \<le> 65515"
    using assms(1) by (simp add: echo_message_at)
  then obtain h where h: "ip_header PROTO_ICMP IP src (word_of_nat (20 + length ?rep)) = Some h" "checksum h = Some 0"
      "ip_send src PROTO_ICMP ?rep ?s1 = e1000_send (eth_frame (next_hop_mac src ?s1) (our_mac ?s1) ETHERTYPE_IP (h @ ?rep)) ?s1"
    by (rule ip_send_built)
  let ?f = "eth_frame (next_hop_mac src s) (our_mac s) ETHERTYPE_IP (h @ ?rep)"
  have "icmp_handle src ?msg s = Some (after_send ?f ?s1)"
    using h(3) c(1) assms(2) echo_message_at(2) [of ECHO_REQUEST k ident sq data]
    by (simp add: icmp_handle_def echo_message_at(1) e1000_send_after)
  moreover have "driver_of (after_send ?f ?s1) = driver_of (after_send ?f s)"
    by (rule driver_after_send) simp
  ultimately show thesis
    using that h(1,2) c(2) assms(2) by simp
qed

lemma icmp_handle_reply:
  "icmp_handle src (echo_message ECHO_REPLY c ident sq data) s =
     Some (println ''[icmp] echo reply from {}.{}.{}.{} id={:#x} seq={}''
       (ip_args src @ [ANum (unat ident), ANum (unat sq)]) s)"
  using echo_message_at(2) [of ECHO_REPLY c ident sq data]
  by (simp add: icmp_handle_def echo_message_at(1,3,4) ECHO_REPLY_def ECHO_REQUEST_def Let_def)

lemma ethernet_handle_icmp:
  assumes "ip_header PROTO_ICMP IP dst (word_of_nat (20 + length msg)) = Some h" and "length msg \<le> 65515"
  shows "ethernet_handle (eth_frame d m ETHERTYPE_IP (h @ msg)) s = icmp_handle IP msg
    (println ''[ip] {} -> {} proto={} len={}'' [AStr (ip_fmt IP), AStr (ip_fmt IP), ANum (unat PROTO_ICMP), ANum (20 + length msg)] s)"
    and "length h = 20"
  using ip_handle_built [OF assms, of s] by (simp_all add: ethernet_handle_ip ip_dispatch_def Let_def del: of_nat_add)

lemma ping_sends:
  assumes "drv_ok s"
  obtains k h p s' where "ping dst sq s = Some s'"
    "ip_header PROTO_ICMP IP dst (word_of_nat (20 + length (echo_message ECHO_REQUEST k 0x5f sq p))) = Some h"
    "length p = 16" "driver_of s' = driver_of (after_send (eth_frame (next_hop_mac dst s) (our_mac s) ETHERTYPE_IP
       (h @ echo_message ECHO_REQUEST k 0x5f sq p)) s)"
proof -
  define p where "p = str ''simplelinux-ping''"
  have len: "length p = 16"
    by (simp add: p_def)
  then obtain k where k: "echo_request 0x5f sq p = Some (echo_message ECHO_REQUEST k 0x5f sq p)"
    using echo_request_built [of p "0x5f" sq] by auto
  define msg where "msg = echo_message ECHO_REQUEST k 0x5f sq p"
  define s1 where "s1 = println ''[icmp] ping {}.{}.{}.{} seq={} ({} bytes)'' (ip_args dst @ [ANum (unat sq), ANum (length msg)]) s"
  have "length msg \<le> 65515"
    using len by (simp add: msg_def echo_message_at)
  then obtain h where h: "ip_header PROTO_ICMP IP dst (word_of_nat (20 + length msg)) = Some h"
      "ip_send dst PROTO_ICMP msg s1 = e1000_send (eth_frame (next_hop_mac dst s1) (our_mac s1) ETHERTYPE_IP (h @ msg)) s1"
    by (rule ip_send_built)
  let ?f = "eth_frame (next_hop_mac dst s) (our_mac s) ETHERTYPE_IP (h @ msg)"
  have same: "next_hop_mac dst s1 = next_hop_mac dst s" "our_mac s1 = our_mac s" "drv_ok s1" "driver_of s1 = driver_of s"
    using assms by (simp_all add: s1_def)
  have "ping dst sq s = Some (after_send ?f s1)"
    using h(2) same by (simp add: ping_def p_def [symmetric] k msg_def [symmetric] s1_def [symmetric] e1000_send_after Let_def)
  moreover have "driver_of (after_send ?f s1) = driver_of (after_send ?f s)"
    by (rule driver_after_send) (rule same)
  ultimately show thesis
    using that h(1) len unfolding msg_def by blast
qed

text \<open>C19. Ping works end to end: the frame a ping sends, handled by another machine, makes that machine send
  exactly one frame back whose IPv4 header and ICMP message both verify, and that frame,
  handled by the machine that pinged, is reported as an echo reply with the identifier and
  sequence number of the ping.\<close>

theorem ping_round_trip:
  assumes "drv_ok a" and "NIC a \<noteq> None" and "drv_ok b" and "NIC b \<noteq> None"
  shows "\<exists>f a1 t b1 g h msg a2. ping dst sq a = Some a1 \<and> e1000_send f a = Some (True, t) \<and> driver_of a1 = driver_of t \<and>
    ethernet_handle f b = Some b1 \<and>
    (\<exists>u. e1000_send g b = Some (True, u) \<and> driver_of b1 = driver_of u) \<and>
    drop 14 g = h @ msg \<and> length h = 20 \<and> checksum h = Some 0 \<and> checksum msg = Some 0 \<and>
    ethernet_handle g a1 = Some a2 \<and>
    last (serial a2) = Print (''[icmp] echo reply from {}.{}.{}.{} id={:#x} seq={}'' @ [CHR 0x0A])
      (ip_args IP @ [ANum 0x5f, ANum (unat sq)])"
proof -
  obtain k h p a1 where a1: "ping dst sq a = Some a1"
      "ip_header PROTO_ICMP IP dst (word_of_nat (20 + length (echo_message ECHO_REQUEST k 0x5f sq p))) = Some h"
      "length p = 16" "driver_of a1 = driver_of (after_send (eth_frame (next_hop_mac dst a) (our_mac a) ETHERTYPE_IP
         (h @ echo_message ECHO_REQUEST k 0x5f sq p)) a)"
    by (rule ping_sends [OF assms(1)])
  define f where "f = eth_frame (next_hop_mac dst a) (our_mac a) ETHERTYPE_IP (h @ echo_message ECHO_REQUEST k 0x5f sq p)"
  define b0 where "b0 = println ''[ip] {} -> {} proto={} len={}'' [AStr (ip_fmt IP), AStr (ip_fmt IP), ANum (unat PROTO_ICMP),
      ANum (20 + length (echo_message ECHO_REQUEST k 0x5f sq p))] b"
  have small: "length (echo_message t c 0x5f sq p) \<le> 65515" for t c
    using a1(3) by (simp add: echo_message_at)
  have fb: "ethernet_handle f b = icmp_handle IP (echo_message ECHO_REQUEST k 0x5f sq p) b0"
    unfolding f_def b0_def by (rule ethernet_handle_icmp [OF a1(2) small])
  have p: "length p \<le> 65507" and b0: "drv_ok b0" "driver_of b0 = driver_of b"
      "next_hop_mac IP b0 = next_hop_mac IP b" "our_mac b0 = our_mac b"
    using a1(3) assms(3) by (simp_all add: b0_def)
  obtain c h' b1 where b1: "icmp_handle IP (echo_message ECHO_REQUEST k 0x5f sq p) b0 = Some b1"
      "ip_header PROTO_ICMP IP IP (word_of_nat (20 + length (echo_message ECHO_REPLY c 0x5f sq p))) = Some h'"
      "checksum h' = Some 0" "checksum (echo_message ECHO_REPLY c 0x5f sq p) = Some 0"
      "driver_of b1 = driver_of (after_send (eth_frame (next_hop_mac IP b0) (our_mac b0) ETHERTYPE_IP
          (h' @ echo_message ECHO_REPLY c 0x5f sq p)) b0)"
    by (rule icmp_handle_request [OF p b0(1)])
  define g where "g = eth_frame (next_hop_mac IP b) (our_mac b) ETHERTYPE_IP (h' @ echo_message ECHO_REPLY c 0x5f sq p)"
  have drv: "driver_of b1 = driver_of (after_send g b)"
    using b1(5) driver_after_send [OF b0(2)] by (simp add: g_def b0)
  have drop: "drop 14 g = h' @ echo_message ECHO_REPLY c 0x5f sq p"
    by (simp add: g_def eth_frame_parts)
  have ga: "ethernet_handle g a1 = Some (println ''[icmp] echo reply from {}.{}.{}.{} id={:#x} seq={}''
       (ip_args IP @ [ANum (unat (0x5f :: u16)), ANum (unat sq)])
       (println ''[ip] {} -> {} proto={} len={}'' [AStr (ip_fmt IP), AStr (ip_fmt IP), ANum (unat PROTO_ICMP),
          ANum (20 + length (echo_message ECHO_REPLY c 0x5f sq p))] a1))"
    unfolding g_def ethernet_handle_icmp(1) [OF b1(2) small] by (rule icmp_handle_reply)
  have sent: "e1000_send f a = Some (True, after_send f a)" "e1000_send g b = Some (True, after_send g b)"
    using assms by (simp_all add: e1000_send_after)
  show ?thesis
    using a1(1,4) [folded f_def] sent fb [unfolded b1(1)] drv drop ga b1(3,4) ethernet_handle_icmp(2) [OF b1(2) small]
    by (intro exI conjI) (assumption | simp add: println_def print_def)+
qed

theorem ping_round_trip_witness:
  "\<exists>f a1 b1 g a2. ping GATEWAY 1 demo_net = Some a1 \<and> ethernet_handle f bound_net = Some b1 \<and>
    ethernet_handle g a1 = Some a2 \<and>
    last (serial a2) = Print (''[icmp] echo reply from {}.{}.{}.{} id={:#x} seq={}'' @ [CHR 0x0A])
      [ANum 10, ANum 0, ANum 2, ANum 15, ANum 0x5f, ANum 1]"
proof -
  have "drv_ok bound_net" "NIC bound_net \<noteq> None" "NIC demo_net \<noteq> None"
    using demo_net_ok by (simp_all add: bound_net_def drv_ok_def demo_net_def)
  moreover have "ip_args IP @ [ANum 0x5f, ANum (unat (1 :: u16))] = [ANum 10, ANum 0, ANum 2, ANum 15, ANum 0x5f, ANum 1]"
    by (simp add: ip_args_def IP_def byte_args_def ip_bytes_def)
  ultimately show ?thesis
    using ping_round_trip [OF demo_net_ok, of bound_net GATEWAY 1] by metis
qed

section \<open>Totality of the receive path\<close>

text \<open>The frames that make the decoder panic: an IPv4 packet whose header length exceeds what is there of
  its total length, and a TCP SYN with the largest sequence number.\<close>

definition tcp_crashes :: "byte list \<Rightarrow> bool" where
  "tcp_crashes t \<longleftrightarrow> 20 \<le> length t \<and> from_be16 [t ! 12, t ! 13] AND SYN \<noteq> 0 \<and> from_be16 [t ! 12, t ! 13] AND ACK = 0 \<and>
     from_be32 [t ! 4, t ! 5, t ! 6, t ! 7] = 0xffffffff"

definition ip_crashes :: "byte list \<Rightarrow> bool" where
  "ip_crashes pkt \<longleftrightarrow> 20 \<le> length pkt \<and> drop_bit 4 (pkt ! 0) = 4 \<and>
     (let lo = max (unat (pkt ! 0 AND 0x0f) * 4) 20; hi = min (unat (from_be16 [pkt ! 2, pkt ! 3])) (length pkt)
      in hi < lo \<or> pkt ! 9 = PROTO_TCP \<and> tcp_crashes (take (hi - lo) (drop lo pkt)))"

definition crashes :: "byte list \<Rightarrow> bool" where
  "crashes f \<longleftrightarrow> 14 \<le> length f \<and> from_be16 [f ! 12, f ! 13] = ETHERTYPE_IP \<and> ip_crashes (drop 14 f)"

text \<open>What handling a frame may do to the driver: nothing, or the sending of one frame of at most the given
  length.\<close>

definition answers :: "nat \<Rightarrow> 'a net_scheme \<Rightarrow> 'a net_scheme \<Rightarrow> bool" where
  "answers k s s' \<longleftrightarrow> drv_ok s' \<and> (driver_of s' = driver_of s \<or> (\<exists>g. length g \<le> k \<and> driver_of s' = driver_of (after_send g s)))"

lemma answers_quiet [intro]: "drv_ok s' \<Longrightarrow> driver_of s' = driver_of s \<Longrightarrow> answers k s s'"
  by (simp add: answers_def)

lemma answers_mono: "answers k s s' \<Longrightarrow> k \<le> l \<Longrightarrow> answers l s s'"
  unfolding answers_def by (meson order_trans)

lemma answers_println [simp]: "answers k (println x a s) s' = answers k s s'" "answers k s (println x a s') = answers k s s'"
  using driver_after_send [of "println x a s" s] by (simp_all add: answers_def)

lemma ip_send_after:
  assumes "drv_ok s"
  shows "\<exists>r s'. ip_send dst proto body s = Some (r, s') \<and> answers (34 + length body) s s'"
proof -
  obtain c where c: "ip_header proto IP dst (word_of_nat (20 + length body)) =
      Some ([0x45, 0] @ be16 (word_of_nat (20 + length body)) @ [0, 1, 0x40, 0, 64, proto] @ be16 c @ ip_bytes IP @ ip_bytes dst)"
    by (rule ip_header_built)
  define h where "h = [0x45, 0] @ be16 (word_of_nat (20 + length body)) @ [0, 1, 0x40, 0, 64, proto] @ be16 c @ ip_bytes IP @ ip_bytes dst"
  let ?g = "eth_frame (next_hop_mac dst s) (our_mac s) ETHERTYPE_IP (h @ body)"
  have "ip_send dst proto body s = Some (NIC s \<noteq> None, after_send ?g s)"
    using c [folded h_def] assms by (simp add: ip_send_def IP_HEADER_LEN_def transmit_after)
  moreover have "length ?g = 34 + length body"
    by (simp add: eth_frame_parts h_def)
  then have "answers (34 + length body) s (after_send ?g s)"
    using assms unfolding answers_def by (metis drv_ok_after_send order_refl)
  ultimately show ?thesis
    by blast
qed

lemma echo_reply_Some:
  assumes "8 \<le> length msg" and "length msg \<le> 65535"
  shows "\<exists>m. echo_reply msg = Some m \<and> length m = length msg"
proof -
  let ?m = "msg[0 := ECHO_REPLY, 1 := 0, 2 := 0, 3 := 0]"
  obtain c where "checksum ?m = Some c"
    using checksum_Some [of ?m] assms(2) by auto
  then show ?thesis
    using assms(1) by (cases msg) (auto simp: echo_reply_def put_def copy_at_def)
qed

lemma icmp_handle_total:
  assumes "drv_ok s" and "length msg \<le> 65535"
  shows "\<exists>s'. icmp_handle src msg s = Some s' \<and> answers (34 + length msg) s s'"
proof (cases "8 \<le> length msg \<and> msg ! 0 = ECHO_REQUEST")
  case True
  then obtain m where m: "echo_reply msg = Some m" "length m = length msg"
    using echo_reply_Some assms(2) by blast
  let ?s = "println ''[icmp] echo request from {}.{}.{}.{} ({} data bytes) -> reply'' (ip_args src @ [ANum (length msg - 8)]) s"
  obtain r s' where "ip_send src PROTO_ICMP m ?s = Some (r, s')" "answers (34 + length m) ?s s'"
    using ip_send_after [of ?s src PROTO_ICMP m] assms(1) by auto
  with True m show ?thesis
    by (simp add: icmp_handle_def)
qed (use assms in \<open>auto simp: icmp_handle_def Let_def answers_quiet\<close>)

lemma udp_handle_total:
  assumes "drv_ok s"
  shows "\<exists>s'. udp_handle src d s = Some s' \<and> answers k s s'"
proof (cases "length d < 8")
  case True
  with assms show ?thesis
    by (auto simp: udp_handle_def UDP_HEADER_LEN_def)
next
  case False
  then obtain p where "slice 8 (min (max (unat (from_be16 [d ! 4, d ! 5])) 8) (length d)) d = Some p"
    by (simp add: slice_def)
  with False assms show ?thesis
    by (simp add: udp_handle_def UDP_HEADER_LEN_def Let_def deliver_spec answers_def)
qed

lemma tcp_segment_Some: "\<exists>t. tcp_segment sport dport sq ack flags [] dst = Some t \<and> length t = 20"
proof -
  let ?t = "be16 sport @ be16 dport @ be32 sq @ be32 ack @ be16 (push_bit 12 (word_of_nat 5) OR flags) @ be16 536 @ be16 0 @ be16 0"
  have "length ?t = 20"
    by simp
  moreover from this obtain c where "checksum (udp_pseudo PROTO_TCP dst 20 ?t) = Some c"
    using checksum_Some [of "udp_pseudo PROTO_TCP dst 20 ?t"] by (auto simp: udp_pseudo_def)
  ultimately show ?thesis
    by (simp add: tcp_segment_def TCP_HEADER_LEN_def copy_at_def)
qed

lemma tcp_handle_total:
  assumes "drv_ok s"
  shows "if tcp_crashes t then tcp_handle src t s = None
    else \<exists>s'. tcp_handle src t s = Some s' \<and> answers (34 + length t) s s'"
proof (cases "20 \<le> length t \<and> from_be16 [t ! 12, t ! 13] AND SYN \<noteq> 0 \<and> from_be16 [t ! 12, t ! 13] AND ACK = 0")
  case False
  then show ?thesis
    using assms by (auto simp: tcp_handle_def tcp_crashes_def TCP_HEADER_LEN_def Let_def)
next
  case True
  define sq where "sq = from_be32 [t ! 4, t ! 5, t ! 6, t ! 7]"
  have top: "unat sq + 1 < 2 ^ 32 \<longleftrightarrow> sq \<noteq> 0xffffffff"
    using unat_less [of sq] by (auto simp: word_unat_eq_iff)
  show ?thesis
  proof (cases "sq = 0xffffffff")
    case True
    then show ?thesis
      using \<open>20 \<le> length t \<and> _\<close> top
      by (simp add: tcp_crashes_def tcp_handle_def TCP_HEADER_LEN_def Let_def checked_add_def flip: sq_def)
  next
    case False
    define s1 where "s1 = println ''[tcp] {}.{}.{}.{}:{} -> :{} {} seq={} ack={}''
      (ip_args src @ [ANum (unat (from_be16 [t ! 0, t ! 1])), ANum (unat (from_be16 [t ! 2, t ! 3])),
         AStr (str (flag_names (from_be16 [t ! 12, t ! 13]))), ANum (unat sq), ANum (unat (from_be32 [t ! 8, t ! 9, t ! 10, t ! 11]))]) s"
    obtain u where u: "tcp_segment (from_be16 [t ! 2, t ! 3]) (from_be16 [t ! 0, t ! 1]) 1000 (sq + 1) (SYN OR ACK) [] src = Some u"
        "length u = 20"
      using tcp_segment_Some by blast
    obtain r s' where "ip_send src PROTO_TCP u s1 = Some (r, s')" "answers (34 + length u) s1 s'"
      using ip_send_after [of s1 src PROTO_TCP u] assms by (auto simp: s1_def)
    moreover from this(2) have "answers (34 + length t) s s'"
      using True u(2) by (auto simp: s1_def intro: answers_mono)
    ultimately show ?thesis
      using True False top u(1)
      unfolding s1_def by (simp add: tcp_crashes_def tcp_handle_def TCP_HEADER_LEN_def checked_add_def Let_def flip: sq_def)
  qed
qed

lemma length_arp_reply_frame: "length (arp_reply_frame p m) = 42"
  by (simp add: arp_reply_frame_def eth_frame_parts arp_payload_fields)

lemma arp_handle_total:
  assumes "drv_ok s"
  shows "\<exists>s'. arp_handle p s = Some s' \<and> answers (14 + length p) s s'"
proof (cases "length p < 28")
  case True
  then show ?thesis
    using assms by (auto simp: arp_handle_def)
next
  case False
  then show ?thesis
    using arp_handle_spec [OF assms, of p] length_arp_reply_frame [of p "our_mac s"]
    unfolding answers_def by (cases "asks_us p") (fastforce intro: exI [of _ "arp_reply_frame p (our_mac s)"])+
qed

lemma ip_handle_total:
  assumes "drv_ok s"
  shows "if ip_crashes pkt then ip_handle pkt s = None
    else \<exists>s'. ip_handle pkt s = Some s' \<and> answers (14 + length pkt) s s'"
proof (cases "20 \<le> length pkt \<and> drop_bit 4 (pkt ! 0) = 4")
  case False
  then show ?thesis
    using assms by (auto simp: ip_handle_def ip_crashes_def IP_HEADER_LEN_def)
next
  case True
  define lo where "lo = max (unat (pkt ! 0 AND 0x0f) * 4) 20"
  define hi where "hi = min (unat (from_be16 [pkt ! 2, pkt ! 3])) (length pkt)"
  show ?thesis
  proof (cases "hi < lo")
    case True
    then have "slice lo hi pkt = None"
      by (simp add: slice_def)
    with True \<open>20 \<le> length pkt \<and> _\<close> show ?thesis
      by (simp add: ip_crashes_def ip_handle_def IP_HEADER_LEN_def Let_def flip: lo_def hi_def)
  next
    case False
    define body where "body = take (hi - lo) (drop lo pkt)"
    define s1 where "s1 = println ''[ip] {} -> {} proto={} len={}'' [AStr (ip_fmt (ip_at 12 pkt)), AStr (ip_fmt IP),
      ANum (unat (pkt ! 9)), ANum (unat (from_be16 [pkt ! 2, pkt ! 3]))] s"
    have ok: "drv_ok s1"
      using assms by (simp add: s1_def)
    have len: "length body \<le> 65535" "34 + length body \<le> 14 + length pkt"
      using False True unat_less [of "from_be16 [pkt ! 2, pkt ! 3]"] by (auto simp: body_def hi_def lo_def)
    have "hi \<le> length pkt"
      by (simp add: hi_def)
    then have "slice lo hi pkt = Some body"
      using False by (simp add: slice_def body_def)
    then have eq: "ip_handle pkt s = ip_dispatch (pkt ! 9) (ip_at 12 pkt) (unat (from_be16 [pkt ! 2, pkt ! 3])) body s"
      using True unfolding lo_def hi_def by (intro ip_handle_dispatch) auto
    have crash: "ip_crashes pkt \<longleftrightarrow> pkt ! 9 = PROTO_TCP \<and> tcp_crashes body"
      using True False by (simp add: ip_crashes_def Let_def flip: lo_def hi_def body_def)
    consider "pkt ! 9 = PROTO_ICMP" | "pkt ! 9 = PROTO_UDP" | "pkt ! 9 = PROTO_TCP"
      | "pkt ! 9 \<noteq> PROTO_ICMP" "pkt ! 9 \<noteq> PROTO_UDP" "pkt ! 9 \<noteq> PROTO_TCP"
      by blast
    then show ?thesis
    proof cases
      case 1
      then show ?thesis
        using icmp_handle_total [OF ok len(1), of "ip_at 12 pkt"] answers_mono [OF _ len(2)]
        by (auto simp: eq crash ip_dispatch_def PROTO_ICMP_def PROTO_TCP_def s1_def)
    next
      case 2
      then show ?thesis
        using udp_handle_total [OF ok, of "ip_at 12 pkt" body "14 + length pkt"]
        by (auto simp: eq crash ip_dispatch_def PROTO_ICMP_def PROTO_UDP_def PROTO_TCP_def s1_def)
    next
      case 3
      then show ?thesis
        using tcp_handle_total [OF ok, of body "ip_at 12 pkt"] answers_mono [OF _ len(2)]
        by (auto simp: eq crash ip_dispatch_def PROTO_ICMP_def PROTO_UDP_def PROTO_TCP_def s1_def split: if_splits)
    next
      case 4
      then show ?thesis
        using assms by (auto simp: eq crash ip_dispatch_def)
    qed
  qed
qed

lemma ethernet_handle_total:
  assumes "drv_ok s"
  shows "if crashes f then ethernet_handle f s = None
    else \<exists>s'. ethernet_handle f s = Some s' \<and> answers (length f) s s'"
proof (cases "length f < 14")
  case True
  then show ?thesis
    using assms by (auto simp: ethernet_handle_def ETH_HEADER_LEN_def crashes_def)
next
  case False
  let ?p = "drop 14 f"
  have len: "14 + length ?p = length f"
    using False by simp
  consider "from_be16 [f ! 12, f ! 13] = ETHERTYPE_ARP" | "from_be16 [f ! 12, f ! 13] = ETHERTYPE_IP"
    | "from_be16 [f ! 12, f ! 13] \<noteq> ETHERTYPE_ARP" "from_be16 [f ! 12, f ! 13] \<noteq> ETHERTYPE_IP"
    by blast
  then show ?thesis
  proof cases
    case 1
    then have "ethernet_handle f s = arp_handle ?p s" "\<not> crashes f"
      using False by (simp_all add: ethernet_handle_def ETH_HEADER_LEN_def crashes_def ETHERTYPE_ARP_def ETHERTYPE_IP_def)
    then show ?thesis
      using arp_handle_total [OF assms, of ?p] unfolding len by simp
  next
    case 2
    then have "ethernet_handle f s = ip_handle ?p s" "crashes f \<longleftrightarrow> ip_crashes ?p"
      using False by (simp_all add: ethernet_handle_def ETH_HEADER_LEN_def crashes_def ETHERTYPE_ARP_def ETHERTYPE_IP_def)
    then show ?thesis
      using ip_handle_total [OF assms, of ?p] unfolding len by simp
  next
    case 3
    then show ?thesis
      using assms False by (auto simp: ethernet_handle_def ETH_HEADER_LEN_def crashes_def)
  qed
qed

text \<open>C18. Handling a received frame panics in exactly two cases, and is otherwise bounded work: the frame is an
  IPv4 packet whose header length field reaches past its total length or past the bytes
  received, or it is a TCP SYN whose sequence number is the largest. In every other case the
  handler returns, and it has sent nothing or a single frame no longer than the one received.\<close>

theorem receive_panics_iff:
  assumes "drv_ok s"
  shows "(ethernet_handle f s = None \<longleftrightarrow> crashes f) \<and>
    (\<forall>s'. ethernet_handle f s = Some s' \<longrightarrow> drv_ok s' \<and>
       (driver_of s' = driver_of s \<or>
        (\<exists>g t. length g \<le> length f \<and> e1000_send g s = Some (NIC s \<noteq> None, t) \<and> driver_of s' = driver_of t)))"
proof (cases "crashes f")
  case True
  then show ?thesis
    using ethernet_handle_total [OF assms, of f] by simp
next
  case False
  then obtain s' where "ethernet_handle f s = Some s'" "answers (length f) s s'"
    using ethernet_handle_total [OF assms, of f] by auto
  with False e1000_send_after [OF assms] show ?thesis
    by (auto simp: answers_def)
qed

theorem receive_panics_iff_witness:
  "ethernet_handle (replicate 12 0 @ [8, 0, 0x4f] @ replicate 19 0) demo_net = None \<and>
   ethernet_handle (replicate 12 0 @ [8, 0, 0x45, 0, 0, 20] @ replicate 16 0) demo_net \<noteq> None"
proof -
  have "crashes (replicate 12 0 @ [8, 0, 0x4f] @ replicate 19 0)"
    "\<not> crashes (replicate 12 0 @ [8, 0, 0x45, 0, 0, 20] @ replicate 16 0)"
    by code_simp+
  then show ?thesis
    using receive_panics_iff [OF demo_net_ok] by blast
qed

lemma rx_pending_driver: "driver_of s = driver_of t \<Longrightarrow> rx_pending s fs = rx_pending t fs"
  by (simp add: rx_pending_def driver_of_def)

lemma rx_pending_answers:
  assumes "rx_pending s fs" and "answers k s s'" and "k \<le> 4096"
  shows "rx_pending s' fs"
proof -
  have "rx_pending (after_send g s) fs" if "length g \<le> k" for g
  proof -
    have "drv_ok s"
      using assms(1) by (auto simp: rx_pending_def drv_ok_def)
    then show ?thesis
      using rx_pending_send [OF assms(1) e1000_send_after] that assms(3) by simp
  qed
  then show ?thesis
    using assms(1,2) rx_pending_driver unfolding answers_def by metis
qed

lemma rx_pending_frames: "rx_pending s fs \<Longrightarrow> drv_ok s \<and> length fs \<le> 8 \<and> (\<forall>f\<in>set fs. length f \<le> 4096)"
  by (auto simp: rx_pending_def drv_ok_def Let_def in_set_conv_nth)

lemma pump_from_drains:
  assumes "rx_pending s fs" and "n + length fs < 16"
  shows "if \<exists>f\<in>set fs. crashes f then pump_from n s = None
    else \<exists>s'. pump_from n s = Some (n + length fs, s') \<and> rx_pending s' []"
  using assms
proof (induction fs arbitrary: n s)
  case Nil
  then show ?case
    by (simp add: poll_receive_empty pump_from.simps)
next
  case (Cons f fs)
  obtain s1 where s1: "poll_receive s = Some (Some f, s1)" "rx_pending s1 fs"
    by (rule poll_receive_pop [OF Cons.prems(1)])
  have f: "length f \<le> 4096" "drv_ok s1"
    using rx_pending_frames [OF Cons.prems(1)] rx_pending_frames [OF s1(2)] by auto
  show ?case
  proof (cases "crashes f")
    case True
    then show ?thesis
      using ethernet_handle_total [OF f(2), of f] s1(1) by (simp add: pump_from.simps)
  next
    case False
    then obtain s2 where s2: "ethernet_handle f s1 = Some s2" "answers (length f) s1 s2"
      using ethernet_handle_total [OF f(2), of f] by auto
    then have "rx_pending s2 fs"
      using rx_pending_answers s1(2) f(1) by blast
    then show ?thesis
      using Cons.IH [of s2 "n + 1"] Cons.prems(2) s1(1) s2(1) False by (auto simp: pump_from.simps [of n] split: if_splits)
  qed
qed


definition quiet_net :: net where
  "quiet_net = dma_receive 6 (replicate 14 0) demo_net"


end
