(* ===== verification/Utf8.thy ===== *)
theory Utf8
  imports Prelude
begin

unbundle bit_operations_syntax

text \<open>
  Rust strings are valid UTF-8. This theory models what the kernel uses of the standard
  library for the passage from bytes to strings: the check of \<open>from_utf8\<close>, the repair of
  \<open>from_utf8_lossy\<close>, splitting at an ASCII separator, and decimal parsing of a \<open>u8\<close>.
\<close>

section \<open>One encoded character\<close>

definition byte_at :: "byte list \<Rightarrow> nat \<Rightarrow> byte" where
  "byte_at bs i = (if i < length bs then bs ! i else 0)"

definition cont_byte :: "byte \<Rightarrow> bool" where
  "cont_byte b \<longleftrightarrow> 0x80 \<le> b \<and> b \<le> 0xbf"

definition second_of_three :: "byte \<Rightarrow> byte \<Rightarrow> bool" where
  "second_of_three b c \<longleftrightarrow>
     (b = 0xe0 \<and> 0xa0 \<le> c \<and> c \<le> 0xbf) \<or> (0xe1 \<le> b \<and> b \<le> 0xec \<and> cont_byte c) \<or>
     (b = 0xed \<and> 0x80 \<le> c \<and> c \<le> 0x9f) \<or> (0xee \<le> b \<and> b \<le> 0xef \<and> cont_byte c)"

definition second_of_four :: "byte \<Rightarrow> byte \<Rightarrow> bool" where
  "second_of_four b c \<longleftrightarrow>
     (b = 0xf0 \<and> 0x90 \<le> c \<and> c \<le> 0xbf) \<or> (0xf1 \<le> b \<and> b \<le> 0xf3 \<and> cont_byte c) \<or>
     (b = 0xf4 \<and> 0x80 \<le> c \<and> c \<le> 0x8f)"

text \<open>How many bytes at the head of a non-empty input form one unit, and whether they are a character:
  an ill-formed unit is the longest part of the input that could have begun one.\<close>

definition utf8_unit :: "byte list \<Rightarrow> nat \<times> bool" where
  "utf8_unit bs =
     (let b = byte_at bs 0 in
      if b < 0x80 then (1, True)
      else if 0xc2 \<le> b \<and> b \<le> 0xdf then (if cont_byte (byte_at bs 1) then (2, True) else (1, False))
      else if 0xe0 \<le> b \<and> b \<le> 0xef then
        (if \<not> second_of_three b (byte_at bs 1) then (1, False)
         else if cont_byte (byte_at bs 2) then (3, True) else (2, False))
      else if 0xf0 \<le> b \<and> b \<le> 0xf4 then
        (if \<not> second_of_four b (byte_at bs 1) then (1, False)
         else if \<not> cont_byte (byte_at bs 2) then (2, False)
         else if cont_byte (byte_at bs 3) then (4, True) else (3, False))
      else (1, False))"

lemma utf8_unit_pos: "0 < fst (utf8_unit bs)"
  by (simp add: utf8_unit_def Let_def)

lemma not_cont_0 [simp]: "\<not> cont_byte 0" "\<not> second_of_three b 0" "\<not> second_of_four b 0"
  by (simp_all add: cont_byte_def second_of_three_def second_of_four_def)

lemma byte_at_cont:
  "cont_byte (byte_at bs i) \<Longrightarrow> i < length bs" "second_of_three b (byte_at bs i) \<Longrightarrow> i < length bs"
  "second_of_four b (byte_at bs i) \<Longrightarrow> i < length bs"
  by (auto simp: byte_at_def split: if_splits)

lemma utf8_unit_length: "bs \<noteq> [] \<Longrightarrow> fst (utf8_unit bs) \<le> length bs"
  unfolding utf8_unit_def Let_def
  by (simp add: Suc_le_eq numeral_eq_Suc byte_at_cont)

section \<open>Validity and repair\<close>

function valid_utf8 :: "byte list \<Rightarrow> bool" where
  "valid_utf8 bs =
     (if bs = [] then True
      else if snd (utf8_unit bs) then valid_utf8 (drop (fst (utf8_unit bs)) bs)
      else False)"
  by pat_completeness auto
termination
  by (relation "measure length") (use utf8_unit_pos in \<open>auto simp: diff_less\<close>)

declare valid_utf8.simps [simp del]

text \<open>\<open>from_utf8\<close>: the string when the bytes are one.\<close>

definition from_utf8 :: "byte list \<Rightarrow> byte list option" where
  "from_utf8 bs = (if valid_utf8 bs then Some bs else None)"

text \<open>\<open>from_utf8_lossy\<close>: every ill-formed unit becomes the replacement character.\<close>

definition REPLACEMENT :: "byte list" where
  "REPLACEMENT = [0xef, 0xbf, 0xbd]"

function utf8_lossy :: "byte list \<Rightarrow> byte list" where
  "utf8_lossy bs =
     (if bs = [] then []
      else (if snd (utf8_unit bs) then take (fst (utf8_unit bs)) bs else REPLACEMENT)
        @ utf8_lossy (drop (fst (utf8_unit bs)) bs))"
  by pat_completeness auto
termination
  by (relation "measure length") (use utf8_unit_pos in \<open>auto simp: diff_less\<close>)

declare utf8_lossy.simps [simp del]

lemma utf8_lossy_valid: "valid_utf8 bs \<Longrightarrow> utf8_lossy bs = bs"
proof (induction bs rule: utf8_lossy.induct)
  case (1 bs)
  then show ?case
    by (simp add: utf8_lossy.simps [of bs] valid_utf8.simps [of bs] split: if_splits)
qed

lemma valid_utf8_ascii: "\<forall>b\<in>set bs. b < 0x80 \<Longrightarrow> valid_utf8 bs"
proof (induction bs)
  case (Cons b bs)
  then have "utf8_unit (b # bs) = (1, True)"
    by (simp add: utf8_unit_def byte_at_def)
  with Cons show ?case
    by (simp add: valid_utf8.simps [of "b # bs"])
qed (simp add: valid_utf8.simps)

section \<open>Splitting\<close>

fun split_on :: "byte \<Rightarrow> byte list \<Rightarrow> byte list list" where
  "split_on c [] = [[]]"
| "split_on c (b # bs) =
     (if b = c then [] # split_on c bs
      else (case split_on c bs of [] \<Rightarrow> [[b]] | w # ws \<Rightarrow> (b # w) # ws))"

text \<open>\<open>path.split('/').filter(|c| !c.is_empty())\<close>\<close>

definition components :: "byte list \<Rightarrow> byte list list" where
  "components path = filter (\<lambda>c. c \<noteq> []) (split_on 0x2f path)"

lemma split_on_ne [simp]: "split_on c bs \<noteq> []"
  by (induction bs) (auto split: list.splits)

lemma split_on_fresh: "c \<notin> set w \<Longrightarrow> split_on c w = [w]"
  by (induction w) auto

lemma split_on_append: "c \<notin> set w \<Longrightarrow> split_on c (w @ c # bs) = w # split_on c bs"
  by (induction w) auto

text \<open>Joining is the inverse of splitting when no part contains the separator.\<close>

fun join_with :: "byte \<Rightarrow> byte list list \<Rightarrow> byte list" where
  "join_with c [] = []"
| "join_with c [w] = w"
| "join_with c (w # v # ws) = w @ c # join_with c (v # ws)"

lemma split_on_join_with:
  "ws \<noteq> [] \<Longrightarrow> \<forall>w\<in>set ws. c \<notin> set w \<Longrightarrow> split_on c (join_with c ws) = ws"
  by (induction c ws rule: join_with.induct) (auto simp: split_on_append split_on_fresh)

lemma components_join:
  assumes "\<forall>w\<in>set ws. w \<noteq> [] \<and> 0x2f \<notin> set w"
  shows "components (join_with 0x2f ws) = ws" and "components (0x2f # join_with 0x2f ws) = ws"
proof -
  have "filter (\<lambda>c. c \<noteq> []) ws = ws"
    using assms by (simp add: filter_id_conv)
  then show "components (join_with 0x2f ws) = ws" and "components (0x2f # join_with 0x2f ws) = ws"
    using split_on_join_with [of ws "0x2f"] assms
    by (cases "ws = []"; simp add: components_def)+
qed

end
