(* ===== verification/Initrd.thy ===== *)
theory Initrd
  imports Utf8 Fs_Error "HOL-Library.Sublist"
begin

unbundle bit_operations_syntax

text \<open>
  The initial ramdisk (\<open>fs/initrd.rs\<close>): the parser of ustar archives and the tree of nodes it
  builds. The parser is modelled with its panics (\<open>None\<close>); the tree is a datatype, a node
  being reachable only through its parent while the tree is built, so that pushing into a
  shared child is the update of that child in its parent. Two properties: whatever the bytes,
  parsing returns; and for the archives the ustar format describes, every path of the tree
  holds what the first entry that creates it says.
\<close>

section \<open>Parsing\<close>

definition BLOCK :: nat where "BLOCK = 512"

record entry =
  e_path :: "byte list"
  e_data :: "byte list"
  is_dir :: bool

definition read_cstr :: "byte list \<Rightarrow> byte list" where
  "read_cstr field =
     (let fin = (case position (\<lambda>b. b = 0) field of Some i \<Rightarrow> i | None \<Rightarrow> length field)
      in utf8_lossy (take fin field))"

fun octal_from :: "nat \<Rightarrow> byte list \<Rightarrow> nat option" where
  "octal_from val [] = Some val"
| "octal_from val (b # bs) =
     (if 0x30 \<le> b \<and> b \<le> 0x37 then
        (let v = val * 8 + unat (b - 0x30) in if v < 2 ^ 64 then octal_from v bs else None)
      else if b = 0x20 \<or> b = 0 then octal_from val bs
      else Some val)"

definition octal :: "byte list \<Rightarrow> nat option" where
  "octal field = octal_from 0 field"

function parse_from :: "byte list \<Rightarrow> nat \<Rightarrow> entry list option" where
  "parse_from tar pos =
     (if pos + BLOCK \<le> length tar then do {
        let hdr = take BLOCK (drop pos tar);
        if hdr ! 0 = 0 then Some []
        else do {
          let name = read_cstr (take 100 hdr);
          size \<leftarrow> octal (take 12 (drop 124 hdr));
          let typeflag = hdr ! 156;
          let body = pos + BLOCK;
          let blocks = (size + BLOCK - 1) div BLOCK;
          let dir = (typeflag = of_char (CHR ''5''));
          data \<leftarrow> (if name = [] \<or> dir then Some [] else slice body (min (body + size) (length tar)) tar);
          rest \<leftarrow> parse_from tar (body + blocks * BLOCK);
          Some ((if name = [] then [] else [\<lparr>e_path = name, e_data = data, is_dir = dir\<rparr>]) @ rest)
        }
      } else Some [])"
  by pat_completeness auto
termination
  by (relation "measure (\<lambda>(tar, pos). length tar - pos)") (auto simp: BLOCK_def)

declare parse_from.simps [simp del]

definition parse :: "byte list \<Rightarrow> entry list option" where
  "parse tar = parse_from tar 0"

section \<open>The tree\<close>

datatype node = Node (n_name: "byte list") (n_kind: file_kind) (n_data: "byte list") (children: "node list")

definition node_dir :: "byte list \<Rightarrow> node" where
  "node_dir name = Node name Dir [] []"

definition node_file :: "byte list \<Rightarrow> byte list \<Rightarrow> node" where
  "node_file name data = Node name File data []"

definition find_child :: "node \<Rightarrow> byte list \<Rightarrow> node option" where
  "find_child dir name = List.find (\<lambda>c. n_name c = name) (children dir)"

fun insert_at :: "byte list list \<Rightarrow> entry \<Rightarrow> node \<Rightarrow> node" where
  "insert_at [] e cur = cur"
| "insert_at [nm1] e (Node nm k d cs) =
     Node nm k d (cs @ [if is_dir e then node_dir nm1 else node_file nm1 (e_data e)])"
| "insert_at (nm1 # nm2 # comps) e (Node nm k d cs) =
     (case position (\<lambda>c. n_name c = nm1) cs of
        Some i \<Rightarrow> Node nm k d (cs[i := insert_at (nm2 # comps) e (cs ! i)])
      | None \<Rightarrow> Node nm k d (cs @ [insert_at (nm2 # comps) e (node_dir nm1)]))"

definition insert_entry :: "entry \<Rightarrow> node \<Rightarrow> node" where
  "insert_entry e root = insert_at (components (e_path e)) e root"

definition with_entries :: "entry list \<Rightarrow> node \<Rightarrow> node" where
  "with_entries es root = fold insert_entry es root"

definition from_tar :: "byte list \<Rightarrow> node option" where
  "from_tar tar = do {
     es \<leftarrow> parse tar;
     Some (with_entries es (node_dir (str ''/'')))
   }"

text \<open>The walk \<open>vfs::resolve\<close> makes from the root: one \<open>lookup\<close> per component.\<close>

fun walk :: "node \<Rightarrow> byte list list \<Rightarrow> node option" where
  "walk n [] = Some n"
| "walk n (c # cs) = (case find_child n c of None \<Rightarrow> None | Some m \<Rightarrow> walk m cs)"

section \<open>Parsing returns\<close>

lemma octal_from_Some:
  "val < 8 ^ k \<Longrightarrow> k + length bs \<le> 21 \<Longrightarrow> \<exists>v. octal_from val bs = Some v \<and> v < 8 ^ (k + length bs)"
proof (induction bs arbitrary: val k)
  case (Cons b bs)
  show ?case
  proof (cases "0x30 \<le> b \<and> b \<le> 0x37")
    case True
    then have "unat (b - 0x30) < 8"
      by (auto simp: word_le_nat_alt unat_sub)
    then have small: "val * 8 + unat (b - 0x30) < 8 ^ Suc k"
      using Cons.prems(1) by simp
    also have "(8 :: nat) ^ Suc k \<le> 8 ^ 21"
      using Cons.prems(2) by (intro power_increasing) auto
    finally have "val * 8 + unat (b - 0x30) < 2 ^ 64"
      by simp
    with True Cons.IH [OF small] Cons.prems(2) show ?thesis
      by simp
  next
    case False
    have "(8 :: nat) ^ k \<le> 8 ^ (k + length (b # bs))"
      by (intro power_increasing) auto
    then have "val < 8 ^ (k + length (b # bs))"
      using Cons.prems(1) by linarith
    moreover have "(8 :: nat) ^ (k + length bs) \<le> 8 ^ (k + length (b # bs))"
      by (intro power_increasing) auto
    moreover obtain v where "octal_from val bs = Some v" "v < 8 ^ (k + length bs)"
      using Cons.IH [OF Cons.prems(1)] Cons.prems(2) by auto
    ultimately show ?thesis
      using False by (cases "b = 0x20 \<or> b = 0") auto
  qed
qed simp

lemma octal_Some: "length field \<le> 12 \<Longrightarrow> \<exists>v. octal field = Some v \<and> v < 2 ^ 36"
  using octal_from_Some [of 0 0 field] power_increasing [of "length field" 12 "8 :: nat"]
  by (fastforce simp: octal_def)

lemma parse_from_total: "\<exists>es. parse_from tar pos = Some es"
proof (induction "length tar - pos" arbitrary: pos rule: less_induct)
  case less
  show ?case
  proof (cases "pos + BLOCK \<le> length tar \<and> take BLOCK (drop pos tar) ! 0 \<noteq> 0")
    case False
    then show ?thesis
      by (auto simp: parse_from.simps [of tar pos] Let_def)
  next
    case True
    let ?hdr = "take BLOCK (drop pos tar)"
    obtain size where size: "octal (take 12 (drop 124 ?hdr)) = Some size"
      using octal_Some [of "take 12 (drop 124 ?hdr)"] by auto
    have "\<exists>d. (if P then Some [] else slice (pos + BLOCK) (min (pos + BLOCK + size) (length tar)) tar) = Some d" for P
      using True by (simp add: slice_def)
    then obtain d where "(if read_cstr (take 100 ?hdr) = [] \<or> ?hdr ! 156 = of_char (CHR ''5'') then Some []
        else slice (pos + BLOCK) (min (pos + BLOCK + size) (length tar)) tar) = Some d"
      by blast
    moreover have "length tar - (pos + BLOCK + (size + BLOCK - 1) div BLOCK * BLOCK) < length tar - pos"
      by (rule diff_less_mono2) (use True in \<open>auto simp: BLOCK_def\<close>)
    then obtain es where "parse_from tar (pos + BLOCK + (size + BLOCK - 1) div BLOCK * BLOCK) = Some es"
      using less by blast
    ultimately show ?thesis
      using True size by (simp add: parse_from.simps [of tar pos] Let_def)
  qed
qed

section \<open>Archives\<close>

text \<open>
  The ustar format, as far as it is meaningful to a reader: a header block holds the path padded
  with NULs in its first hundred bytes, the size as eleven octal digits and a terminator at
  offset 124 and the type at offset 156; the data follow, padded to whole blocks; a block that
  begins with a NUL ends the archive. The other header bytes are arbitrary.
\<close>

fun oct_digits :: "nat \<Rightarrow> nat \<Rightarrow> byte list" where
  "oct_digits 0 v = []"
| "oct_digits (Suc n) v = oct_digits n (v div 8) @ [word_of_nat (48 + v mod 8)]"

definition ustar_header :: "byte list \<Rightarrow> entry \<Rightarrow> bool" where
  "ustar_header h e \<longleftrightarrow> length h = 512 \<and>
     e_path e \<noteq> [] \<and> length (e_path e) \<le> 100 \<and> 0 \<notin> set (e_path e) \<and> valid_utf8 (e_path e) \<and>
     take 100 h = e_path e @ replicate (100 - length (e_path e)) 0 \<and>
     length (e_data e) < 8 ^ 11 \<and> take 11 (drop 124 h) = oct_digits 11 (length (e_data e)) \<and> h ! 135 \<in> {0, 0x20} \<and>
     (h ! 156 = 0x35 \<longleftrightarrow> is_dir e) \<and> (is_dir e \<longrightarrow> e_data e = [])"

definition padding :: "nat \<Rightarrow> nat" where
  "padding n = (n + 511) div 512 * 512 - n"

inductive ustar :: "byte list \<Rightarrow> entry list \<Rightarrow> bool" where
  ustar_end: "512 \<le> length z \<Longrightarrow> z ! 0 = 0 \<Longrightarrow> ustar z []"
| ustar_entry: "ustar_header h e \<Longrightarrow> length pad = padding (length (e_data e)) \<Longrightarrow> ustar rest es \<Longrightarrow>
    ustar (h @ e_data e @ pad @ rest) (e # es)"

lemma length_oct_digits [simp]: "length (oct_digits n v) = n"
  by (induction n arbitrary: v) auto

lemma octal_oct_digits:
  "acc * 8 ^ n + v mod 8 ^ n < 2 ^ 64 \<Longrightarrow>
     octal_from acc (oct_digits n v @ t) = octal_from (acc * 8 ^ n + v mod 8 ^ n) t"
proof (induction n arbitrary: v t)
  case (Suc n)
  define d where "d = (word_of_nat (48 + v mod 8) :: byte)"
  have d: "unat d = 48 + v mod 8"
    by (simp add: d_def del: of_nat_add)
  then have dig: "0x30 \<le> d" "d \<le> 0x37" "unat (d - 0x30) = v mod 8"
    by (auto simp: word_le_nat_alt unat_sub)
  define x where "x = acc * 8 ^ n + v div 8 mod 8 ^ n"
  have eq: "x * 8 + v mod 8 = acc * 8 ^ Suc n + v mod 8 ^ Suc n"
    by (simp add: x_def mod_mult2_eq algebra_simps)
  then have x: "x * 8 + v mod 8 < 2 ^ 64"
    using Suc.prems by simp
  then have "octal_from acc (oct_digits (Suc n) v @ t) = octal_from x (d # t)"
    using Suc.IH [of "v div 8" "d # t"] by (simp add: d_def x_def)
  also have "\<dots> = octal_from (x * 8 + v mod 8) t"
    using dig x by (simp add: Let_def)
  finally show ?case
    by (simp only: eq)
qed simp

lemma position_append_fresh:
  assumes "\<forall>x\<in>set xs. \<not> P x" and "P y"
  shows "position P (xs @ y # ys) = Some (length xs)"
  using assms by (induction xs) auto

lemma read_cstr_padded:
  assumes "0 \<notin> set name" and "valid_utf8 name"
  shows "read_cstr (name @ replicate k 0) = name"
proof -
  have "(case position (\<lambda>b. b = 0) (name @ replicate k 0) of Some i \<Rightarrow> i | None \<Rightarrow> length (name @ replicate k 0)) = length name"
  proof (cases k)
    case 0
    then have "position (\<lambda>b. b = 0) (name @ replicate k 0) = None"
      using assms(1) by (auto simp: position_None_iff)
    with 0 show ?thesis by simp
  next
    case (Suc j)
    then have "position (\<lambda>b. b = 0) (name @ replicate k 0) = Some (length name)"
      using assms(1) position_append_fresh [of name "\<lambda>b. b = 0" 0] by (auto simp: replicate_Suc)
    then show ?thesis by simp
  qed
  then show ?thesis
    using assms(2) by (simp add: read_cstr_def utf8_lossy_valid)
qed

lemma ustar_header_fields:
  assumes "ustar_header h e"
  shows "length h = 512" "h ! 0 \<noteq> 0" "read_cstr (take 100 h) = e_path e"
    "octal (take 12 (drop 124 h)) = Some (length (e_data e))" "h ! 156 = 0x35 \<longleftrightarrow> is_dir e" "e_path e \<noteq> []"
proof -
  note h = assms [unfolded ustar_header_def]
  show "length h = 512" "h ! 156 = 0x35 \<longleftrightarrow> is_dir e" "e_path e \<noteq> []"
    using h by simp_all
  show "read_cstr (take 100 h) = e_path e"
    using h read_cstr_padded by simp
  have "h ! 0 = take 100 h ! 0"
    by (rule nth_take [symmetric]) simp
  also have "\<dots> = e_path e ! 0"
    using h by (simp add: nth_append)
  finally show "h ! 0 \<noteq> 0"
    using h by (metis length_greater_0_conv nth_mem)
  have "take 12 (drop 124 h) = take 11 (drop 124 h) @ [h ! 135]"
    using h take_Suc_conv_app_nth [of 11 "drop 124 h"] by simp
  then show "octal (take 12 (drop 124 h)) = Some (length (e_data e))"
    using h octal_oct_digits [of 0 11 "length (e_data e)" "[h ! 135]"]
    by (auto simp: octal_def)
qed

lemma parse_ustar: "ustar tar es \<Longrightarrow> parse_from (pre @ tar) (length pre) = Some es"
proof (induction tar es arbitrary: pre rule: ustar.induct)
  case (ustar_end z)
  then show ?case
    by (cases z) (simp_all add: parse_from.simps BLOCK_def Let_def)
next
  case (ustar_entry h e pad rest es)
  note f = ustar_header_fields [OF ustar_entry.hyps(1)]
  let ?tar = "pre @ h @ e_data e @ pad @ rest"
  have hdr: "take BLOCK (drop (length pre) ?tar) = h"
    using f(1) by (simp add: BLOCK_def)
  have data: "slice (length pre + BLOCK) (min (length pre + BLOCK + length (e_data e)) (length ?tar)) ?tar = Some (e_data e)"
    using f(1) by (simp add: slice_def BLOCK_def)
  have "length (e_data e) \<le> (length (e_data e) + 511) div 512 * 512"
    by linarith
  then have eq: "length pre + BLOCK + (length (e_data e) + BLOCK - 1) div BLOCK * BLOCK = length (pre @ h @ e_data e @ pad)"
    using f(1) ustar_entry.hyps(2) by (simp add: BLOCK_def padding_def)
  have rest: "parse_from ?tar (length pre + BLOCK + (length (e_data e) + BLOCK - 1) div BLOCK * BLOCK) = Some es"
    unfolding eq using ustar_entry.IH [of "pre @ h @ e_data e @ pad"] by simp
  have "e_data e = []" if "is_dir e"
    using that ustar_entry.hyps(1) by (simp add: ustar_header_def)
  then show ?case
    unfolding parse_from.simps [of ?tar "length pre"]
    using f hdr data rest by (simp add: Let_def BLOCK_def)
qed

section \<open>What the tree holds\<close>

lemma n_name_insert_at [simp]: "n_name (insert_at cs e n) = n_name n"
  by (induction cs e n rule: insert_at.induct) (auto split: option.splits)

lemma insert_at_own [simp]: "n_kind (insert_at cs e n) = n_kind n" "n_data (insert_at cs e n) = n_data n"
  by (induction cs e n rule: insert_at.induct) (auto split: option.splits)

lemma node_simps [simp]:
  "n_name (node_dir a) = a" "n_kind (node_dir a) = Dir" "n_data (node_dir a) = []" "find_child (node_dir a) c = None"
  "n_name (node_file a x) = a" "n_kind (node_file a x) = File" "n_data (node_file a x) = x" "find_child (node_file a x) c = None"
  by (simp_all add: node_dir_def node_file_def find_child_def)

lemma find_child_push:
  "find_child (Node nm k d (cs @ [m])) c =
     (case find_child (Node nm k d cs) c of Some x \<Rightarrow> Some x | None \<Rightarrow> if n_name m = c then Some m else None)"
  by (induction cs) (auto simp: find_child_def)

lemma find_child_update:
  assumes "position (\<lambda>c. n_name c = a) cs = Some i" and "n_name m = a"
  shows "find_child (Node nm k d (cs[i := m])) c = (if c = a then Some m else find_child (Node nm k d cs) c)"
  using assms by (induction cs arbitrary: i) (auto simp: find_child_def split: if_splits nat.splits)

lemma find_child_position:
  "find_child (Node nm k d cs) a = map_option ((!) cs) (position (\<lambda>c. n_name c = a) cs)"
  by (induction cs) (auto simp: find_child_def option.map_comp o_def)

text \<open>The kind and the bytes found at a path.\<close>

definition at_path :: "node \<Rightarrow> byte list list \<Rightarrow> (file_kind \<times> byte list) option" where
  "at_path n p = map_option (\<lambda>m. (n_kind m, n_data m)) (walk n p)"

lemma at_path_Nil [simp]: "at_path n [] = Some (n_kind n, n_data n)"
  by (simp add: at_path_def)

lemma at_path_Cons:
  "at_path n (c # p) = (case find_child n c of None \<Rightarrow> None | Some m \<Rightarrow> at_path m p)"
  by (simp add: at_path_def split: option.split)

lemma at_path_leaf: "find_child n = (\<lambda>c. None) \<Longrightarrow> at_path n (c # p) = None"
  by (simp add: at_path_Cons)

definition entry_view :: "entry \<Rightarrow> file_kind \<times> byte list" where
  "entry_view e = (if is_dir e then (Dir, []) else (File, e_data e))"

lemma case_option_id: "(case x of None \<Rightarrow> None | Some y \<Rightarrow> Some y) = x"
  by (cases x) simp_all

lemma at_path_insert:
  "at_path (insert_at cs e n) p =
     (case at_path n p of
        Some x \<Rightarrow> Some x
      | None \<Rightarrow> if prefix p cs then Some (if p = cs then entry_view e else (Dir, [])) else None)"
proof (induction cs e n arbitrary: p rule: insert_at.induct)
  case (1 e n)
  then show ?case
    by (cases p) (auto split: option.split)
next
  case (2 a e nm k d cs)
  show ?case
  proof (cases p)
    case (Cons c q)
    let ?leaf = "if is_dir e then node_dir a else node_file a (e_data e)"
    have "at_path ?leaf q = (if q = [] then Some (entry_view e) else None)"
      by (cases q) (auto simp: entry_view_def at_path_Cons)
    then show ?thesis
      using Cons by (auto simp: at_path_Cons find_child_push split: option.splits)
  qed simp
next
  case (3 a b cs e nm k d ns)
  show ?case
  proof (cases p)
    case (Cons c q)
    show ?thesis
    proof (cases "position (\<lambda>x. n_name x = a) ns")
      case None
      then have "find_child (Node nm k d ns) a = None"
        by (simp add: find_child_position)
      then show ?thesis
        using None Cons "3.IH"(1) [OF None, of q]
        by (cases q) (auto simp: at_path_Cons find_child_push split: option.splits)
    next
      case (Some i)
      then have "find_child (Node nm k d ns) a = Some (ns ! i)" "n_name (ns ! i) = a"
        by (auto simp: find_child_position position_Some_iff)
      then show ?thesis
        using Some Cons "3.IH"(2) [OF Some, of q]
        by (auto simp: at_path_Cons find_child_update case_option_id)
    qed
  qed (simp split: option.split)
qed

text \<open>The entry that first creates a path: the first whose path extends it.\<close>

definition creator :: "entry list \<Rightarrow> byte list list \<Rightarrow> entry option" where
  "creator es p = List.find (\<lambda>e. prefix p (components (e_path e))) es"

definition path_view :: "byte list list \<Rightarrow> entry \<Rightarrow> file_kind \<times> byte list" where
  "path_view p e = (if components (e_path e) = p then entry_view e else (Dir, []))"

lemma at_path_with_entries:
  "at_path (with_entries es n) p =
     (case at_path n p of Some x \<Rightarrow> Some x | None \<Rightarrow> map_option (path_view p) (creator es p))"
proof (induction es arbitrary: n)
  case (Cons e es)
  then show ?case
    by (auto simp: with_entries_def insert_entry_def at_path_insert creator_def path_view_def split: option.splits)
qed (simp add: with_entries_def creator_def split: option.split)

text \<open>C27. Whatever bytes the ramdisk consists of, building the file system from them returns: the parser
  neither panics nor loops, although sizes and offsets come from the archive.\<close>

theorem from_tar_total: "\<exists>root. from_tar tar = Some root"
  using parse_from_total [of tar 0] by (auto simp: from_tar_def parse_def)

text \<open>C28. For an archive in the ustar format, the tree answers every path with what the archive says: the path of
  an entry holds its bytes (a directory none), a proper prefix of an entry's path is a
  directory, and where several entries claim a path the first one decides; no other path
  exists.\<close>

theorem initrd_contents:
  assumes "ustar tar es" and "p \<noteq> []"
  shows "\<exists>root. from_tar tar = Some root \<and> at_path root p = map_option (path_view p) (creator es p)"
proof -
  have "at_path (node_dir (str ''/'')) p = None"
    using assms(2) by (cases p) (simp_all add: at_path_Cons)
  then show ?thesis
    using parse_ustar [OF assms(1), of "[]"] by (simp add: from_tar_def parse_def at_path_with_entries)
qed

text \<open>A small archive: a directory and a file in it, with only the meaningful fields set.\<close>

definition demo_header :: "byte list \<Rightarrow> nat \<Rightarrow> byte \<Rightarrow> byte list" where
  "demo_header path sz ty =
     path @ replicate (124 - length path) 0 @ oct_digits 11 sz @ replicate 21 0 @ [ty] @ replicate 355 0"

definition demo_entries :: "entry list" where
  "demo_entries = [\<lparr>e_path = str ''etc'', e_data = [], is_dir = True\<rparr>,
     \<lparr>e_path = str ''etc/motd'', e_data = str ''hi'', is_dir = False\<rparr>]"

definition demo_tar :: "byte list" where
  "demo_tar = demo_header (str ''etc'') 0 0x35 @ demo_header (str ''etc/motd'') 2 0x30 @ str ''hi'' @ replicate 510 0
     @ replicate 1024 0"

lemma demo_header_ok:
  assumes "path \<noteq> []" "length path \<le> 100" "\<forall>b\<in>set path. b < 0x80 \<and> b \<noteq> 0" "length (e_data e) < 8 ^ 11"
    and "e_path e = path" "ty = 0x35 \<longleftrightarrow> is_dir e" "is_dir e \<longrightarrow> e_data e = []"
  shows "ustar_header (demo_header path (length (e_data e)) ty) e"
proof -
  have "100 - length path = min (100 - length path) (124 - length path)"
    by simp
  then have "take 100 (demo_header path (length (e_data e)) ty) = path @ replicate (100 - length path) 0"
    using assms(2) by (simp add: demo_header_def take_replicate)
  moreover have "valid_utf8 path"
    using assms(3) by (intro valid_utf8_ascii) simp
  moreover have dr: "drop 124 (demo_header path (length (e_data e)) ty) =
      oct_digits 11 (length (e_data e)) @ replicate 21 0 @ [ty] @ replicate 355 0"
    using assms(2) by (simp add: demo_header_def)
  moreover have len: "length (demo_header path (length (e_data e)) ty) = 512"
    using assms(2) by (simp add: demo_header_def)
  moreover have "demo_header path (length (e_data e)) ty ! 135 = 0" "demo_header path (length (e_data e)) ty ! 156 = ty"
    using nth_drop [of 124 "demo_header path (length (e_data e)) ty" 11]
      nth_drop [of 124 "demo_header path (length (e_data e)) ty" 32] len by (simp_all add: dr nth_append)
  ultimately show ?thesis
    using assms by (auto simp: ustar_header_def)
qed

lemma demo_tar_ustar: "ustar demo_tar demo_entries"
proof -
  have "ustar (replicate 1024 0) []"
    by (rule ustar_end) simp_all
  moreover have len: "2 = length (e_data (demo_entries ! 1))"
    by (simp add: demo_entries_def)
  have "ustar_header (demo_header (str ''etc/motd'') 2 0x30) (demo_entries ! 1)"
    unfolding len by (rule demo_header_ok) (simp_all add: demo_entries_def str_def)
  moreover have "ustar_header (demo_header (str ''etc'') (length (e_data (demo_entries ! 0))) 0x35) (demo_entries ! 0)"
    by (rule demo_header_ok) (simp_all add: demo_entries_def str_def)
  ultimately have "ustar (demo_header (str ''etc'') 0 0x35 @ [] @ [] @ demo_header (str ''etc/motd'') 2 0x30 @ str ''hi''
      @ replicate 510 0 @ replicate 1024 0) [demo_entries ! 0, demo_entries ! 1]"
    using ustar_entry [of _ "demo_entries ! 1" "replicate 510 0" "replicate 1024 0" "[]"]
      ustar_entry [of _ "demo_entries ! 0" "[]" _ "[demo_entries ! 1]"]
    by (simp add: demo_entries_def padding_def)
  then show ?thesis
    by (simp add: demo_tar_def demo_entries_def)
qed

theorem initrd_contents_witness:
  "\<exists>root. from_tar demo_tar = Some root \<and> at_path root [str ''etc'', str ''motd''] = Some (File, str ''hi'')"
proof -
  have "components (str ''etc'') = [str ''etc'']" "components (str ''etc/motd'') = [str ''etc'', str ''motd'']"
    by (simp_all add: components_def str_def)
  then have eq: "map_option (path_view [str ''etc'', str ''motd'']) (creator demo_entries [str ''etc'', str ''motd'']) =
      Some (File, str ''hi'')"
    by (simp add: creator_def demo_entries_def path_view_def entry_view_def)
  then show ?thesis
    using initrd_contents [OF demo_tar_ustar, of "[str ''etc'', str ''motd'']"] unfolding eq by simp
qed

end
