(* ===== verification/Keyboard.thy ===== *)
theory Keyboard
  imports Net Utf8
begin

unbundle bit_operations_syntax

text \<open>
  The PS/2 keyboard driver (\<open>drivers/keyboard.rs\<close>): a scancode decoder and a queue of decoded
  ASCII characters. The decoder is the \<open>pc-keyboard\<close> crate; its state has the type \<open>'d\<close>, its
  key events the type \<open>'e\<close>, and its two operations are the parameters \<open>add_byte\<close> (an event
  once enough bytes have arrived; errors count as none) and \<open>process_keyevent\<close>.
\<close>

record 'd kbd = net +
  decoder :: 'd
  key_buffer :: "byte list"

datatype decoded_key = RawKey nat | Unicode nat

definition push_key :: "byte list \<Rightarrow> nat \<Rightarrow> byte list" where
  "push_key buf cp = (if cp < 0x80 then buf @ [word_of_nat cp] else buf)"

definition handle_scancode ::
  "(byte \<Rightarrow> 'd \<Rightarrow> 'e option \<times> 'd) \<Rightarrow> ('e \<Rightarrow> 'd \<Rightarrow> decoded_key option \<times> 'd) \<Rightarrow>
     byte \<Rightarrow> ('d, 'a) kbd_scheme \<Rightarrow> ('d, 'a) kbd_scheme" where
  "handle_scancode add_byte process_keyevent scancode s =
     (case add_byte scancode (decoder s) of
        (None, d) \<Rightarrow> s\<lparr>decoder := d\<rparr>
      | (Some event, d) \<Rightarrow>
          (case process_keyevent event d of
             (Some (Unicode ch), d) \<Rightarrow> s\<lparr>decoder := d, key_buffer := push_key (key_buffer s) ch\<rparr>
           | (_, d) \<Rightarrow> s\<lparr>decoder := d\<rparr>))"

text \<open>The interrupt handler, given the byte it reads from port \<open>0x60\<close>.\<close>

definition keyboard_interrupt_handler ::
  "(byte \<Rightarrow> 'd \<Rightarrow> 'e option \<times> 'd) \<Rightarrow> ('e \<Rightarrow> 'd \<Rightarrow> decoded_key option \<times> 'd) \<Rightarrow>
     byte \<Rightarrow> ('d, 'a) kbd_scheme \<Rightarrow> ('d, 'a) kbd_scheme" where
  "keyboard_interrupt_handler add_byte process_keyevent port60 s = handle_scancode add_byte process_keyevent port60 s"

fun inject ::
  "(byte \<Rightarrow> 'd \<Rightarrow> 'e option \<times> 'd) \<Rightarrow> ('e \<Rightarrow> 'd \<Rightarrow> decoded_key option \<times> 'd) \<Rightarrow>
     byte list \<Rightarrow> ('d, 'a) kbd_scheme \<Rightarrow> ('d, 'a) kbd_scheme" where
  "inject add_byte process_keyevent [] s = s"
| "inject add_byte process_keyevent (c # cs) s =
     inject add_byte process_keyevent cs (handle_scancode add_byte process_keyevent c s)"

text \<open>The characters of a string, as code points.\<close>

definition code_point :: "byte list \<Rightarrow> nat" where
  "code_point u =
     (case u of
        [a] \<Rightarrow> unat a
      | [a, b] \<Rightarrow> unat (a AND 0x1f) * 64 + unat (b AND 0x3f)
      | [a, b, c] \<Rightarrow> unat (a AND 0x0f) * 4096 + unat (b AND 0x3f) * 64 + unat (c AND 0x3f)
      | [a, b, c, d] \<Rightarrow> unat (a AND 0x07) * 262144 + unat (b AND 0x3f) * 4096 + unat (c AND 0x3f) * 64 + unat (d AND 0x3f)
      | _ \<Rightarrow> 0)"

function str_chars :: "byte list \<Rightarrow> nat list" where
  "str_chars bs =
     (if bs = [] then []
      else code_point (take (fst (utf8_unit bs)) bs) # str_chars (drop (fst (utf8_unit bs)) bs))"
  by pat_completeness auto
termination
  by (relation "measure length") (use utf8_unit_pos in \<open>auto simp: diff_less\<close>)

declare str_chars.simps [simp del]

definition inject_str :: "byte list \<Rightarrow> ('d, 'a) kbd_scheme \<Rightarrow> ('d, 'a) kbd_scheme" where
  "inject_str t s = s\<lparr>key_buffer := foldl push_key (key_buffer s) (str_chars t)\<rparr>"

definition read_key :: "('d, 'a) kbd_scheme \<Rightarrow> byte option \<times> ('d, 'a) kbd_scheme" where
  "read_key s =
     (case key_buffer s of
        [] \<Rightarrow> (None, s)
      | b # q \<Rightarrow> (Some b, s\<lparr>key_buffer := q\<rparr>))"

section \<open>The buffer holds ASCII only\<close>

definition ascii :: "byte list \<Rightarrow> bool" where
  "ascii bs \<longleftrightarrow> (\<forall>b\<in>set bs. b < 0x80)"

lemma ascii_push_key: "ascii buf \<Longrightarrow> ascii (push_key buf cp)"
  by (auto simp: ascii_def push_key_def word_less_nat_alt)

lemma ascii_foldl_push: "ascii buf \<Longrightarrow> ascii (foldl push_key buf cps)"
  by (induction cps arbitrary: buf) (auto simp: ascii_push_key)

lemma ascii_handle_scancode:
  "ascii (key_buffer s) \<Longrightarrow> ascii (key_buffer (handle_scancode add_byte process_keyevent c s))"
  by (auto simp: handle_scancode_def ascii_push_key split: prod.splits option.splits decoded_key.splits)

lemma str_chars_ascii: "ascii bs \<Longrightarrow> str_chars bs = map unat bs"
proof (induction bs)
  case (Cons b bs)
  then have "utf8_unit (b # bs) = (1, True)"
    by (simp add: utf8_unit_def byte_at_def ascii_def)
  with Cons show ?case
    by (simp add: str_chars.simps [of "b # bs"] code_point_def ascii_def)
qed (simp add: str_chars.simps)

lemma foldl_push_ascii: "ascii bs \<Longrightarrow> foldl push_key buf (map unat bs) = buf @ bs"
  by (induction bs arbitrary: buf) (auto simp: ascii_def push_key_def word_less_nat_alt)

lemma inject_str_ascii: "ascii t \<Longrightarrow> inject_str t s = s\<lparr>key_buffer := key_buffer s @ t\<rparr>"
  by (simp add: inject_str_def str_chars_ascii foldl_push_ascii)

end
