(* ===== verification/Vfs.thy ===== *)
theory Vfs
  imports Keyboard Initrd
begin

text \<open>
  The virtual file system: the inodes of \<open>devfs\<close>, \<open>procfs\<close>, \<open>initrd\<close> and of sockets behind the
  \<open>Inode\<close> trait, the mount table and path resolution (\<open>fs/vfs.rs\<close>, \<open>fs/devfs.rs\<close>, \<open>fs/procfs.rs\<close>,
  the trait implementation of \<open>fs/initrd.rs\<close> and of \<open>net/socket.rs\<close>). A trait object is a value of
  the datatype \<open>inode\<close> with one constructor per implementing type, a trait method a function on it;
  a method a type does not override is the default of the trait.

  \<open>kernel\<close> is the state all of this works on. The three counters of the heap allocator crate
  are fields of it that nothing here constrains.
\<close>

section \<open>State\<close>

datatype proc_gen = Meminfo | Uptime

datatype inode =
    DevDir | Console | Null | Zero | Kbd
  | ProcDir | ProcFile proc_gen
  | InodeNode node
  | SocketInode nat

datatype filesystem = DevFs | ProcFs | InitrdFs node

record open_file =
  f_inode :: inode
  f_offset :: u64

record 'd kernel = "'d kbd" +
  heap_used :: nat
  heap_free :: nat
  heap_size :: nat
  clock :: u64
  MOUNTS :: "(byte list \<times> filesystem) list"
  FD_TABLE :: "open_file option list"

section \<open>Synthetic files\<close>

definition HZ :: u64 where "HZ = 100"

definition used_bytes :: "('d, 'a) kernel_scheme \<Rightarrow> nat" where
  "used_bytes s = heap_used s"

definition free_bytes :: "('d, 'a) kernel_scheme \<Rightarrow> nat" where
  "free_bytes s = heap_free s"

definition total_bytes :: "('d, 'a) kernel_scheme \<Rightarrow> nat" where
  "total_bytes s = heap_size s"

definition ticks :: "('d, 'a) kernel_scheme \<Rightarrow> u64" where
  "ticks s = clock s"

definition meminfo :: "('d, 'a) kernel_scheme \<Rightarrow> byte list" where
  "meminfo s =
     str ''MemTotal: '' @ dec (total_bytes s div 1024) @ str '' KiB'' @ [10]
     @ str ''MemUsed: '' @ dec (used_bytes s div 1024) @ str '' KiB'' @ [10]
     @ str ''MemFree: '' @ dec (free_bytes s div 1024) @ str '' KiB'' @ [10]
     @ str ''FreeFrames: '' @ dec (free_count (FRAME_ALLOCATOR s)) @ [10]"

definition uptime :: "('d, 'a) kernel_scheme \<Rightarrow> byte list" where
  "uptime s = dec (unat (ticks s div HZ)) @ str '' seconds since boot'' @ [10]"

fun gen :: "proc_gen \<Rightarrow> ('d, 'a) kernel_scheme \<Rightarrow> byte list" where
  "gen Meminfo s = meminfo s"
| "gen Uptime s = uptime s"

section \<open>The methods of an inode\<close>

fun inode_kind :: "inode \<Rightarrow> file_kind" where
  "inode_kind DevDir = Dir"
| "inode_kind Console = CharDev"
| "inode_kind Null = CharDev"
| "inode_kind Zero = CharDev"
| "inode_kind Kbd = CharDev"
| "inode_kind ProcDir = Dir"
| "inode_kind (ProcFile g) = File"
| "inode_kind (InodeNode n) = n_kind n"
| "inode_kind (SocketInode i) = CharDev"

text \<open>The read of a file with given bytes: \<open>procfs\<close> and \<open>initrd\<close> have the same code.\<close>

definition read_at :: "byte list \<Rightarrow> u64 \<Rightarrow> nat \<Rightarrow> byte list" where
  "read_at content offset cap =
     (let start = unat offset in
      if start \<ge> length content then []
      else
        let n = min cap (length content - start)
        in take n (drop start content))"

fun kbd_read :: "nat \<Rightarrow> ('d, 'a) kernel_scheme \<Rightarrow> byte list \<times> ('d, 'a) kernel_scheme" where
  "kbd_read 0 s = ([], s)"
| "kbd_read (Suc n) s =
     (case read_key s of
        (Some b, s) \<Rightarrow> (let (bs, s) = kbd_read n s in (b # bs, s))
      | (None, s) \<Rightarrow> ([], s))"

text \<open>The methods of the device, synthetic, initial-ramdisk and socket inodes. A read with a buffer of \<open>cap\<close> bytes
  returns the bytes it puts at the start of the buffer. They only abbreviate the branches of
  the dispatch below, so their equations are simplification rules.\<close>

definition devdir_lookup :: "byte list \<Rightarrow> inode fs_result" where [simp]:
  "devdir_lookup name =
     (if name = str ''console'' then Inr Console
      else if name = str ''null'' then Inr Null
      else if name = str ''zero'' then Inr Zero
      else if name = str ''kbd'' then Inr Kbd
      else Inl NotFound)"

definition devdir_list_dir :: "byte list list fs_result" where [simp]:
  "devdir_list_dir = Inr [str ''console'', str ''null'', str ''zero'', str ''kbd'']"

definition console_read :: "u64 \<Rightarrow> nat \<Rightarrow> byte list fs_result" where [simp]:
  "console_read offset cap = Inr []"

definition console_write :: "u64 \<Rightarrow> byte list \<Rightarrow> ('d, 'a) kernel_scheme \<Rightarrow> nat fs_result \<times> ('d, 'a) kernel_scheme" where [simp]:
  "console_write offset data s = (Inr (length data), write_bytes data s)"

definition null_read :: "u64 \<Rightarrow> nat \<Rightarrow> byte list fs_result" where [simp]:
  "null_read offset cap = Inr []"

definition null_write :: "u64 \<Rightarrow> byte list \<Rightarrow> nat fs_result" where [simp]:
  "null_write offset data = Inr (length data)"

definition zero_read :: "u64 \<Rightarrow> nat \<Rightarrow> byte list fs_result" where [simp]:
  "zero_read offset cap = Inr (replicate cap 0)"

definition zero_write :: "u64 \<Rightarrow> byte list \<Rightarrow> nat fs_result" where [simp]:
  "zero_write offset data = Inr (length data)"

definition procdir_lookup :: "byte list \<Rightarrow> inode fs_result" where [simp]:
  "procdir_lookup name =
     (if name = str ''meminfo'' then Inr (ProcFile Meminfo)
      else if name = str ''uptime'' then Inr (ProcFile Uptime)
      else Inl NotFound)"

definition procdir_list_dir :: "byte list list fs_result" where [simp]:
  "procdir_list_dir = Inr [str ''meminfo'', str ''uptime'']"

definition procfile_read :: "proc_gen \<Rightarrow> u64 \<Rightarrow> nat \<Rightarrow> ('d, 'a) kernel_scheme \<Rightarrow> byte list fs_result" where [simp]:
  "procfile_read g offset cap s = Inr (read_at (gen g s) offset cap)"

definition node_read :: "node \<Rightarrow> u64 \<Rightarrow> nat \<Rightarrow> byte list fs_result" where [simp]:
  "node_read n offset cap = Inr (read_at (n_data n) offset cap)"

definition node_lookup :: "node \<Rightarrow> byte list \<Rightarrow> inode fs_result" where [simp]:
  "node_lookup n name = (case find_child n name of Some c \<Rightarrow> Inr (InodeNode c) | None \<Rightarrow> Inl NotFound)"

definition node_list_dir :: "node \<Rightarrow> byte list list fs_result" where [simp]:
  "node_list_dir n = Inr (map n_name (children n))"

definition socket_read :: "nat \<Rightarrow> u64 \<Rightarrow> nat \<Rightarrow> ('d, 'a) kernel_scheme \<Rightarrow> byte list fs_result \<times> ('d, 'a) kernel_scheme" where [simp]:
  "socket_read i offset cap s =
     (case recvfrom i cap s of
        (Some (bs, _, _), s) \<Rightarrow> (Inr bs, s)
      | (None, s) \<Rightarrow> (Inr [], s))"

definition socket_write ::
  "nat \<Rightarrow> u64 \<Rightarrow> byte list \<Rightarrow> ('d, 'a) kernel_scheme \<Rightarrow> (nat fs_result \<times> ('d, 'a) kernel_scheme) option" where [simp]:
  "socket_write i offset data s =
     (case slot (SOCKETS s) i of
        None \<Rightarrow> Some (Inl InvalidArg, s)
      | Some x \<Rightarrow>
          (case peer x of
             Some (ip, port) \<Rightarrow> sendto i ip port data s
           | None \<Rightarrow> Some (Inl InvalidArg, s)))"

text \<open>Dynamic dispatch, with the defaults of the trait in the last equation of each method.\<close>

fun inode_read ::
  "inode \<Rightarrow> u64 \<Rightarrow> nat \<Rightarrow> ('d, 'a) kernel_scheme \<Rightarrow> byte list fs_result \<times> ('d, 'a) kernel_scheme" where
  "inode_read Console offset cap s = (console_read offset cap, s)"
| "inode_read Null offset cap s = (null_read offset cap, s)"
| "inode_read Zero offset cap s = (zero_read offset cap, s)"
| "inode_read Kbd offset cap s = (let (bs, s) = kbd_read cap s in (Inr bs, s))"
| "inode_read (ProcFile g) offset cap s = (procfile_read g offset cap s, s)"
| "inode_read (InodeNode n) offset cap s = (node_read n offset cap, s)"
| "inode_read (SocketInode i) offset cap s = socket_read i offset cap s"
| "inode_read _ offset cap s = (Inl PermissionDenied, s)"

fun inode_write ::
  "inode \<Rightarrow> u64 \<Rightarrow> byte list \<Rightarrow> ('d, 'a) kernel_scheme \<Rightarrow> (nat fs_result \<times> ('d, 'a) kernel_scheme) option" where
  "inode_write Console offset data s = Some (console_write offset data s)"
| "inode_write Null offset data s = Some (null_write offset data, s)"
| "inode_write Zero offset data s = Some (zero_write offset data, s)"
| "inode_write (SocketInode i) offset data s = socket_write i offset data s"
| "inode_write _ offset data s = Some (Inl PermissionDenied, s)"

fun inode_lookup :: "inode \<Rightarrow> byte list \<Rightarrow> inode fs_result" where
  "inode_lookup DevDir name = devdir_lookup name"
| "inode_lookup ProcDir name = procdir_lookup name"
| "inode_lookup (InodeNode n) name = node_lookup n name"
| "inode_lookup _ name = Inl NotFound"

fun inode_list_dir :: "inode \<Rightarrow> byte list list fs_result" where
  "inode_list_dir DevDir = devdir_list_dir"
| "inode_list_dir ProcDir = procdir_list_dir"
| "inode_list_dir (InodeNode n) = node_list_dir n"
| "inode_list_dir _ = Inl NotDir"

fun inode_sock_index :: "inode \<Rightarrow> nat option" where
  "inode_sock_index (SocketInode i) = Some i"
| "inode_sock_index _ = None"

section \<open>Mounting and resolution\<close>

fun fs_name :: "filesystem \<Rightarrow> string" where
  "fs_name DevFs = ''devfs''"
| "fs_name ProcFs = ''procfs''"
| "fs_name (InitrdFs n) = ''initrd''"

fun fs_root :: "filesystem \<Rightarrow> inode" where
  "fs_root DevFs = DevDir"
| "fs_root ProcFs = ProcDir"
| "fs_root (InitrdFs n) = InodeNode n"

definition mount :: "byte list \<Rightarrow> filesystem \<Rightarrow> ('d, 'a) kernel_scheme \<Rightarrow> ('d, 'a) kernel_scheme" where
  "mount pfx fs s =
     (let s = println ''[vfs] mounted {} at {}'' [AStr (str (fs_name fs)), AStr pfx] s
      in s\<lparr>MOUNTS := MOUNTS s @ [(pfx, fs)]\<rparr>)"

definition covers :: "byte list \<Rightarrow> byte list \<Rightarrow> bool" where
  "covers pfx path \<longleftrightarrow>
     path = pfx \<or>
     take (length pfx) path = pfx \<and> length pfx < length path \<and> path ! length pfx = 0x2f"

definition better :: "byte list \<Rightarrow> byte list \<times> filesystem \<Rightarrow> (nat \<times> filesystem) option \<Rightarrow> (nat \<times> filesystem) option" where
  "better path m best =
     (case m of (pfx, fs) \<Rightarrow>
        if covers pfx path \<and> (case best of None \<Rightarrow> True | Some (l, _) \<Rightarrow> length pfx \<ge> l)
        then Some (length pfx, fs) else best)"

definition longest_mount :: "byte list \<Rightarrow> ('d, 'a) kernel_scheme \<Rightarrow> (nat \<times> filesystem) option" where
  "longest_mount path s = fold (better path) (MOUNTS s) None"

fun walk_inode :: "inode \<Rightarrow> byte list list \<Rightarrow> inode fs_result" where
  "walk_inode node [] = Inr node"
| "walk_inode node (c # cs) =
     (case inode_lookup node c of Inl e \<Rightarrow> Inl e | Inr node \<Rightarrow> walk_inode node cs)"

definition resolve :: "byte list \<Rightarrow> ('d, 'a) kernel_scheme \<Rightarrow> inode fs_result" where
  "resolve path s =
     (if path = [] \<or> path ! 0 \<noteq> 0x2f then Inl InvalidArg
      else
        (case longest_mount path s of
           None \<Rightarrow> Inl NotFound
         | Some (plen, fs) \<Rightarrow> walk_inode (fs_root fs) (components (drop plen path))))"

end
