(* ===== verification/Fs.thy ===== *)
theory Fs
  imports Vfs
begin

text \<open>
  The file-descriptor layer (\<open>fs/mod.rs\<close>) and the code that exercises it from the kernel: the
  VFS and keyboard self tests of \<open>main.rs\<close>, the socket self test and the layered self test of
  the network stack. The embedded ramdisk \<open>INITRD\<close> is a file the build generates, so its bytes
  are a parameter of \<open>fs_init\<close>.
\<close>

section \<open>Descriptors\<close>

definition MAX_FDS :: nat where "MAX_FDS = 64"

definition install :: "open_file \<Rightarrow> open_file option list \<Rightarrow> (open_file option list \<times> nat) option" where
  "install f t =
     (case position Option.is_none t of
        Some i \<Rightarrow> Some (t[i := Some f], i)
      | None \<Rightarrow> if length t < MAX_FDS then Some (t @ [Some f], length t) else None)"

definition install_inode :: "inode \<Rightarrow> ('d, 'a) kernel_scheme \<Rightarrow> nat fs_result \<times> ('d, 'a) kernel_scheme" where
  "install_inode inode s =
     (case install \<lparr>f_inode = inode, f_offset = 0\<rparr> (FD_TABLE s) of
        None \<Rightarrow> (Inl NoSpace, s)
      | Some (t, fd) \<Rightarrow> (Inr fd, s\<lparr>FD_TABLE := t\<rparr>))"

definition fs_open :: "byte list \<Rightarrow> ('d, 'a) kernel_scheme \<Rightarrow> nat fs_result \<times> ('d, 'a) kernel_scheme" where
  "fs_open path s =
     (case resolve path s of
        Inl e \<Rightarrow> (Inl e, s)
      | Inr inode \<Rightarrow>
          (case install \<lparr>f_inode = inode, f_offset = 0\<rparr> (FD_TABLE s) of
             None \<Rightarrow> (Inl NoSpace, s)
           | Some (t, fd) \<Rightarrow> (Inr fd, s\<lparr>FD_TABLE := t\<rparr>)))"

definition fs_read ::
  "nat \<Rightarrow> nat \<Rightarrow> ('d, 'a) kernel_scheme \<Rightarrow> (byte list fs_result \<times> ('d, 'a) kernel_scheme) option" where
  "fs_read fd cap s =
     (case slot (FD_TABLE s) fd of
        None \<Rightarrow> Some (Inl InvalidArg, s)
      | Some f \<Rightarrow>
          (case inode_read (f_inode f) (f_offset f) cap s of
             (Inl e, s) \<Rightarrow> Some (Inl e, s)
           | (Inr bs, s) \<Rightarrow> do {
               offset \<leftarrow> checked_add (f_offset f) (word_of_nat (length bs));
               Some (Inr bs, s\<lparr>FD_TABLE := (FD_TABLE s)[fd := Some (f\<lparr>f_offset := offset\<rparr>)]\<rparr>)
             }))"

definition fs_write ::
  "nat \<Rightarrow> byte list \<Rightarrow> ('d, 'a) kernel_scheme \<Rightarrow> (nat fs_result \<times> ('d, 'a) kernel_scheme) option" where
  "fs_write fd data s =
     (case slot (FD_TABLE s) fd of
        None \<Rightarrow> Some (Inl InvalidArg, s)
      | Some f \<Rightarrow> do {
          (r, s) \<leftarrow> inode_write (f_inode f) (f_offset f) data s;
          (case r of
             Inl e \<Rightarrow> Some (Inl e, s)
           | Inr n \<Rightarrow> do {
               offset \<leftarrow> checked_add (f_offset f) (word_of_nat n);
               Some (Inr n, s\<lparr>FD_TABLE := (FD_TABLE s)[fd := Some (f\<lparr>f_offset := offset\<rparr>)]\<rparr>)
             })
        })"

definition fs_close :: "nat \<Rightarrow> ('d, 'a) kernel_scheme \<Rightarrow> unit fs_result \<times> ('d, 'a) kernel_scheme" where
  "fs_close fd s =
     (case slot (FD_TABLE s) fd of
        Some _ \<Rightarrow> (Inr (), s\<lparr>FD_TABLE := (FD_TABLE s)[fd := None]\<rparr>)
      | None \<Rightarrow> (Inl InvalidArg, s))"

definition fs_list_dir :: "byte list \<Rightarrow> ('d, 'a) kernel_scheme \<Rightarrow> byte list list fs_result" where
  "fs_list_dir path s = (case resolve path s of Inl e \<Rightarrow> Inl e | Inr inode \<Rightarrow> inode_list_dir inode)"

definition fs_sock_index :: "nat \<Rightarrow> ('d, 'a) kernel_scheme \<Rightarrow> nat option" where
  "fs_sock_index fd s = (case slot (FD_TABLE s) fd of None \<Rightarrow> None | Some f \<Rightarrow> inode_sock_index (f_inode f))"

section \<open>Bring-up\<close>

fun install_std :: "nat \<Rightarrow> inode \<Rightarrow> ('d, 'a) kernel_scheme \<Rightarrow> ('d, 'a) kernel_scheme option" where
  "install_std 0 console s = Some s"
| "install_std (Suc n) console s = do {
     (t, _) \<leftarrow> install \<lparr>f_inode = console, f_offset = 0\<rparr> (FD_TABLE s);
     install_std n console (s\<lparr>FD_TABLE := t\<rparr>)
   }"

definition fs_init :: "byte list \<Rightarrow> ('d, 'a) kernel_scheme \<Rightarrow> ('d, 'a) kernel_scheme option" where
  "fs_init INITRD s = do {
     let s = mount (str ''/dev'') DevFs s;
     let s = mount (str ''/proc'') ProcFs s;
     root \<leftarrow> from_tar INITRD;
     let s = mount (str ''/initrd'') (InitrdFs root) s;
     (case resolve (str ''/dev/console'') s of
        Inl _ \<Rightarrow> None
      | Inr console \<Rightarrow> do {
          s \<leftarrow> install_std 3 console s;
          Some (println ''[vfs] /dev, /proc, /initrd mounted; fds 0-2 -> /dev/console'' [] s)
        })
   }"

section \<open>Self tests\<close>

text \<open>The debug rendering of an error and of a list of names.\<close>

fun error_name :: "fs_error \<Rightarrow> string" where
  "error_name NotFound = ''NotFound''"
| "error_name PermissionDenied = ''PermissionDenied''"
| "error_name NotDir = ''NotDir''"
| "error_name IsDir = ''IsDir''"
| "error_name InvalidArg = ''InvalidArg''"
| "error_name NoSpace = ''NoSpace''"
| "error_name Io = ''Io''"

definition AErr :: "fs_error \<Rightarrow> fmt_arg" where
  "AErr e = AVariant (error_name e) []"

definition text_or :: "string \<Rightarrow> byte list \<Rightarrow> byte list" where
  "text_or dflt bs = (case from_utf8 bs of Some t \<Rightarrow> t | None \<Rightarrow> str dflt)"

text \<open>The reading loop of \<open>fs_cat\<close>: \<open>cap\<close> bytes of the scratch buffer are still free, \<open>out\<close> is what has been
  read. Every read that continues the loop fills at least one byte.\<close>

function fs_cat_loop :: "nat \<Rightarrow> nat \<Rightarrow> byte list \<Rightarrow> ('d, 'a) kernel_scheme \<Rightarrow> (byte list \<times> ('d, 'a) kernel_scheme) option" where
  "fs_cat_loop fd cap out s =
     (if cap = 0 then Some (out, s)
      else do {
        (r, s) \<leftarrow> fs_read fd cap s;
        (case r of
           Inr bs \<Rightarrow> if bs = [] then Some (out, s) else fs_cat_loop fd (cap - length bs) (out @ bs) s
         | Inl _ \<Rightarrow> Some (out, s))
      })"
  by pat_completeness auto
termination
  by (relation "measure (\<lambda>(fd, cap, out, s). cap)") auto

declare fs_cat_loop.simps [simp del]

definition fs_cat :: "byte list \<Rightarrow> ('d, 'a) kernel_scheme \<Rightarrow> ('d, 'a) kernel_scheme option" where
  "fs_cat path s =
     (case fs_open path s of
        (Inl e, s) \<Rightarrow> Some (println ''[fs-test] open {} -> {:?}'' [AStr path, AErr e] s)
      | (Inr fd, s) \<Rightarrow> do {
          (out, s) \<leftarrow> fs_cat_loop fd 256 [] s;
          let (_, s) = fs_close fd s;
          Some (println (''[fs-test] cat {} ({} bytes):'' @ [CHR 0x0A] @ ''{}'')
                  [AStr path, ANum (length out), AStr (text_or ''<non-utf8>'' out)] s)
        })"

definition list_dir_report :: "string \<Rightarrow> ('d, 'a) kernel_scheme \<Rightarrow> ('d, 'a) kernel_scheme" where
  "list_dir_report dir s =
     (case fs_list_dir (str dir) s of
        Inr names \<Rightarrow> println (''[fs-test] ls '' @ dir @ '' -> {:?}'') [AList (map AStr names)] s
      | Inl e \<Rightarrow> println (''[fs-test] ls '' @ dir @ '' err {:?}'') [AErr e] s)"

definition phase6_self_test :: "('d, 'a) kernel_scheme \<Rightarrow> ('d, 'a) kernel_scheme option" where
  "phase6_self_test s = do {
     let s = list_dir_report ''/initrd'' s;
     let s = list_dir_report ''/dev'' s;
     s \<leftarrow> fs_cat (str ''/initrd/motd.txt'') s;
     s \<leftarrow> fs_cat (str ''/proc/uptime'') s;
     s \<leftarrow> fs_cat (str ''/proc/meminfo'') s;
     fs_cat (str ''/nope'') s
   }"

definition phase7_demo ::
  "(byte \<Rightarrow> 'd \<Rightarrow> 'e option \<times> 'd) \<Rightarrow> ('e \<Rightarrow> 'd \<Rightarrow> decoded_key option \<times> 'd) \<Rightarrow>
     ('d, 'a) kernel_scheme \<Rightarrow> ('d, 'a) kernel_scheme option" where
  "phase7_demo add_byte process_keyevent s =
     (let s = inject add_byte process_keyevent [0x23, 0x12, 0x26, 0x26, 0x18] s in
      case fs_open (str ''/dev/kbd'') s of
        (Inr fd, s) \<Rightarrow> do {
          (r, s) \<leftarrow> fs_read fd 16 s;
          let bs = (case r of Inr bs \<Rightarrow> bs | Inl _ \<Rightarrow> []);
          let s = println (''[kbd-test] /dev/kbd read {} bytes: '' @ [CHR 0x27] @ ''{}'' @ [CHR 0x27])
                    [ANum (length bs), AStr (text_or ''<non-utf8>'' bs)] s;
          Some (snd (fs_close fd s))
        }
      | (Inl e, s) \<Rightarrow> Some (println ''[kbd-test] open /dev/kbd -> {:?}'' [AErr e] s))"

text \<open>The socket self test: a datagram delivered to a socket and read through its descriptor.\<close>

definition socket_demo :: "('d, 'a) kernel_scheme \<Rightarrow> ('d, 'a) kernel_scheme option" where
  "socket_demo s = do {
     let s = println ''[sock] -- demo --'' [] s;
     let (idx, s) = socket_new PROTO_UDP s;
     let (_, s) = sock_bind idx 5555 s;
     let (fd, s) = install_inode (SocketInode idx) s;
     let s = println ''[sock] socket {} bound :5555 -> fd {:?}''
               [ANum idx, (case fd of Inr n \<Rightarrow> AVariant ''Ok'' [ANum n] | Inl e \<Rightarrow> AVariant ''Err'' [AErr e])] s;
     let s = deliver 5555 GATEWAY 4242 (str ''ping-pong'') s;
     (case fd of
        Inl _ \<Rightarrow> Some s
      | Inr fd \<Rightarrow> do {
          (r, s) \<leftarrow> fs_read fd 32 s;
          let s = (case r of
            Inr bs \<Rightarrow> println (''[sock] read(fd) -> {} bytes: '' @ [CHR 0x27] @ ''{}'' @ [CHR 0x27])
              [ANum (length bs), AStr (text_or ''?'' bs)] s
          | Inl e \<Rightarrow> println ''[sock] read(fd) err {:?}'' [AErr e] s);
          Some (snd (fs_close fd s))
        })
   }"

definition net_demo :: "('d, 'a) kernel_scheme \<Rightarrow> ('d, 'a) kernel_scheme option" where
  "net_demo s = do {
     let s = println ''[net] ---- Phase 8 layered-stack self test ----'' [] s;
     let s = println ''[net] our MAC {:02x}:{:02x}:{:02x}:{:02x}:{:02x}:{:02x}'' (byte_args (mac_bytes (our_mac s))) s;
     s \<leftarrow> arp_demo s;
     s \<leftarrow> ip_demo s;
     s \<leftarrow> icmp_demo s;
     s \<leftarrow> udp_demo s;
     s \<leftarrow> tcp_demo s;
     s \<leftarrow> socket_demo s;
     Some (println ''[net] ---- self test complete ----'' [] s)
   }"

definition session :: "byte list" where
  "session =
     str ''help'' @ [10] @ str ''ifconfig'' @ [10] @ str ''arp -a'' @ [10] @ str ''netstat'' @ [10] @ str ''ping 10.0.2.2'' @ [10]
     @ str ''free'' @ [10] @ str ''ps'' @ [10] @ str ''ls /initrd'' @ [10] @ str ''cat /initrd/motd.txt'' @ [10] @ str ''exit'' @ [10]"

definition phase8_setup :: "('d, 'a) kernel_scheme \<Rightarrow> ('d, 'a) kernel_scheme option" where
  "phase8_setup s = do {
     let s = println ''[main] Phase 8: bringing up the network stack'' [] s;
     s \<leftarrow> net_demo (net_init s);
     let s = println ''[main] Phase 8: queuing a scripted shell session'' [] s;
     Some (inject_str session s)
   }"

end
