(* ===== verification/Fs_Properties.thy ===== *)
theory Fs_Properties
  imports Fs Net_Properties
begin

text \<open>
  What the file layer guarantees: descriptors are allocated lowest first and never collide,
  reading a file piecewise yields its bytes in order, the mount table picks the longest
  covering prefix, keyboard input and datagrams come out of descriptors in the order they came
  in, and the standard streams are in place after bring-up.
\<close>

section \<open>Descriptors\<close>

lemma install_cases:
  "install f t = (if position Option.is_none t = None \<and> MAX_FDS \<le> length t then None else Some (place f t))"
  by (auto simp: install_def place_def split: option.splits)

lemma install_place: "install f t = Some (t', i) \<Longrightarrow> place f t = (t', i)"
  by (simp add: install_cases split: if_splits)

interpretation fds: slot_table install
  by unfold_locales (auto dest!: install_place dest: place_spec)

definition fds_ok :: "('d, 'a) kernel_scheme \<Rightarrow> bool" where
  "fds_ok s \<longleftrightarrow> length (FD_TABLE s) \<le> MAX_FDS"

lemma live_le: "live t \<le> length t"
  by (simp add: live_def)

lemma position_none_live: "position Option.is_none t = None \<longleftrightarrow> live t = length t"
proof (induction t)
  case (Cons x t)
  then show ?case
    using live_le [of t] by (cases x) (auto simp: slot_simps)
qed (simp add: live_def)

lemma install_None_iff: "length t \<le> MAX_FDS \<Longrightarrow> install f t = None \<longleftrightarrow> live t = MAX_FDS"
  using live_le [of t] position_none_live [of t] by (auto simp: install_cases)

lemma install_bound: "install f t = Some (t', i) \<Longrightarrow> length t \<le> MAX_FDS \<Longrightarrow> i < MAX_FDS \<and> length t' \<le> MAX_FDS"
  by (auto simp: install_def position_Some_iff split: option.splits if_splits)

text \<open>C29. Opening a path that resolves yields the lowest descriptor not in use, positioned at the start of that
  file, and leaves every other descriptor as it was; it fails, with \<open>NoSpace\<close> and without
  effect, exactly when all 64 descriptors are in use. Closing a descriptor releases it and
  nothing else, so that opening again after a close reuses the lowest one.\<close>

theorem open_close_descriptors:
  assumes "fds_ok s" and "resolve path s = Inr inode"
  shows "(live (FD_TABLE s) = MAX_FDS \<longrightarrow> fs_open path s = (Inl NoSpace, s)) \<and>
    (live (FD_TABLE s) < MAX_FDS \<longrightarrow> (\<exists>fd s'. fs_open path s = (Inr fd, s') \<and> fd < MAX_FDS \<and> fds_ok s' \<and>
       slot (FD_TABLE s) fd = None \<and> (\<forall>j<fd. slot (FD_TABLE s) j \<noteq> None) \<and>
       slot (FD_TABLE s') = (slot (FD_TABLE s))(fd \<mapsto> \<lparr>f_inode = inode, f_offset = 0\<rparr>) \<and>
       (\<exists>s''. fs_close fd s' = (Inr (), s'') \<and> slot (FD_TABLE s'') = slot (FD_TABLE s) \<and>
          fs_close fd s'' = (Inl InvalidArg, s''))))"
proof (intro conjI impI)
  assume "live (FD_TABLE s) = MAX_FDS"
  then show "fs_open path s = (Inl NoSpace, s)"
    using assms install_None_iff [of "FD_TABLE s"] by (simp add: fs_open_def fds_ok_def)
next
  assume "live (FD_TABLE s) < MAX_FDS"
  then obtain t fd where i: "install \<lparr>f_inode = inode, f_offset = 0\<rparr> (FD_TABLE s) = Some (t, fd)"
    using assms(1) install_None_iff [of "FD_TABLE s" "\<lparr>f_inode = inode, f_offset = 0\<rparr>"] by (auto simp: fds_ok_def)
  let ?s' = "s\<lparr>FD_TABLE := t\<rparr>"
  have open_eq: "fs_open path s = (Inr fd, ?s')"
    using assms(2) i by (simp add: fs_open_def)
  have new: "slot t fd = Some \<lparr>f_inode = inode, f_offset = 0\<rparr>"
    by (rule fds.alloc_new [OF i])
  have restored: "slot (t[fd := None]) = slot (FD_TABLE s)"
    by (rule fds.alloc_free_again [OF i])
  have gone: "slot (t[fd := None]) fd = None"
    unfolding restored by (rule fds.alloc_free [OF i])
  have closed: "\<exists>s''. fs_close fd ?s' = (Inr (), s'') \<and> slot (FD_TABLE s'') = slot (FD_TABLE s) \<and>
      fs_close fd s'' = (Inl InvalidArg, s'')"
    using new restored gone by (simp add: fs_close_def)
  show "\<exists>fd s'. fs_open path s = (Inr fd, s') \<and> fd < MAX_FDS \<and> fds_ok s' \<and>
       slot (FD_TABLE s) fd = None \<and> (\<forall>j<fd. slot (FD_TABLE s) j \<noteq> None) \<and>
       slot (FD_TABLE s') = (slot (FD_TABLE s))(fd \<mapsto> \<lparr>f_inode = inode, f_offset = 0\<rparr>) \<and>
       (\<exists>s''. fs_close fd s' = (Inr (), s'') \<and> slot (FD_TABLE s'') = slot (FD_TABLE s) \<and>
          fs_close fd s'' = (Inl InvalidArg, s''))"
    using open_eq closed install_bound [OF i] assms(1) fds.alloc_free [OF i] fds.alloc_slot [OF i]
      place_spec(4) [OF install_place [OF i]]
    by (intro exI [of _ fd] exI [of _ ?s']) (simp add: fds_ok_def)
qed

section \<open>Reading a file piecewise\<close>

text \<open>
  A file whose reads depend on the offset only: the contract of the inodes that have fixed
  contents, and what any sequence of reads that advance the offset returns.
\<close>

fun reads :: "(u64 \<Rightarrow> nat \<Rightarrow> byte list) \<Rightarrow> u64 \<Rightarrow> nat list \<Rightarrow> byte list" where
  "reads rd off [] = []"
| "reads rd off (cap # caps) = (let bs = rd off cap in bs @ reads rd (off + word_of_nat (length bs)) caps)"

locale byte_file =
  fixes content :: "byte list" and rd :: "u64 \<Rightarrow> nat \<Rightarrow> byte list"
  assumes rd_eq: "rd off cap = take cap (drop (unat off) content)"
begin

lemma rd_length: "length (rd off cap) \<le> cap" "unat off \<le> length content \<Longrightarrow> unat off + length (rd off cap) \<le> length content"
  by (simp_all add: rd_eq)

lemma rd_progress: "0 < cap \<Longrightarrow> rd off cap = [] \<longleftrightarrow> length content \<le> unat off"
  by (auto simp: rd_eq)

lemma rd_offset:
  assumes "length content < 2 ^ 64" and "unat off \<le> length content"
  shows "unat (off + word_of_nat (length (rd off cap))) = unat off + length (rd off cap)"
    and "checked_add off (word_of_nat (length (rd off cap))) = Some (off + word_of_nat (length (rd off cap)))"
proof -
  have "unat off + length (rd off cap) < 2 ^ 64"
    using rd_length(2) [OF assms(2), of cap] assms(1) by linarith
  moreover from this have "unat (word_of_nat (length (rd off cap)) :: u64) = length (rd off cap)"
    by (simp add: unat_of_nat)
  ultimately show "checked_add off (word_of_nat (length (rd off cap))) = Some (off + word_of_nat (length (rd off cap)))"
    and "unat (off + word_of_nat (length (rd off cap))) = unat off + length (rd off cap)"
    by (simp_all add: checked_add_def unat_word_ariths)
qed

lemma rd_drop: "drop (unat off + length (rd off cap)) content = drop cap (drop (unat off) content)"
proof (cases "cap \<le> length (drop (unat off) content)")
  case True
  then have "length (rd off cap) = cap"
    by (simp add: rd_eq)
  then show ?thesis
    by (simp add: add.commute)
qed (simp add: rd_eq)

lemma reads_eq:
  assumes "length content < 2 ^ 64" and "unat off \<le> length content"
  shows "reads rd off caps = take (sum_list caps) (drop (unat off) content)"
  using assms(2)
proof (induction caps arbitrary: off)
  case (Cons cap caps)
  let ?off = "off + word_of_nat (length (rd off cap))"
  have off: "unat ?off = unat off + length (rd off cap)"
    by (rule rd_offset(1) [OF assms(1) Cons.prems])
  then have "reads rd ?off caps = take (sum_list caps) (drop cap (drop (unat off) content))"
    using Cons.IH [of ?off] rd_length(2) [OF Cons.prems, of cap] rd_drop [of off cap] by simp
  then show ?case
    by (simp add: Let_def take_add) (simp add: rd_eq)
qed simp

end

interpretation stored: byte_file content "read_at content" for content
  by unfold_locales (auto simp: read_at_def Let_def min_def)

fun fs_reads :: "nat \<Rightarrow> nat list \<Rightarrow> ('d, 'a) kernel_scheme \<Rightarrow> (byte list fs_result \<times> ('d, 'a) kernel_scheme) option" where
  "fs_reads fd [] s = Some (Inr [], s)"
| "fs_reads fd (cap # caps) s = do {
     (r, s) \<leftarrow> fs_read fd cap s;
     (case r of
        Inl e \<Rightarrow> Some (Inl e, s)
      | Inr bs \<Rightarrow> do {
          (r, s) \<leftarrow> fs_reads fd caps s;
          Some (case r of Inl e \<Rightarrow> Inl e | Inr cs \<Rightarrow> Inr (bs @ cs), s)
        })
   }"

text \<open>The inodes whose contents do not change by reading them, and these contents.\<close>

definition file_content :: "inode \<Rightarrow> ('d, 'a) kernel_scheme \<Rightarrow> byte list option" where
  "file_content inode s =
     (case inode of InodeNode n \<Rightarrow> Some (n_data n) | ProcFile g \<Rightarrow> Some (gen g s) | _ \<Rightarrow> None)"

lemma gen_fd_table [simp]: "gen g (s\<lparr>FD_TABLE := t\<rparr>) = gen g s"
  by (cases g) (simp_all add: meminfo_def uptime_def total_bytes_def used_bytes_def free_bytes_def ticks_def)

lemma file_content_fd_table [simp]: "file_content i (s\<lparr>FD_TABLE := t\<rparr>) = file_content i s"
  by (simp add: file_content_def split: inode.split)

lemma inode_read_content:
  "file_content i s = Some c \<Longrightarrow> inode_read i off cap s = (Inr (read_at c off cap), s)"
  by (auto simp: file_content_def split: inode.splits)

lemma fs_read_content:
  assumes "slot (FD_TABLE s) fd = Some f" and "file_content (f_inode f) s = Some c"
    and "length c < 2 ^ 64" and "unat (f_offset f) \<le> length c"
  shows "fs_read fd cap s = Some (Inr (read_at c (f_offset f) cap),
    s\<lparr>FD_TABLE := (FD_TABLE s)[fd := Some (f\<lparr>f_offset := f_offset f + word_of_nat (length (read_at c (f_offset f) cap))\<rparr>)]\<rparr>)"
  using assms stored.rd_offset(2) [OF assms(3,4), of cap] by (simp add: fs_read_def inode_read_content)

text \<open>C30. Reading a file in pieces of any sizes returns its bytes in order, from where the descriptor stands:
  nothing is skipped or repeated, reads at the end return nothing, and the descriptor has
  advanced by exactly what was returned. Only that descriptor's offset changes. This holds for
  ramdisk files and for the synthetic files of \<open>/proc\<close> alike.\<close>

theorem sequential_reads:
  assumes "slot (FD_TABLE s) fd = Some f" and "file_content (f_inode f) s = Some c"
    and "length c < 2 ^ 64" and "unat (f_offset f) \<le> length c"
  shows "\<exists>s' g. fs_reads fd caps s = Some (Inr (take (sum_list caps) (drop (unat (f_offset f)) c)), s') \<and>
    slot (FD_TABLE s') = (slot (FD_TABLE s))(fd \<mapsto> g) \<and> f_inode g = f_inode f \<and>
    unat (f_offset g) = min (unat (f_offset f) + sum_list caps) (length c) \<and> s'\<lparr>FD_TABLE := FD_TABLE s\<rparr> = s"
  using assms(1,2,4)
proof (induction caps arbitrary: s f)
  case Nil
  then show ?case
    by (intro exI [of _ s] exI [of _ f]) auto
next
  case (Cons cap caps)
  let ?bs = "read_at c (f_offset f) cap"
  let ?f = "f\<lparr>f_offset := f_offset f + word_of_nat (length ?bs)\<rparr>"
  let ?s = "s\<lparr>FD_TABLE := (FD_TABLE s)[fd := Some ?f]\<rparr>"
  have rd: "fs_read fd cap s = Some (Inr ?bs, ?s)"
    by (rule fs_read_content [OF Cons.prems(1,2) assms(3) Cons.prems(3)])
  have fd: "fd < length (FD_TABLE s)"
    using Cons.prems(1) by (auto dest: slot_SomeD)
  have off: "unat (f_offset ?f) = unat (f_offset f) + length ?bs"
    using stored.rd_offset(1) [OF assms(3) Cons.prems(3)] by simp
  have here: "slot (FD_TABLE ?s) fd = Some ?f" "file_content (f_inode ?f) ?s = Some c" "unat (f_offset ?f) \<le> length c"
    using fd Cons.prems(2) off stored.rd_length(2) [OF Cons.prems(3), of cap] by (simp_all add: slot_simps)
  have len: "length ?bs = min cap (length c - unat (f_offset f))"
    by (simp add: stored.rd_eq)
  have off2: "unat (f_offset ?f) = unat (f_offset f) + min cap (length c - unat (f_offset f))"
    using off by (rule trans) (simp only: len)
  obtain s' g where IH: "fs_reads fd caps ?s = Some (Inr (take (sum_list caps) (drop (unat (f_offset ?f)) c)), s')"
      "slot (FD_TABLE s') = (slot (FD_TABLE ?s))(fd \<mapsto> g)" "f_inode g = f_inode ?f"
      "unat (f_offset g) = min (unat (f_offset ?f) + sum_list caps) (length c)" "s'\<lparr>FD_TABLE := FD_TABLE ?s\<rparr> = ?s"
    using Cons.IH [OF here] by blast
  have bytes: "?bs @ take (sum_list caps) (drop (unat (f_offset ?f)) c) = take (sum_list (cap # caps)) (drop (unat (f_offset f)) c)"
    unfolding off stored.rd_drop by (simp add: stored.rd_eq take_add)
  have "fs_reads fd (cap # caps) s = Some (Inr (take (sum_list (cap # caps)) (drop (unat (f_offset f)) c)), s')"
    using rd IH(1) bytes by simp
  moreover have "slot (FD_TABLE s') = (slot (FD_TABLE s))(fd \<mapsto> g)"
    using IH(2) fd by (simp add: slot_simps)
  moreover have "unat (f_offset g) = min (unat (f_offset f) + sum_list (cap # caps)) (length c)"
    using IH(4) [unfolded off2] Cons.prems(3) by (auto simp: min_def)
  moreover have "s'\<lparr>FD_TABLE := FD_TABLE s\<rparr> = s"
    using arg_cong [OF IH(5), of "\<lambda>x. x\<lparr>FD_TABLE := FD_TABLE s\<rparr>"] by simp
  ultimately show ?case
    using IH(3) by (intro exI [of _ s'] exI [of _ g] conjI) simp_all
qed

section \<open>Mounts\<close>

lemma better_pair:
  "better path (p, fs) best =
     (if covers p path \<and> (case best of None \<Rightarrow> True | Some (l, _) \<Rightarrow> l \<le> length p) then Some (length p, fs) else best)"
  by (simp add: better_def)

lemma longest_mount_fold:
  "(case fold (better path) ms None of
      None \<Rightarrow> \<forall>m\<in>set ms. \<not> covers (fst m) path
    | Some (l, fs) \<Rightarrow> \<exists>i<length ms. ms ! i = (take l path, fs) \<and> l \<le> length path \<and> covers (take l path) path \<and>
        (\<forall>j<length ms. covers (fst (ms ! j)) path \<longrightarrow> length (fst (ms ! j)) < l \<or> length (fst (ms ! j)) = l \<and> j \<le> i))"
proof (induction ms rule: rev_induct)
  case (snoc m ms)
  obtain p f where m: "m = (p, f)" by (cases m)
  have fits: "take (length p) path = p \<and> length p \<le> length path" if "covers p path"
    using that by (auto simp: covers_def)
  show ?case
  proof (cases "fold (better path) ms None")
    case None
    with snoc.IH have "\<forall>m\<in>set ms. \<not> covers (fst m) path"
      by simp
    then show ?thesis
      using None fits by (auto simp: m better_pair nth_append less_Suc_eq)
  next
    case (Some b)
    obtain l fs where b: "b = (l, fs)" by (cases b)
    from snoc.IH [unfolded Some b] obtain i where i: "i < length ms" "ms ! i = (take l path, fs)" "l \<le> length path"
        "covers (take l path) path"
        "\<forall>j<length ms. covers (fst (ms ! j)) path \<longrightarrow> length (fst (ms ! j)) < l \<or> length (fst (ms ! j)) = l \<and> j \<le> i"
      by auto
    show ?thesis
    proof (cases "covers p path \<and> l \<le> length p")
      case True
      then have "fold (better path) (ms @ [m]) None = Some (length p, f)"
        using Some b by (simp add: m better_pair)
      then show ?thesis
        using True fits i(5) by (auto simp: m nth_append less_Suc_eq intro!: exI [of _ "length ms"])
    next
      case False
      then have "fold (better path) (ms @ [m]) None = Some (l, fs)"
        using Some b by (auto simp: m better_pair)
      then show ?thesis
        using False i by (auto simp: m nth_append less_Suc_eq intro!: exI [of _ i])
    qed
  qed
qed simp

text \<open>Path resolution uses the right mount: the one with the longest prefix that covers the path as whole
  components, and of several with that prefix the one mounted last; none only if no mount
  covers the path.\<close>

theorem longest_mount_spec:
  "case longest_mount path s of
     None \<Rightarrow> \<forall>m\<in>set (MOUNTS s). \<not> covers (fst m) path
   | Some (l, fs) \<Rightarrow> \<exists>i<length (MOUNTS s). MOUNTS s ! i = (take l path, fs) \<and> l \<le> length path \<and> covers (take l path) path \<and>
       (\<forall>j<length (MOUNTS s). covers (fst (MOUNTS s ! j)) path \<longrightarrow>
          length (fst (MOUNTS s ! j)) < l \<or> length (fst (MOUNTS s ! j)) = l \<and> j \<le> i)"
  using longest_mount_fold [where path = path and ms = "MOUNTS s"] by (simp add: longest_mount_def)

section \<open>Bring-up\<close>

lemma println_kernel [simp]:
  "MOUNTS (println x a s) = MOUNTS s" "FD_TABLE (println x a s) = FD_TABLE s" "key_buffer (println x a s) = key_buffer s"
  "heap_used (println x a s) = heap_used s" "heap_free (println x a s) = heap_free s" "heap_size (println x a s) = heap_size s"
  "clock (println x a s) = clock s" "FRAME_ALLOCATOR (println x a s) = FRAME_ALLOCATOR s"
  by (simp_all add: println_def print_def)

lemma resolve_println [simp]: "resolve path (println x a s) = resolve path s"
  by (simp add: resolve_def longest_mount_def)

lemma resolve_fd_table [simp]: "resolve path (s\<lparr>FD_TABLE := t\<rparr>) = resolve path s"
  by (simp add: resolve_def longest_mount_def)

lemma covers_neq:
  assumes "covers p path" and "take n p \<noteq> take n q" and "n \<le> length p" and "n \<le> length q"
  shows "\<not> covers q path"
proof
  assume "covers q path"
  then have "take (length q) path = q" "take (length p) path = p"
    using assms(1) by (auto simp: covers_def)
  then have "take n p = take n path" "take n q = take n path"
    using assms(3,4) by (metis min.absorb1 take_take)+
  with assms(2) show False
    by simp
qed

text \<open>The mount table bring-up leaves.\<close>

definition boot_mounts :: "node \<Rightarrow> (byte list \<times> filesystem) list" where
  "boot_mounts root = [(str ''/dev'', DevFs), (str ''/proc'', ProcFs), (str ''/initrd'', InitrdFs root)]"

lemma resolve_boot:
  assumes "MOUNTS s = boot_mounts root"
  shows "resolve path s =
    (if path = [] \<or> path ! 0 \<noteq> 0x2f then Inl InvalidArg
     else if covers (str ''/dev'') path then walk_inode DevDir (components (drop 4 path))
     else if covers (str ''/proc'') path then walk_inode ProcDir (components (drop 5 path))
     else if covers (str ''/initrd'') path then walk_inode (InodeNode root) (components (drop 7 path))
     else Inl NotFound)"
proof -
  have "\<not> covers (str ''/proc'') path" "\<not> covers (str ''/initrd'') path" if "covers (str ''/dev'') path"
    using covers_neq [OF that, of 4] by (simp_all add: str_def)
  moreover have "\<not> covers (str ''/initrd'') path" if "covers (str ''/proc'') path"
    using covers_neq [OF that, of 5] by (simp add: str_def)
  moreover have "length (str ''/dev'') = 4" "length (str ''/proc'') = 5" "length (str ''/initrd'') = 7"
    by simp_all
  ultimately show ?thesis
    by (simp add: resolve_def longest_mount_def assms boot_mounts_def better_pair del: length_str)
qed

lemma resolve_console: "MOUNTS s = boot_mounts root \<Longrightarrow> resolve (str ''/dev/console'') s = Inr Console"
  by (simp add: resolve_boot) (simp add: covers_def str_def components_def)

lemma fs_init_state:
  assumes "MOUNTS s = []" and "FD_TABLE s = []"
  obtains s' root where "fs_init INITRD s = Some s'" "from_tar INITRD = Some root"
    "FD_TABLE s' = replicate 3 (Some \<lparr>f_inode = Console, f_offset = 0\<rparr>)" "MOUNTS s' = boot_mounts root"
    "\<exists>log. (\<forall>b. Raw b \<notin> set log) \<and> s' = s\<lparr>serial := serial s @ log, MOUNTS := MOUNTS s', FD_TABLE := FD_TABLE s'\<rparr>"
proof -
  obtain root where root: "from_tar INITRD = Some root"
    using parse_from_total [of INITRD 0] by (auto simp: from_tar_def parse_def)
  define s1 where "s1 = mount (str ''/initrd'') (InitrdFs root) (mount (str ''/proc'') ProcFs (mount (str ''/dev'') DevFs s))"
  have s1: "MOUNTS s1 = boot_mounts root" "FD_TABLE s1 = []"
    using assms by (simp_all add: s1_def mount_def boot_mounts_def)
  let ?c = "\<lparr>f_inode = Console, f_offset = 0\<rparr>"
  have std: "install_std 3 Console s1 = Some (s1\<lparr>FD_TABLE := replicate 3 (Some ?c)\<rparr>)"
    using s1(2) by (simp add: numeral_3_eq_3 install_def MAX_FDS_def)
  let ?s' = "println ''[vfs] /dev, /proc, /initrd mounted; fds 0-2 -> /dev/console'' [] (s1\<lparr>FD_TABLE := replicate 3 (Some ?c)\<rparr>)"
  have init: "fs_init INITRD s = Some ?s'"
    using root std resolve_console [OF s1(1)] by (simp add: fs_init_def flip: s1_def)
  have frame: "\<exists>log. (\<forall>b. Raw b \<notin> set log) \<and> ?s' = s\<lparr>serial := serial s @ log, MOUNTS := MOUNTS ?s', FD_TABLE := FD_TABLE ?s'\<rparr>"
    by (cases s) (simp add: s1_def println_def print_def mount_def)
  show thesis
    by (rule that [OF init root _ _ frame]) (simp_all add: s1)
qed

text \<open>C31. After bring-up on an empty table, descriptors 0, 1 and 2 are the console and no other is in use, and
  the name space is exactly three trees: a path resolves in \<open>/dev\<close>, \<open>/proc\<close> or \<open>/initrd\<close> if it is
  one of these or continues one with a slash, every other absolute path, the root included,
  is \<open>NotFound\<close>, and a relative path is invalid.\<close>

theorem fs_init_namespace:
  assumes "MOUNTS s = []" and "FD_TABLE s = []"
  shows "\<exists>s' root. fs_init INITRD s = Some s' \<and> from_tar INITRD = Some root \<and>
    FD_TABLE s' = replicate 3 (Some \<lparr>f_inode = Console, f_offset = 0\<rparr>) \<and>
    (\<forall>path. resolve path s' =
      (if path = [] \<or> path ! 0 \<noteq> 0x2f then Inl InvalidArg
       else if covers (str ''/dev'') path then walk_inode DevDir (components (drop 4 path))
       else if covers (str ''/proc'') path then walk_inode ProcDir (components (drop 5 path))
       else if covers (str ''/initrd'') path then walk_inode (InodeNode root) (components (drop 7 path))
       else Inl NotFound)) \<and>
    resolve (str ''/'') s' = Inl NotFound"
proof -
  obtain s' root where s': "fs_init INITRD s = Some s'" "from_tar INITRD = Some root"
    "FD_TABLE s' = replicate 3 (Some \<lparr>f_inode = Console, f_offset = 0\<rparr>)" "MOUNTS s' = boot_mounts root"
    by (rule fs_init_state [OF assms])
  moreover have "resolve (str ''/'') s' = Inl NotFound"
    unfolding resolve_boot [OF s'(4)] by (simp add: covers_def str_def)
  ultimately show ?thesis
    using resolve_boot [OF s'(4)] by blast
qed

section \<open>Keyboard input\<close>

lemma kbd_read_eq: "kbd_read n s = (take n (key_buffer s), s\<lparr>key_buffer := drop n (key_buffer s)\<rparr>)"
proof (induction n arbitrary: s)
  case (Suc n)
  then show ?case
    by (cases "key_buffer s") (simp_all add: read_key_def)
qed simp

lemma ascii_inject: "ascii (key_buffer s) \<Longrightarrow> ascii (key_buffer (inject add_byte process_keyevent codes s))"
  by (induction codes arbitrary: s) (simp_all add: ascii_handle_scancode)

lemma fs_reads_kbd:
  assumes "slot (FD_TABLE s) fd = Some f" and "f_inode f = Kbd" and "unat (f_offset f) + length (key_buffer s) < 2 ^ 64"
  shows "\<exists>s'. fs_reads fd caps s = Some (Inr (take (sum_list caps) (key_buffer s)), s') \<and>
    key_buffer s' = drop (sum_list caps) (key_buffer s)"
  using assms
proof (induction caps arbitrary: s f)
  case (Cons cap caps)
  let ?bs = "take cap (key_buffer s)"
  have small: "unat (f_offset f) + length ?bs < 2 ^ 64" "length ?bs < 2 ^ 64"
    using Cons.prems(3) by simp_all
  then have len: "unat (word_of_nat (length ?bs) :: u64) = length ?bs"
    by (simp only: unat_of_nat) simp
  let ?off = "f_offset f + word_of_nat (length ?bs)"
  have off: "unat ?off = unat (f_offset f) + length ?bs"
    using small len by (simp only: unat_word_ariths) simp
  let ?s = "s\<lparr>key_buffer := drop cap (key_buffer s), FD_TABLE := (FD_TABLE s)[fd := Some (f\<lparr>f_offset := ?off\<rparr>)]\<rparr>"
  have "checked_add (f_offset f) (word_of_nat (length ?bs)) = Some ?off"
    using small(1) len unfolding checked_add_def by simp
  then have "fs_read fd cap s = Some (Inr ?bs, ?s)"
    using Cons.prems(1,2) by (simp add: fs_read_def kbd_read_eq)
  moreover have "fd < length (FD_TABLE s)"
    using Cons.prems(1) by (auto dest: slot_SomeD)
  then have "slot (FD_TABLE ?s) fd = Some (f\<lparr>f_offset := ?off\<rparr>)"
    by (simp add: slot_simps)
  moreover have "unat ?off + length (key_buffer ?s) < 2 ^ 64"
    using Cons.prems(3) unfolding off by simp
  ultimately show ?case
    using Cons.IH [of ?s "f\<lparr>f_offset := ?off\<rparr>"] Cons.prems(2) by (auto simp: take_add add.commute)
qed simp


section \<open>What a read leaves alone\<close>

lemma recvfrom_frame:
  "recvfrom i cap s = (r, s') \<Longrightarrow> ram s' = ram s \<and> NIC s' = NIC s \<and> FD_TABLE s' = FD_TABLE s \<and> kernel.more s' = kernel.more s \<and>
     (\<forall>bs src p. r = Some (bs, src, p) \<longrightarrow> length bs \<le> cap)"
  by (auto simp: recvfrom_def split: option.splits list.splits prod.splits)

lemma inode_read_frame:
  assumes "inode_read i off cap s = (r, s')"
  shows "ram s' = ram s \<and> NIC s' = NIC s \<and> FD_TABLE s' = FD_TABLE s \<and> kernel.more s' = kernel.more s \<and>
    (\<forall>bs. r = Inr bs \<longrightarrow> length bs \<le> cap)"
proof (cases i)
  case Kbd
  then show ?thesis
    using assms by (auto simp: kbd_read_eq)
next
  case (SocketInode j)
  obtain q t where q: "recvfrom j cap s = (q, t)"
    by (cases "recvfrom j cap s")
  with assms SocketInode recvfrom_frame [OF q] show ?thesis
    by (auto split: option.splits prod.splits)
qed (use assms in \<open>auto simp: read_at_def Let_def\<close>)

lemma fs_read_InrE:
  assumes "fs_read fd cap s = Some (Inr bs, s')"
  obtains f t off where "slot (FD_TABLE s) fd = Some f" "inode_read (f_inode f) (f_offset f) cap s = (Inr bs, t)"
    "checked_add (f_offset f) (word_of_nat (length bs)) = Some off"
    "s' = t\<lparr>FD_TABLE := (FD_TABLE s)[fd := Some (f\<lparr>f_offset := off\<rparr>)]\<rparr>" "length bs \<le> cap"
proof -
  obtain f where f: "slot (FD_TABLE s) fd = Some f"
    using assms by (auto simp: fs_read_def split: option.splits)
  obtain t off where t: "inode_read (f_inode f) (f_offset f) cap s = (Inr bs, t)"
      "checked_add (f_offset f) (word_of_nat (length bs)) = Some off"
      "s' = t\<lparr>FD_TABLE := (FD_TABLE t)[fd := Some (f\<lparr>f_offset := off\<rparr>)]\<rparr>"
    using assms f by (auto simp: fs_read_def split: prod.splits sum.splits bind_splits)
  then show thesis
    using that [OF f t(1,2)] inode_read_frame [OF t(1)] by simp
qed

section \<open>Instances\<close>

definition demo_kernel :: "unit kernel" where
  "demo_kernel = \<lparr>serial = [], FRAME_ALLOCATOR = bitmap_new, READY = True, PHYS_OFFSET = 0x40000000,
     page_table = Map.empty, heap_region = None, ram = (\<lambda>_. 0), io_log = [], NIC = Some demo_nic,
     CACHE = [], SOCKETS = [], decoder = (), key_buffer = [], heap_used = 4096, heap_free = 8192, heap_size = 12288,
     clock = 250, MOUNTS = [(str ''/dev'', DevFs), (str ''/proc'', ProcFs)],
     FD_TABLE = [Some \<lparr>f_inode = Console, f_offset = 0\<rparr>, Some \<lparr>f_inode = ProcFile Uptime, f_offset = 2\<rparr>,
       Some \<lparr>f_inode = Kbd, f_offset = 0\<rparr>]\<rparr>"

lemma demo_resolve: "resolve (str ''/dev/zero'') demo_kernel = Inr Zero"
  by (simp add: resolve_def longest_mount_def demo_kernel_def better_pair covers_def str_def components_def)

theorem open_close_descriptors_witness:
  "\<exists>s' s''. fs_open (str ''/dev/zero'') demo_kernel = (Inr 3, s') \<and> fs_close 3 s' = (Inr (), s'')"
proof -
  have "fds_ok demo_kernel" "live (FD_TABLE demo_kernel) < MAX_FDS"
    by (simp_all add: fds_ok_def demo_kernel_def MAX_FDS_def live_def)
  then obtain fd s' s'' where fd: "fs_open (str ''/dev/zero'') demo_kernel = (Inr fd, s')" "slot (FD_TABLE demo_kernel) fd = None"
      "\<forall>j<fd. slot (FD_TABLE demo_kernel) j \<noteq> None" "fs_close fd s' = (Inr (), s'')"
    using open_close_descriptors [OF _ demo_resolve] by blast
  have "slot (FD_TABLE demo_kernel) 0 \<noteq> None" "slot (FD_TABLE demo_kernel) 1 \<noteq> None"
    "slot (FD_TABLE demo_kernel) 2 \<noteq> None" "slot (FD_TABLE demo_kernel) 3 = None"
    by (simp_all add: slot_def demo_kernel_def)
  then have "fd \<noteq> 0" "fd \<noteq> 1" "fd \<noteq> 2" "\<not> 3 < fd"
    using fd(2,3) by metis+
  then have "fd = 3"
    by linarith
  with fd show ?thesis by blast
qed

theorem sequential_reads_witness:
  "\<exists>s'. fs_reads 1 [3, 0, 4] demo_kernel = Some (Inr (str ''seconds''), s')"
proof -
  let ?f = "\<lparr>f_inode = ProcFile Uptime, f_offset = 2\<rparr>"
  have "uptime demo_kernel = str ''2 seconds since boot'' @ [10]"
    by (simp add: uptime_def ticks_def HZ_def demo_kernel_def dec.simps str_def)
  then have "slot (FD_TABLE demo_kernel) 1 = Some ?f"
    "file_content (f_inode ?f) demo_kernel = Some (str ''2 seconds since boot'' @ [10])"
    by (simp_all add: demo_kernel_def slot_def file_content_def)
  from sequential_reads [OF this, of "[3, 0, 4]"] show ?thesis
    by (auto simp: str_def)
qed

theorem longest_mount_spec_witness:
  "\<exists>i<length (MOUNTS demo_kernel). MOUNTS demo_kernel ! i = (str ''/dev'', DevFs) \<and> covers (str ''/dev'') (str ''/dev/null'')"
proof -
  have "longest_mount (str ''/dev/null'') demo_kernel = Some (4, DevFs)"
    by (simp add: longest_mount_def demo_kernel_def better_pair covers_def str_def)
  moreover have "take 4 (str ''/dev/null'') = str ''/dev''"
    by (simp add: str_def)
  ultimately show ?thesis
    using longest_mount_spec [of demo_kernel "str ''/dev/null''"] by (simp only: option.case prod.case) blast
qed

theorem fs_init_namespace_witness:
  "\<exists>s'. fs_init [] (demo_kernel\<lparr>MOUNTS := [], FD_TABLE := []\<rparr>) = Some s' \<and> resolve (str ''/'') s' = Inl NotFound"
  using fs_init_namespace [of "demo_kernel\<lparr>MOUNTS := [], FD_TABLE := []\<rparr>" "[]"] by auto


section \<open>The self test\<close>

text \<open>The three console descriptors of the boot, followed by nothing or by one free entry.\<close>

definition boot_fds :: "open_file option list \<Rightarrow> bool" where
  "boot_fds t \<longleftrightarrow> t \<in> {replicate 3 (Some \<lparr>f_inode = Console, f_offset = 0\<rparr>),
     replicate 3 (Some \<lparr>f_inode = Console, f_offset = 0\<rparr>) @ [None]}"

lemma fs_cat_loop_ok:
  assumes "slot (FD_TABLE s) fd = Some f" and "file_content (f_inode f) s = Some c" and "unat (f_offset f) + cap \<le> 256"
  shows "\<exists>r g. fs_cat_loop fd cap out s = Some (r, s\<lparr>FD_TABLE := (FD_TABLE s)[fd := Some g]\<rparr>)"
  using assms
proof (induction cap arbitrary: s f out rule: less_induct)
  case (less cap)
  have fd: "fd < length (FD_TABLE s)"
    using less.prems(1) by (auto dest: slot_SomeD)
  have same: "(FD_TABLE s)[fd := Some f] = FD_TABLE s"
    using less.prems(1) fd by (simp add: slot_def) (metis list_update_id)
  let ?bs = "read_at c (f_offset f) cap"
  let ?g = "f\<lparr>f_offset := f_offset f + word_of_nat (length ?bs)\<rparr>"
  let ?s = "s\<lparr>FD_TABLE := (FD_TABLE s)[fd := Some ?g]\<rparr>"
  have len: "length ?bs \<le> cap"
    by (rule stored.rd_length(1))
  then have unat: "unat (word_of_nat (length ?bs) :: u64) = length ?bs"
    using less.prems(3) by (simp add: unat_of_nat)
  have add: "checked_add (f_offset f) (word_of_nat (length ?bs)) = Some (f_offset f + word_of_nat (length ?bs))"
    using less.prems(3) len unat by (simp add: checked_add_def)
  have read: "fs_read fd cap s = Some (Inr ?bs, ?s)"
    using less.prems(1,2) add by (simp add: fs_read_def inode_read_content)
  consider "cap = 0" | "cap \<noteq> 0" "?bs = []" | "cap \<noteq> 0" "?bs \<noteq> []"
    by blast
  then show ?case
  proof cases
    case 1
    then have "fs_cat_loop fd cap out s = Some (out, s\<lparr>FD_TABLE := (FD_TABLE s)[fd := Some f]\<rparr>)"
      unfolding same by (simp add: fs_cat_loop.simps [of fd 0])
    then show ?thesis
      by blast
  next
    case 2
    then have "fs_cat_loop fd cap out s = Some (out, ?s)"
      by (simp add: fs_cat_loop.simps [of fd cap] read)
    then show ?thesis
      by blast
  next
    case 3
    have "unat (f_offset ?g) + (cap - length ?bs) \<le> 256"
      using checked_add_Some_unat [OF add] less.prems(3) len unat by simp
    moreover have "slot (FD_TABLE ?s) fd = Some ?g" "file_content (f_inode ?g) ?s = Some c" "cap - length ?bs < cap"
      using fd less.prems(2) 3 by (simp_all add: slot_simps)
    ultimately obtain r g where "fs_cat_loop fd (cap - length ?bs) (out @ ?bs) ?s = Some (r, ?s\<lparr>FD_TABLE := (FD_TABLE ?s)[fd := Some g]\<rparr>)"
      using less.IH [of "cap - length ?bs" ?s ?g "out @ ?bs"] by blast
    then have "fs_cat_loop fd cap out s = Some (r, s\<lparr>FD_TABLE := (FD_TABLE s)[fd := Some g]\<rparr>)"
      using 3 by (simp add: fs_cat_loop.simps [of fd cap] read)
    then show ?thesis
      by blast
  qed
qed

lemma boot_fds_open:
  assumes "boot_fds (FD_TABLE s)" and "resolve path s = Inr inode"
  shows "\<exists>t. fs_open path s = (Inr 3, s\<lparr>FD_TABLE := t @ [Some \<lparr>f_inode = inode, f_offset = 0\<rparr>]\<rparr>) \<and>
    t = replicate 3 (Some \<lparr>f_inode = Console, f_offset = 0\<rparr>)"
  using assms by (auto simp: boot_fds_def fs_open_def install_def MAX_FDS_def numeral_3_eq_3)

lemma fs_cat_boot:
  assumes fds: "boot_fds (FD_TABLE s)" and "\<And>i. resolve path s = Inr i \<Longrightarrow> file_content i s \<noteq> None"
  shows "\<exists>x y t. fs_cat path s = Some (s\<lparr>serial := serial s @ [Print x y], FD_TABLE := t\<rparr>) \<and> boot_fds t"
proof (cases "resolve path s")
  case (Inl e)
  then have "fs_cat path s = Some (s\<lparr>serial := serial s @ [Print (''[fs-test] open {} -> {:?}'' @ [CHR 0x0A]) [AStr path, AErr e]],
      FD_TABLE := FD_TABLE s\<rparr>)"
    by (simp add: fs_cat_def fs_open_def println_def print_def)
  with fds show ?thesis
    by blast
next
  case (Inr i)
  let ?t = "replicate 3 (Some \<lparr>f_inode = Console, f_offset = 0\<rparr>)"
  let ?s = "s\<lparr>FD_TABLE := ?t @ [Some \<lparr>f_inode = i, f_offset = 0\<rparr>]\<rparr>"
  have op: "fs_open path s = (Inr 3, ?s)"
    using boot_fds_open [OF fds Inr] by auto
  have slot: "slot (FD_TABLE ?s) 3 = Some \<lparr>f_inode = i, f_offset = 0\<rparr>"
    by (simp add: slot_def nth_append)
  obtain c where "file_content i s = Some c"
    using assms(2) [OF Inr] by auto
  then obtain r g where loop: "fs_cat_loop 3 256 [] ?s = Some (r, ?s\<lparr>FD_TABLE := (FD_TABLE ?s)[3 := Some g]\<rparr>)"
    using fs_cat_loop_ok [OF slot, of c 256 "[]"] by auto
  have upd: "(?t @ [Some \<lparr>f_inode = i, f_offset = 0\<rparr>])[3 := Some g] = ?t @ [Some g]"
    by (simp add: numeral_3_eq_3)
  have cl: "fs_close 3 (s\<lparr>FD_TABLE := ?t @ [Some g]\<rparr>) = (Inr (), s\<lparr>FD_TABLE := ?t @ [None]\<rparr>)"
    by (simp add: fs_close_def slot_def numeral_3_eq_3)
  have "fs_cat path s = Some (println (''[fs-test] cat {} ({} bytes):'' @ [CHR 0x0A] @ ''{}'')
      [AStr path, ANum (length r), AStr (text_or ''<non-utf8>'' r)] (s\<lparr>FD_TABLE := ?t @ [None]\<rparr>))"
    using loop upd cl by (simp add: fs_cat_def op)
  moreover have "println x y (s\<lparr>FD_TABLE := u\<rparr>) = s\<lparr>serial := serial s @ [Print (x @ [CHR 0x0A]) y], FD_TABLE := u\<rparr>" for x y u
    by (cases s) (simp add: println_def print_def)
  ultimately show ?thesis
    by (intro exI [of _ "?t @ [None]"] exI) (auto simp: boot_fds_def)
qed

lemma walk_initrd: "walk_inode (InodeNode n) cs = Inr i \<Longrightarrow> \<exists>n'. i = InodeNode n'"
  by (induction cs arbitrary: n) (auto split: option.splits sum.splits)

text \<open>Steps that print and leave everything else as it was, the descriptors of the boot included.\<close>

definition reports :: "('d, 'a) kernel_scheme \<Rightarrow> ('d, 'a) kernel_scheme \<Rightarrow> bool" where
  "reports s s' \<longleftrightarrow> (\<exists>log t. s' = s\<lparr>serial := serial s @ log, FD_TABLE := t\<rparr> \<and> boot_fds t \<and> (\<forall>b. Raw b \<notin> set log))"

lemma reports_trans:
  assumes "reports s t" and "reports t u"
  shows "reports s u"
proof -
  obtain l1 f1 l2 f2 where t: "t = s\<lparr>serial := serial s @ l1, FD_TABLE := f1\<rparr>" "\<forall>b. Raw b \<notin> set l1"
      and u: "u = t\<lparr>serial := serial t @ l2, FD_TABLE := f2\<rparr>" "boot_fds f2" "\<forall>b. Raw b \<notin> set l2"
    using assms unfolding reports_def by blast
  have "u = s\<lparr>serial := serial s @ (l1 @ l2), FD_TABLE := f2\<rparr>"
    using t(1) u(1) by (cases s) simp
  with t(2) u(2,3) show ?thesis
    unfolding reports_def by (intro exI [of _ "l1 @ l2"] exI [of _ f2]) simp
qed

lemma reports_simps:
  assumes "reports s s'"
  shows "boot_fds (FD_TABLE s')" "MOUNTS s' = MOUNTS s" "\<exists>log. serial s' = serial s @ log \<and> (\<forall>b. Raw b \<notin> set log)"
    "kernel.more s' = kernel.more s" "FRAME_ALLOCATOR s' = FRAME_ALLOCATOR s" "READY s' = READY s"
  using assms by (auto simp: reports_def)

lemma reports_println: "boot_fds (FD_TABLE s) \<Longrightarrow> reports s (println x y s)"
  unfolding reports_def
  by (intro exI [of _ "[Print (x @ [CHR 0x0A]) y]"] exI [of _ "FD_TABLE s"]) (simp add: println_def print_def)

lemma reports_list_dir: "boot_fds (FD_TABLE s) \<Longrightarrow> reports s (list_dir_report dir s)"
  by (auto simp: list_dir_report_def intro: reports_println split: sum.splits)

lemma reports_fs_cat:
  assumes "boot_fds (FD_TABLE s)" and "\<And>i. resolve path s = Inr i \<Longrightarrow> file_content i s \<noteq> None"
  obtains s' where "fs_cat path s = Some s'" "reports s s'"
proof -
  obtain x y t where t: "fs_cat path s = Some (s\<lparr>serial := serial s @ [Print x y], FD_TABLE := t\<rparr>)" "boot_fds t"
    using fs_cat_boot [OF assms] by blast
  then have "reports s (s\<lparr>serial := serial s @ [Print x y], FD_TABLE := t\<rparr>)"
    unfolding reports_def by (intro exI [of _ "[Print x y]"] exI [of _ t]) simp
  with t(1) show thesis
    by (rule that)
qed

lemma phase6_files:
  assumes "MOUNTS s = boot_mounts root"
    and "path \<in> {str ''/initrd/motd.txt'', str ''/proc/uptime'', str ''/proc/meminfo'', str ''/nope''}"
    and "resolve path s = Inr i"
  shows "file_content i s \<noteq> None"
proof -
  have res: "resolve (str ''/nope'') s = Inl NotFound" "resolve (str ''/proc/uptime'') s = Inr (ProcFile Uptime)"
      "resolve (str ''/proc/meminfo'') s = Inr (ProcFile Meminfo)"
      "resolve (str ''/initrd/motd.txt'') s = walk_inode (InodeNode root) [str ''motd.txt'']"
    unfolding resolve_boot [OF assms(1)] by (simp_all add: covers_def str_def components_def)
  show ?thesis
    using assms(2,3) res walk_initrd [of root "[str ''motd.txt'']" i]
    by (auto simp: file_content_def simp del: walk_inode.simps)
qed

lemma phase6_reports:
  assumes "MOUNTS s = boot_mounts root" and "boot_fds (FD_TABLE s)"
  obtains s' where "phase6_self_test s = Some s'" "reports s s'"
proof -
  define s0 where "s0 = list_dir_report ''/dev'' (list_dir_report ''/initrd'' s)"
  have ls: "reports s (list_dir_report ''/initrd'' s)"
    by (rule reports_list_dir [OF assms(2)])
  have r0: "reports s s0"
    unfolding s0_def by (rule reports_trans [OF ls reports_list_dir [OF reports_simps(1) [OF ls]]])
  have cat: "\<exists>u. fs_cat path t = Some u \<and> reports s u"
    if "reports s t" "path \<in> {str ''/initrd/motd.txt'', str ''/proc/uptime'', str ''/proc/meminfo'', str ''/nope''}" for t path
  proof -
    have "MOUNTS t = boot_mounts root"
      using reports_simps(2) [OF that(1)] assms(1) by simp
    note files = phase6_files [OF this that(2)]
    note fds = reports_simps(1) [OF that(1)]
    obtain u where "fs_cat path t = Some u" "reports t u"
      by (rule reports_fs_cat [OF fds files])
    with reports_trans [OF that(1)] show ?thesis
      by blast
  qed
  obtain s1 where s1: "fs_cat (str ''/initrd/motd.txt'') s0 = Some s1" "reports s s1"
    using cat [OF r0, of "str ''/initrd/motd.txt''"] by auto
  obtain s2 where s2: "fs_cat (str ''/proc/uptime'') s1 = Some s2" "reports s s2"
    using cat [OF s1(2), of "str ''/proc/uptime''"] by auto
  obtain s3 where s3: "fs_cat (str ''/proc/meminfo'') s2 = Some s3" "reports s s3"
    using cat [OF s2(2), of "str ''/proc/meminfo''"] by auto
  obtain s4 where s4: "fs_cat (str ''/nope'') s3 = Some s4" "reports s s4"
    using cat [OF s3(2), of "str ''/nope''"] by auto
  show thesis
    by (rule that [OF _ s4(2)]) (use s1 s2 s3 s4 in \<open>simp add: phase6_self_test_def s0_def\<close>)
qed

end
