(* ===== verification/Syscall.thy ===== *)
theory Syscall
  imports Fs
begin

unbundle bit_operations_syntax

text \<open>
  System calls (\<open>syscall/mod.rs\<close>): the dispatcher on the saved registers and the \<open>sys_*\<close>
  functions. The user program shares the address space of the kernel, so user memory is the
  byte store \<open>ram\<close>; an access to an unmapped address, which faults, is not distinguished. A
  result is the value put into \<open>rax\<close>, an error its negative code as a 64-bit value. The
  outcome of a dispatch is the updated frame, or the jump back to the kernel that \<open>exit\<close> makes.
\<close>

record syscall_frame =
  f_rax :: u64
  f_rbx :: u64
  f_rcx :: u64
  f_rdx :: u64
  f_rsi :: u64
  f_rdi :: u64
  f_rbp :: u64
  f_r8 :: u64
  f_r9 :: u64
  f_r10 :: u64
  f_r11 :: u64
  f_r12 :: u64
  f_r13 :: u64
  f_r14 :: u64
  f_r15 :: u64

datatype syscall_nr = Write | Exit | Open | Read | Close | Socket | Bind | Connect

fun nr :: "syscall_nr \<Rightarrow> u64" where
  "nr Write = 1"
| "nr Exit = 2"
| "nr Open = 3"
| "nr Read = 4"
| "nr Close = 5"
| "nr Socket = 6"
| "nr Bind = 7"
| "nr Connect = 8"

definition errno_word :: "fs_error \<Rightarrow> u64" where
  "errno_word e = word_of_int (errno e)"

fun cstr_from :: "nat \<Rightarrow> u64 \<Rightarrow> ram \<Rightarrow> byte list option" where
  "cstr_from 0 p m = None"
| "cstr_from (Suc n) p m = (if m p = 0 then Some [] else map_option (\<lambda>bs. m p # bs) (cstr_from n (p + 1) m))"

definition read_user_cstr :: "u64 \<Rightarrow> ('d, 'a) kernel_scheme \<Rightarrow> byte list option" where
  "read_user_cstr ptr s =
     (case cstr_from 256 ptr (ram s) of Some bytes \<Rightarrow> from_utf8 bytes | None \<Rightarrow> None)"

definition sys_open :: "u64 \<Rightarrow> ('d, 'a) kernel_scheme \<Rightarrow> u64 \<times> ('d, 'a) kernel_scheme" where
  "sys_open path_ptr s =
     (case read_user_cstr path_ptr s of
        None \<Rightarrow> (errno_word InvalidArg, s)
      | Some path \<Rightarrow>
          (case fs_open path s of
             (Inr fd, s) \<Rightarrow> (word_of_nat fd, s)
           | (Inl e, s) \<Rightarrow> (errno_word e, s)))"

definition sys_read :: "u64 \<Rightarrow> u64 \<Rightarrow> u64 \<Rightarrow> ('d, 'a) kernel_scheme \<Rightarrow> (u64 \<times> ('d, 'a) kernel_scheme) option" where
  "sys_read fd buf len s = do {
     let n = unat (min len 4096);
     (r, s) \<leftarrow> fs_read (unat fd) n s;
     Some (case r of
       Inr bs \<Rightarrow> (word_of_nat (length bs), s\<lparr>ram := store_bytes buf bs (ram s)\<rparr>)
     | Inl e \<Rightarrow> (errno_word e, s))
   }"

definition sys_write :: "u64 \<Rightarrow> u64 \<Rightarrow> u64 \<Rightarrow> ('d, 'a) kernel_scheme \<Rightarrow> (u64 \<times> ('d, 'a) kernel_scheme) option" where
  "sys_write fd buf len s = do {
     let n = unat (min len 4096);
     let src = load_bytes buf n (ram s);
     (r, s) \<leftarrow> fs_write (unat fd) src s;
     Some (case r of Inr k \<Rightarrow> (word_of_nat k, s) | Inl e \<Rightarrow> (errno_word e, s))
   }"

definition sys_close :: "u64 \<Rightarrow> ('d, 'a) kernel_scheme \<Rightarrow> u64 \<times> ('d, 'a) kernel_scheme" where
  "sys_close fd s =
     (case fs_close (unat fd) s of
        (Inr _, s) \<Rightarrow> (0, s)
      | (Inl e, s) \<Rightarrow> (errno_word e, s))"

definition sys_socket :: "u64 \<Rightarrow> ('d, 'a) kernel_scheme \<Rightarrow> u64 \<times> ('d, 'a) kernel_scheme" where
  "sys_socket proto s =
     (let (idx, s) = socket_new (ucast proto) s in
      case install_inode (SocketInode idx) s of
        (Inr fd, s) \<Rightarrow> (word_of_nat fd, s)
      | (Inl e, s) \<Rightarrow> (errno_word e, s))"

definition sys_bind :: "u64 \<Rightarrow> u64 \<Rightarrow> ('d, 'a) kernel_scheme \<Rightarrow> u64 \<times> ('d, 'a) kernel_scheme" where
  "sys_bind fd port s =
     (case fs_sock_index (unat fd) s of
        Some idx \<Rightarrow> (let (ok, s) = sock_bind idx (ucast port) s in (if ok then 0 else errno_word InvalidArg, s))
      | None \<Rightarrow> (errno_word InvalidArg, s))"

definition ip_of_word :: "u64 \<Rightarrow> ipv4" where
  "ip_of_word ip = ip_at 0 (be32 (ucast ip))"

definition sys_connect :: "u64 \<Rightarrow> u64 \<Rightarrow> u64 \<Rightarrow> ('d, 'a) kernel_scheme \<Rightarrow> u64 \<times> ('d, 'a) kernel_scheme" where
  "sys_connect fd ip port s =
     (case fs_sock_index (unat fd) s of
        Some idx \<Rightarrow>
          (let (ok, s) = sock_connect idx (ip_of_word ip) (ucast port) s in (if ok then 0 else errno_word InvalidArg, s))
      | None \<Rightarrow> (errno_word InvalidArg, s))"

datatype outcome = Resume syscall_frame | ReturnToKernel

definition ret :: "syscall_frame \<Rightarrow> u64 \<times> 's \<Rightarrow> outcome \<times> 's" where
  "ret f r = (Resume (f\<lparr>f_rax := fst r\<rparr>), snd r)"

definition ASigned :: "int \<Rightarrow> fmt_arg" where
  "ASigned i = AStr ((if i < 0 then str ''-'' else []) @ dec (nat \<bar>i\<bar>))"

definition syscall_dispatch ::
  "syscall_frame \<Rightarrow> ('d, 'a) kernel_scheme \<Rightarrow> (outcome \<times> ('d, 'a) kernel_scheme) option" where
  "syscall_dispatch f s =
     (if f_rax f = nr Write then map_option (ret f) (sys_write (f_rdi f) (f_rsi f) (f_rdx f) s)
      else if f_rax f = nr Read then map_option (ret f) (sys_read (f_rdi f) (f_rsi f) (f_rdx f) s)
      else if f_rax f = nr Open then Some (ret f (sys_open (f_rdi f) s))
      else if f_rax f = nr Close then Some (ret f (sys_close (f_rdi f) s))
      else if f_rax f = nr Socket then Some (ret f (sys_socket (f_rdi f) s))
      else if f_rax f = nr Bind then Some (ret f (sys_bind (f_rdi f) (f_rsi f) s))
      else if f_rax f = nr Connect then Some (ret f (sys_connect (f_rdi f) (f_rsi f) (f_rdx f) s))
      else if f_rax f = nr Exit then
        Some (ReturnToKernel, println ''[kernel] user program exited (code={})'' [ASigned (sint (f_rdi f))] s)
      else Some (ret f (word_of_int (- 3), s)))"

end
