(* ===== verification/Syscall_Properties.thy ===== *)
theory Syscall_Properties
  imports Syscall Fs_Properties
begin

text \<open>
  What a user program can rely on, and what it cannot do: every system call returns (or exits),
  results and error codes are told apart by their value, and a read writes into the caller's
  buffer and nowhere else.
\<close>

section \<open>Writes of one inode\<close>

lemma length_load_bytes_4096: "length (load_bytes a (unat (min len (4096 :: u64))) m) \<le> 4096"
proof -
  have "min len 4096 \<le> (4096 :: u64)"
    by simp
  then show ?thesis
    by (simp add: word_le_nat_alt)
qed

lemma unat_min_4096: "unat (min len (4096 :: u64)) \<le> 4096" "unat (min len (4096 :: u64)) \<le> unat len"
  by (simp_all add: min_def word_le_nat_alt)

text \<open>The bytes that the network card's transmit buffer and a datagram of 4096 bytes behind its
  headers can occupy.\<close>

definition tx_area :: "'a e1000_scheme \<Rightarrow> u64 set" where
  "tx_area s = (case NIC s of None \<Rightarrow> {} | Some n \<Rightarrow> addrs (tx_buf n) 4138)"

lemma after_send_ram: "length f \<le> 4138 \<Longrightarrow> a \<notin> tx_area s \<Longrightarrow> ram (after_send f s) a = ram s a"
  using addrs_mono by (fastforce simp: after_send_def tx_area_def split: option.splits intro!: store_bytes_other)

lemma after_send_more [simp]: "FD_TABLE (after_send f s) = FD_TABLE s" "kernel.more (after_send f s) = kernel.more s"
  by (simp_all add: after_send_def split: option.splits)

lemma udp_send_total:
  assumes "drv_ok s" and "length data \<le> 4096"
  shows "\<exists>f. udp_send sport dst dport data s = Some (NIC s \<noteq> None, after_send f s) \<and> length f \<le> 4138"
proof -
  obtain c where c: "udp_datagram sport dst dport data =
      Some (be16 sport @ be16 dport @ be16 (word_of_nat (8 + length data)) @ be16 c @ data)"
    by (rule udp_datagram_built [of data sport dst dport]) (use assms(2) in auto)
  let ?d = "be16 sport @ be16 dport @ be16 (word_of_nat (8 + length data)) @ be16 c @ data"
  have "length ?d \<le> 65515"
    using assms(2) by simp
  then obtain h where h: "length h = 20"
    "ip_send dst PROTO_UDP ?d s = e1000_send (eth_frame (next_hop_mac dst s) (our_mac s) ETHERTYPE_IP (h @ ?d)) s"
    by (rule ip_send_built)
  moreover have "length (eth_frame (next_hop_mac dst s) (our_mac s) ETHERTYPE_IP (h @ ?d)) \<le> 4138"
    using h(1) assms(2) by (simp add: eth_frame_parts)
  ultimately show ?thesis
    using c e1000_send_after [OF assms(1)] by (simp add: udp_send_def) blast
qed

text \<open>What an operation that only prints or transmits keeps.\<close>

definition quiet :: "('d, 'a) kernel_scheme \<Rightarrow> ('d, 'a) kernel_scheme \<Rightarrow> bool" where
  "quiet s s' \<longleftrightarrow>
     FD_TABLE s' = FD_TABLE s \<and> kernel.more s' = kernel.more s \<and> (\<forall>a. a \<notin> tx_area s \<longrightarrow> ram s' a = ram s a)"

lemma quiet_refl [simp]: "quiet s s"
  by (simp add: quiet_def)

lemma quiet_write_bytes: "quiet s (write_bytes data s)"
  by (simp add: quiet_def write_bytes_eq)

lemma quiet_after_send: "length f \<le> 4138 \<Longrightarrow> quiet s (after_send f s)"
  by (simp add: quiet_def after_send_ram)

lemma sendto_total:
  assumes "drv_ok s" and "length data \<le> 4096"
  shows "\<exists>r s'. sendto i dst port data s = Some (r, s') \<and> quiet s s' \<and> (\<forall>n. r = Inr n \<longrightarrow> n = length data)"
proof -
  obtain f where "udp_send (case slot (SOCKETS s) i of Some x \<Rightarrow> local_port x | None \<Rightarrow> 0) dst port data s =
      Some (NIC s \<noteq> None, after_send f s)" "length f \<le> 4138"
    using udp_send_total [OF assms] by blast
  then show ?thesis
    by (simp add: sendto_def Let_def quiet_after_send)
qed

lemma inode_write_total:
  assumes "drv_ok s" and "length data \<le> 4096"
  shows "\<exists>r s'. inode_write i off data s = Some (r, s') \<and> quiet s s' \<and> (\<forall>n. r = Inr n \<longrightarrow> n = length data)"
proof (cases i)
  case (SocketInode j)
  then show ?thesis
    using sendto_total [OF assms, of j] by (auto split: option.splits)
qed (auto simp: quiet_write_bytes)

section \<open>System calls return\<close>

text \<open>Offsets of open files that leave room for one more transfer.\<close>

definition offsets_ok :: "('d, 'a) kernel_scheme \<Rightarrow> bool" where
  "offsets_ok s \<longleftrightarrow> (\<forall>fd f. slot (FD_TABLE s) fd = Some f \<longrightarrow> unat (f_offset f) + 4096 < 2 ^ 64)"

lemma offset_add:
  assumes "unat (off :: u64) + 4096 < 2 ^ 64" and "n \<le> 4096"
  shows "checked_add off (word_of_nat n) = Some (off + word_of_nat n)"
proof -
  have "unat (word_of_nat n :: u64) = n"
    using assms(2) by (simp add: unat_of_nat)
  then show ?thesis
    using assms by (simp add: checked_add_def)
qed

lemma fs_read_total:
  assumes "offsets_ok s" and "cap \<le> 4096"
  shows "\<exists>r s'. fs_read fd cap s = Some (r, s') \<and> ram s' = ram s \<and> kernel.more s' = kernel.more s \<and>
    (\<forall>bs. r = Inr bs \<longrightarrow> length bs \<le> cap)"
proof (cases "slot (FD_TABLE s) fd")
  case (Some f)
  obtain r t where r: "inode_read (f_inode f) (f_offset f) cap s = (r, t)"
    by (cases "inode_read (f_inode f) (f_offset f) cap s")
  note fr = inode_read_frame [OF r]
  show ?thesis
  proof (cases r)
    case (Inr bs)
    then have "checked_add (f_offset f) (word_of_nat (length bs)) = Some (f_offset f + word_of_nat (length bs))"
      using fr assms Some by (intro offset_add) (auto simp: offsets_ok_def)
    then show ?thesis
      using Some r Inr fr by (simp add: fs_read_def)
  qed (use Some r fr in \<open>simp add: fs_read_def\<close>)
qed (simp add: fs_read_def)

lemma fs_write_total:
  assumes "offsets_ok s" and "drv_ok s" and "length data \<le> 4096"
  shows "\<exists>r s'. fs_write fd data s = Some (r, s') \<and> kernel.more s' = kernel.more s \<and>
    (\<forall>a. a \<notin> tx_area s \<longrightarrow> ram s' a = ram s a) \<and> (\<forall>n. r = Inr n \<longrightarrow> n = length data)"
proof (cases "slot (FD_TABLE s) fd")
  case (Some f)
  obtain r t where r: "inode_write (f_inode f) (f_offset f) data s = Some (r, t)" "\<forall>n. r = Inr n \<longrightarrow> n = length data"
    and q: "quiet s t"
    using inode_write_total [OF assms(2,3), of "f_inode f" "f_offset f"] by blast
  show ?thesis
  proof (cases r)
    case (Inr n)
    then have "checked_add (f_offset f) (word_of_nat n) = Some (f_offset f + word_of_nat n)"
      using r(2) assms Some by (intro offset_add) (auto simp: offsets_ok_def)
    then show ?thesis
      using Some r Inr q by (simp add: fs_write_def quiet_def)
  qed (use Some r q in \<open>simp add: fs_write_def quiet_def\<close>)
qed (simp add: fs_write_def)

section \<open>Results\<close>

text \<open>The values a system call puts into \<open>rax\<close>, read as signed numbers: a count or descriptor, or a negative code.\<close>

definition small_result :: "u64 \<Rightarrow> bool" where
  "small_result v \<longleftrightarrow> unat v \<le> 4096"

lemma small_resultI: "n \<le> 4096 \<Longrightarrow> small_result (word_of_nat n)"
  by (simp add: small_result_def unat_of_nat)

lemma errno_word_signed: "sint (errno_word e) = errno e"
  by (cases e) (simp_all add: errno_word_def)

lemma small_result_signed: "small_result v \<Longrightarrow> 0 \<le> sint v \<and> sint v \<le> 4096"
proof -
  assume v: "small_result v"
  have "int (unat v) \<le> int 4096"
    using v unfolding small_result_def by (rule of_nat_mono)
  then have "0 \<le> uint v" "uint v \<le> 4096"
    by simp_all
  moreover have "signed_take_bit 63 k = k" if "0 \<le> k" "k \<le> 4096" for k :: int
    using that by (intro signed_take_bit_int_eq_self) simp_all
  ultimately show ?thesis
    by (simp add: sint_uint)
qed

definition result_ok :: "u64 \<Rightarrow> bool" where
  "result_ok v \<longleftrightarrow> 0 \<le> sint v \<and> sint v \<le> 4096 \<or> sint v \<in> {-2, -3, -5, -13, -20, -21, -22, -28}"

lemma result_ok_errno: "result_ok (errno_word e)"
  unfolding result_ok_def errno_word_signed by (cases e) simp_all

lemma result_ok_small: "n \<le> 4096 \<Longrightarrow> result_ok (word_of_nat n)"
  using small_result_signed [OF small_resultI] by (simp add: result_ok_def)

lemma result_ok_consts: "result_ok 0" "result_ok (word_of_int (- 3))"
  by (simp_all add: result_ok_def)

lemmas result_oks = result_ok_errno result_ok_small result_ok_consts

lemma install_inode_result: "fds_ok s \<Longrightarrow> install_inode i s = (Inr fd, s') \<Longrightarrow> fd < 64"
  by (auto simp: install_inode_def fds_ok_def MAX_FDS_def dest!: install_bound split: option.splits)

lemma fs_open_result: "fds_ok s \<Longrightarrow> fs_open path s = (Inr fd, s') \<Longrightarrow> fd < 64"
  by (auto simp: fs_open_def fds_ok_def MAX_FDS_def dest!: install_bound split: option.splits sum.splits)

lemma sys_open_result: "fds_ok s \<Longrightarrow> result_ok (fst (sys_open p s))"
  using fs_open_result [of s]
  by (fastforce simp: sys_open_def result_ok_errno intro!: result_ok_small split: option.splits sum.splits prod.splits)

lemma sys_socket_result:
  assumes "fds_ok s"
  shows "result_ok (fst (sys_socket p s))"
proof -
  obtain idx t where t: "socket_new (ucast p) s = (idx, t)"
    by (cases "socket_new (ucast p) s")
  then have "fds_ok t"
    using assms by (auto simp: socket_new_def fds_ok_def split: prod.splits)
  then show ?thesis
    using install_inode_result [of t "SocketInode idx"] t
    by (cases "install_inode (SocketInode idx) t" rule: prod.exhaust)
      (auto simp: sys_socket_def result_oks split: sum.splits)
qed

lemma sys_simple_results: "result_ok (fst (sys_close fd s))" "result_ok (fst (sys_bind fd p s))" "result_ok (fst (sys_connect fd ip p s))"
  by (auto simp: sys_close_def sys_bind_def sys_connect_def result_oks split: option.splits sum.splits prod.splits)

lemma sys_read_total:
  assumes "offsets_ok s"
  shows "\<exists>v s'. sys_read fd buf len s = Some (v, s') \<and> result_ok v \<and> kernel.more s' = kernel.more s \<and>
    (\<forall>a. a \<notin> addrs buf (unat (min len 4096)) \<longrightarrow> ram s' a = ram s a)"
proof -
  let ?n = "unat (min len 4096)"
  obtain r t where r: "fs_read (unat fd) ?n s = Some (r, t)" "ram t = ram s" "kernel.more t = kernel.more s"
    "\<forall>bs. r = Inr bs \<longrightarrow> length bs \<le> ?n"
    using fs_read_total [OF assms unat_min_4096(1)] by blast
  show ?thesis
  proof (cases r)
    case (Inr bs)
    then have "length bs \<le> 4096" "addrs buf (length bs) \<subseteq> addrs buf ?n"
      using r(4) unat_min_4096(1) [of len] by (auto intro!: addrs_mono)
    then show ?thesis
      using r Inr store_bytes_other [of _ buf bs "ram s"]
      by (auto simp: sys_read_def intro!: result_ok_small)
  qed (use r in \<open>simp add: sys_read_def result_ok_errno\<close>)
qed

lemma sys_write_total:
  assumes "offsets_ok s" and "drv_ok s"
  shows "\<exists>v s'. sys_write fd buf len s = Some (v, s') \<and> result_ok v \<and> kernel.more s' = kernel.more s \<and>
    (\<forall>a. a \<notin> tx_area s \<longrightarrow> ram s' a = ram s a)"
proof -
  let ?src = "load_bytes buf (unat (min len 4096)) (ram s)"
  obtain r t where "fs_write (unat fd) ?src s = Some (r, t)" "\<forall>n. r = Inr n \<longrightarrow> n = length ?src"
    "kernel.more t = kernel.more s" "\<forall>a. a \<notin> tx_area s \<longrightarrow> ram t a = ram s a"
    using fs_write_total [OF assms length_load_bytes_4096] by blast
  then show ?thesis
    using length_load_bytes_4096 [of buf len "ram s"]
    by (auto simp: sys_write_def result_ok_errno intro!: result_ok_small split: sum.splits)
qed

text \<open>The memory a system call may write: the buffer of a read, the transmit buffer for a write.\<close>

definition touched :: "syscall_frame \<Rightarrow> 'a e1000_scheme \<Rightarrow> u64 set" where
  "touched f s =
     (if f_rax f = nr Read then addrs (f_rsi f) (unat (min (f_rdx f) 4096))
      else if f_rax f = nr Write then tx_area s else {})"

definition same_memory :: "('d, 'a) kernel_scheme \<Rightarrow> ('d, 'a) kernel_scheme \<Rightarrow> bool" where
  "same_memory s s' \<longleftrightarrow> ram s' = ram s \<and> kernel.more s' = kernel.more s"

lemma sys_simple_memory:
  "same_memory s (snd (sys_open p s))" "same_memory s (snd (sys_close fd s))" "same_memory s (snd (sys_socket pr s))"
  "same_memory s (snd (sys_bind fd port s))" "same_memory s (snd (sys_connect fd ip port s))"
  by (auto simp: same_memory_def sys_open_def fs_open_def sys_close_def fs_close_def sys_socket_def socket_new_def
      install_inode_def sys_bind_def sock_bind_def sys_connect_def sock_connect_def Let_def update_slot_def
      split: option.splits sum.splits prod.splits if_splits)

lemma syscall_effects:
  assumes "fds_ok s" and "offsets_ok s" and "drv_ok s"
  shows "\<exists>out s'. syscall_dispatch f s = Some (out, s') \<and> (out = ReturnToKernel \<longleftrightarrow> f_rax f = 2) \<and>
    (\<forall>f'. out = Resume f' \<longrightarrow> f'\<lparr>f_rax := f_rax f\<rparr> = f \<and> result_ok (f_rax f')) \<and>
    kernel.more s' = kernel.more s \<and> (\<forall>a. a \<notin> touched f s \<longrightarrow> ram s' a = ram s a)"
proof -
  obtain v s1 where w: "sys_write (f_rdi f) (f_rsi f) (f_rdx f) s = Some (v, s1)" "result_ok v" "kernel.more s1 = kernel.more s"
    "\<forall>a. a \<notin> tx_area s \<longrightarrow> ram s1 a = ram s a"
    using sys_write_total [OF assms(2,3)] by blast
  obtain u s2 where r: "sys_read (f_rdi f) (f_rsi f) (f_rdx f) s = Some (u, s2)" "result_ok u" "kernel.more s2 = kernel.more s"
    "\<forall>a. a \<notin> addrs (f_rsi f) (unat (min (f_rdx f) 4096)) \<longrightarrow> ram s2 a = ram s a"
    using sys_read_total [OF assms(2)] by blast
  show ?thesis
    using w r sys_simple_memory [of s, unfolded same_memory_def]
    by (simp add: syscall_dispatch_def ret_def sys_simple_results sys_open_result [OF assms(1)] touched_def
        sys_socket_result [OF assms(1)] result_ok_consts [simplified] println_def print_def)
qed


text \<open>C34. A read fills the caller's buffer and nothing else: whatever address and length the program passes, at
  most the first 4096 bytes of that range are written, they are the bytes the file delivered,
  the result is their number, and after an error the memory is unchanged.\<close>

theorem sys_read_confined:
  assumes "offsets_ok s"
  shows "\<exists>r t v s'. fs_read (unat fd) (unat (min len 4096)) s = Some (r, t) \<and> sys_read fd buf len s = Some (v, s') \<and>
    (\<forall>a. a \<notin> addrs buf (unat (min len 4096)) \<longrightarrow> ram s' a = ram s a) \<and>
    (case r of
       Inr bs \<Rightarrow> unat v = length bs \<and> unat v \<le> unat len \<and> load_bytes buf (unat v) (ram s') = bs
     | Inl e \<Rightarrow> sint v = errno e \<and> ram s' = ram s)"
proof -
  let ?n = "unat (min len 4096)"
  obtain r t where r: "fs_read (unat fd) ?n s = Some (r, t)" "ram t = ram s" "\<forall>bs. r = Inr bs \<longrightarrow> length bs \<le> ?n"
    using fs_read_total [OF assms unat_min_4096(1)] by blast
  show ?thesis
  proof (cases r)
    case (Inl e)
    then show ?thesis
      using r by (simp add: sys_read_def errno_word_signed)
  next
    case (Inr bs)
    then have bs: "length bs \<le> ?n" "length bs \<le> 4096" "length bs \<le> unat len"
      using r(3) unat_min_4096 [of len] by auto
    then have "unat (word_of_nat (length bs) :: u64) = length bs"
      by (simp add: unat_of_nat)
    moreover have "store_bytes buf bs (ram s) a = ram s a" if "a \<notin> addrs buf ?n" for a
      using that addrs_mono [OF bs(1)] by (intro store_bytes_other) blast
    moreover have "load_bytes buf (length bs) (store_bytes buf bs (ram s)) = bs"
      using bs(2) by (intro load_store) simp
    ultimately show ?thesis
      using r Inr bs by (simp add: sys_read_def)
  qed
qed

lemma demo_kernel_ok: "fds_ok demo_kernel" "offsets_ok demo_kernel" "drv_ok demo_kernel"
proof -
  show "fds_ok demo_kernel"
    by (simp add: fds_ok_def demo_kernel_def MAX_FDS_def)
  show "drv_ok demo_kernel"
    by (simp add: drv_ok_def demo_kernel_def demo_nic_ok)
  have "f_offset f = 0 \<or> f_offset f = 2" if "slot (FD_TABLE demo_kernel) fd = Some f" for fd f
    using slot_SomeD [OF that] nth_mem [of fd "FD_TABLE demo_kernel"] by (auto simp: demo_kernel_def)
  then show "offsets_ok demo_kernel"
    by (fastforce simp: offsets_ok_def)
qed

definition demo_frame :: syscall_frame where
  "demo_frame = \<lparr>f_rax = 99, f_rbx = 1, f_rcx = 2, f_rdx = 3, f_rsi = 4, f_rdi = 5, f_rbp = 6, f_r8 = 7, f_r9 = 8,
     f_r10 = 9, f_r11 = 10, f_r12 = 11, f_r13 = 12, f_r14 = 13, f_r15 = 14\<rparr>"


theorem sys_read_confined_witness:
  "\<exists>v s'. sys_read 1 0x5000 7 demo_kernel = Some (v, s') \<and> (\<forall>a. a \<notin> addrs 0x5000 7 \<longrightarrow> ram s' a = ram demo_kernel a)"
  using sys_read_confined [OF demo_kernel_ok(2), of 1 7 "0x5000"] by auto

end
