(* ===== verification/Elf.thy ===== *)
theory Elf
  imports E1000_Properties
begin

unbundle bit_operations_syntax

text \<open>
  The ELF loader (\<open>process/elf.rs\<close>): the program header table is walked, the pages of each
  loadable segment are mapped for user access, its file bytes are copied and the rest is
  zeroed, then the user stack is mapped. Offsets and sizes of type \<open>usize\<close> are natural
  numbers: a sum that overflows is beyond the end of the file, where the access panics as the
  overflow would. The user program shares the address space of the kernel, so its memory is
  the byte store \<open>ram\<close>, by virtual address; the protection bits are recorded in the page table
  but a write of the kernel through them always succeeds.
\<close>

definition ELF_MAGIC :: "byte list" where "ELF_MAGIC = [0x7f, 0x45, 0x4c, 0x46]"
definition PT_LOAD :: u32 where "PT_LOAD = 1"
definition PF_W :: u32 where "PF_W = 0x2"
definition PF_X :: u32 where "PF_X = 0x1"
definition USER_STACK_TOP :: u64 where "USER_STACK_TOP = 0x00500000"
definition USER_STACK_PAGES :: nat where "USER_STACK_PAGES = 4"

record loaded_image =
  img_entry :: u64
  stack_top :: u64

definition u16_at :: "byte list \<Rightarrow> nat \<Rightarrow> u16 option" where
  "u16_at b off = do {
     b0 \<leftarrow> get_at b off;
     b1 \<leftarrow> get_at b (off + 1);
     Some (word_of_nat (le_val [b0, b1]))
   }"

definition u32_at :: "byte list \<Rightarrow> nat \<Rightarrow> u32 option" where
  "u32_at b off = do {
     b0 \<leftarrow> get_at b off;
     b1 \<leftarrow> get_at b (off + 1);
     b2 \<leftarrow> get_at b (off + 2);
     b3 \<leftarrow> get_at b (off + 3);
     Some (word_of_nat (le_val [b0, b1, b2, b3]))
   }"

definition u64_at :: "byte list \<Rightarrow> nat \<Rightarrow> u64 option" where
  "u64_at b off = do {
     a \<leftarrow> slice off (off + 8) b;
     Some (word_of_nat (le_val a))
   }"

text \<open>\<open>VirtAddr::new\<close> panics for an address that is not canonical.\<close>

definition virt_addr :: "u64 \<Rightarrow> u64 option" where
  "virt_addr a = (if unat a < 2 ^ 47 \<or> 2 ^ 64 - 2 ^ 47 \<le> unat a then Some a else None)"

definition ensure_mapped ::
  "map_to_fn \<Rightarrow> u64 \<Rightarrow> pflag set \<Rightarrow> 'a e1000_scheme \<Rightarrow> 'a e1000_scheme option" where
  "ensure_mapped map_to page flags s = do {
     t \<leftarrow> translate page s;
     (case t of
        Some _ \<Rightarrow> Some s
      | None \<Rightarrow>
          (let (frame, s) = vmm_alloc_frame s in
           do {
             frame \<leftarrow> frame;
             (r, s) \<leftarrow> map_page map_to page frame flags s;
             (case r of
                Inl _ \<Rightarrow> None
              | Inr _ \<Rightarrow> Some (s\<lparr>ram := store_bytes page (replicate 4096 0) (ram s)\<rparr>))
           }))
   }"

record phdr =
  flags_dw :: u32
  ph_off :: nat
  vaddr :: u64
  filesz :: nat
  memsz :: nat

definition read_phdr :: "byte list \<Rightarrow> nat \<Rightarrow> phdr option" where
  "read_phdr elf p = do {
     fl \<leftarrow> u32_at elf (p + 4);
     off \<leftarrow> u64_at elf (p + 8);
     va \<leftarrow> u64_at elf (p + 16);
     fsz \<leftarrow> u64_at elf (p + 32);
     msz \<leftarrow> u64_at elf (p + 40);
     Some \<lparr>flags_dw = fl, ph_off = unat off, vaddr = va, filesz = unat fsz, memsz = unat msz\<rparr>
   }"

definition pt_flags :: "phdr \<Rightarrow> pflag set" where
  "pt_flags ph =
     (let fl = {PRESENT, USER_ACCESSIBLE};
          fl = (if flags_dw ph AND PF_W \<noteq> 0 then insert WRITABLE fl else fl)
      in if flags_dw ph AND PF_X = 0 then insert NO_EXECUTE fl else fl)"

fun ensure_pages ::
  "map_to_fn \<Rightarrow> pflag set \<Rightarrow> nat list \<Rightarrow> 'a e1000_scheme \<Rightarrow> 'a e1000_scheme option" where
  "ensure_pages map_to flags [] s = Some s"
| "ensure_pages map_to flags (pg # pgs) s = do {
     a \<leftarrow> virt_addr (word_of_nat pg * 4096);
     s \<leftarrow> ensure_mapped map_to (page_of a) flags s;
     ensure_pages map_to flags pgs s
   }"

definition load_segment :: "map_to_fn \<Rightarrow> byte list \<Rightarrow> phdr \<Rightarrow> 'a e1000_scheme \<Rightarrow> 'a e1000_scheme option" where
  "load_segment map_to elf ph s = do {
     let start_page = vaddr ph div 4096;
     e \<leftarrow> checked_add (vaddr ph) (word_of_nat (memsz ph));
     e \<leftarrow> checked_add e 4095;
     let end_page = e div 4096;
     s \<leftarrow> ensure_pages map_to (pt_flags ph) [unat start_page..<unat end_page] s;
     src \<leftarrow> slice (ph_off ph) (ph_off ph + filesz ph) elf;
     let s = s\<lparr>ram := store_bytes (vaddr ph) src (ram s)\<rparr>;
     (if memsz ph > filesz ph then do {
        bss \<leftarrow> checked_add (vaddr ph) (word_of_nat (filesz ph));
        Some (s\<lparr>ram := store_bytes bss (replicate (memsz ph - filesz ph) 0) (ram s)\<rparr>)
      }
      else Some s)
   }"

fun load_segments ::
  "map_to_fn \<Rightarrow> byte list \<Rightarrow> nat \<Rightarrow> nat \<Rightarrow> nat list \<Rightarrow> 'a e1000_scheme \<Rightarrow> 'a e1000_scheme option" where
  "load_segments map_to elf phoff phentsize [] s = Some s"
| "load_segments map_to elf phoff phentsize (i # is) s = do {
     let p = phoff + i * phentsize;
     ty \<leftarrow> u32_at elf p;
     (if ty \<noteq> PT_LOAD then load_segments map_to elf phoff phentsize is s
      else do {
        ph \<leftarrow> read_phdr elf p;
        s \<leftarrow> load_segment map_to elf ph s;
        load_segments map_to elf phoff phentsize is s
      })
   }"

definition stack_flags :: "pflag set" where
  "stack_flags = {PRESENT, USER_ACCESSIBLE, WRITABLE, NO_EXECUTE}"

fun map_stack :: "map_to_fn \<Rightarrow> nat list \<Rightarrow> 'a e1000_scheme \<Rightarrow> 'a e1000_scheme option" where
  "map_stack map_to [] s = Some s"
| "map_stack map_to (i # is) s = do {
     addr \<leftarrow> checked_sub USER_STACK_TOP (word_of_nat (i + 1) * 4096);
     a \<leftarrow> virt_addr addr;
     s \<leftarrow> ensure_mapped map_to (page_of a) stack_flags s;
     map_stack map_to is s
   }"

definition elf_load ::
  "map_to_fn \<Rightarrow> byte list \<Rightarrow> 'a e1000_scheme \<Rightarrow> ((string + loaded_image) \<times> 'a e1000_scheme) option" where
  "elf_load map_to elf s =
     (if length elf < 64 \<or> take 4 elf \<noteq> ELF_MAGIC then Some (Inl ''not an ELF64 file'', s)
      else if elf ! 4 \<noteq> 2 then Some (Inl ''not ELFCLASS64'', s)
      else do {
        entry \<leftarrow> u64_at elf 0x18;
        phoff \<leftarrow> u64_at elf 0x20;
        phentsize \<leftarrow> u16_at elf 0x36;
        phnum \<leftarrow> u16_at elf 0x38;
        s \<leftarrow> load_segments map_to elf (unat phoff) (unat phentsize) [0..<unat phnum] s;
        s \<leftarrow> map_stack map_to [0..<USER_STACK_PAGES] s;
        Some (Inr \<lparr>img_entry = entry, stack_top = USER_STACK_TOP\<rparr>, s)
      })"

end
