(* ===== verification/Elf_Properties.thy ===== *)
theory Elf_Properties
  imports Elf
begin

text \<open>
  The loader puts the program image into memory: \<open>elf_load_image\<close> states it for a file whose
  program headers are in range and describe disjoint segments below \<open>2 ^ 47\<close>, given enough
  free frames. \<open>extends\<close> says how memory may change while pages are being added; it composes,
  so each loop is one induction.
\<close>

section \<open>Growing the address space\<close>

text \<open>From \<open>s\<close> to \<open>t\<close>, only pages of \<open>P\<close> are added, with user access; pages mapped before keep their
  mapping and their bytes outside \<open>R\<close>; each added page costs at most four frames.\<close>

definition frames_ok :: "nat \<Rightarrow> 'a e1000_scheme \<Rightarrow> bool" where
  "frames_ok n s \<longleftrightarrow> pmm_inv (FRAME_ALLOCATOR s) \<and> READY s \<and> 4 * n \<le> card (free_addrs (FRAME_ALLOCATOR s))"

text \<open>The loader changes the frame allocator, the page table and memory, nothing else.\<close>

definition only_memory :: "'a e1000_scheme \<Rightarrow> 'a e1000_scheme \<Rightarrow> bool" where
  "only_memory s t \<longleftrightarrow> t = s\<lparr>FRAME_ALLOCATOR := FRAME_ALLOCATOR t, page_table := page_table t, ram := ram t\<rparr>"

lemma only_memory_trans: "only_memory s t \<Longrightarrow> only_memory t u \<Longrightarrow> only_memory s u"
  by (cases s; cases t; cases u) (simp add: only_memory_def)

definition extends :: "u64 set \<Rightarrow> u64 set \<Rightarrow> 'a e1000_scheme \<Rightarrow> 'a e1000_scheme \<Rightarrow> bool" where
  "extends P R s t \<longleftrightarrow> only_memory s t \<and>
     (\<forall>p. page_table s p \<noteq> None \<longrightarrow> page_table t p = page_table s p) \<and>
     (\<forall>p f fl. page_table s p = None \<and> page_table t p = Some (f, fl) \<longrightarrow> p \<in> P \<and> PRESENT \<in> fl \<and> USER_ACCESSIBLE \<in> fl) \<and>
     (\<forall>a. page_table s (page_of a) \<noteq> None \<and> a \<notin> R \<longrightarrow> ram t a = ram s a)"

lemma extends_refl: "extends P R s s"
  by (auto simp: extends_def only_memory_def)

lemma extends_trans:
  assumes st: "extends P R s t" and tu: "extends P' R' t u"
  shows "extends (P \<union> P') (R \<union> R') s u"
  unfolding extends_def
proof (intro conjI allI impI; (elim conjE)?)
  show "only_memory s u"
    using st tu only_memory_trans by (auto simp: extends_def)
next
  fix p
  assume "page_table s p \<noteq> None"
  then show "page_table u p = page_table s p"
    using st tu by (simp add: extends_def)
next
  fix p f fl
  assume p: "page_table s p = None" "page_table u p = Some (f, fl)"
  show "p \<in> P \<union> P'" "PRESENT \<in> fl" "USER_ACCESSIBLE \<in> fl"
    using p st tu unfolding extends_def by (cases "page_table t p"; fastforce)+
next
  fix a
  assume "page_table s (page_of a) \<noteq> None" "a \<notin> R \<union> R'"
  then show "ram u a = ram s a"
    using st tu by (simp add: extends_def)
qed

lemma extends_mono: "extends P R s t \<Longrightarrow> P \<subseteq> P' \<Longrightarrow> R \<subseteq> R' \<Longrightarrow> extends P' R' s t"
  unfolding extends_def by blast

lemma extends_mapped: "extends P R s t \<Longrightarrow> page_table s p \<noteq> None \<Longrightarrow> page_table t p \<noteq> None"
  by (simp add: extends_def)

lemma extends_load:
  assumes "extends P R s t" and "\<forall>a\<in>addrs a0 n. page_table s (page_of a) \<noteq> None" and "addrs a0 n \<inter> R = {}"
  shows "load_bytes a0 n (ram t) = load_bytes a0 n (ram s)"
  using assms unfolding extends_def by (intro load_bytes_cong) (metis disjoint_iff)

lemma frames_ok_mono: "frames_ok n s \<Longrightarrow> m \<le> n \<Longrightarrow> frames_ok m s"
  by (auto simp: frames_ok_def)

lemma frames_ok_ram [simp]: "frames_ok n (s\<lparr>ram := r\<rparr>) = frames_ok n s"
  by (simp add: frames_ok_def)

subsection \<open>Pages\<close>

lemma checked_add_nat:
  fixes a :: u64
  assumes "unat a + n < 2 ^ 64"
  shows "checked_add a (word_of_nat n) = Some (a + word_of_nat n)" and "unat (a + word_of_nat n) = unat a + n"
proof -
  have n: "unat (word_of_nat n :: u64) = n"
    using assms by (subst unat_of_nat) simp
  then show c: "checked_add a (word_of_nat n) = Some (a + word_of_nat n)"
    using assms by (simp add: checked_add_def)
  show "unat (a + word_of_nat n) = unat a + n"
    using checked_add_Some_unat [OF c] n by simp
qed

lemma unat_page_of: "unat (page_of a) = unat a div 4096 * 4096"
proof -
  have "unat (a mod 4096) = unat a mod 4096"
    by (simp add: unat_mod_distrib)
  moreover have "a mod 4096 \<le> a"
    by (simp add: word_le_nat_alt unat_mod_distrib)
  ultimately have "unat (page_of a) = unat a - unat a mod 4096"
    by (simp add: page_of_def unat_sub)
  then show ?thesis
    by (simp add: minus_mod_eq_div_mult)
qed

lemma page_of_eq_iff: "page_of a = page_of b \<longleftrightarrow> unat a div 4096 = unat b div 4096"
  by (simp add: word_unat_eq_iff unat_page_of)

definition page_addr :: "nat \<Rightarrow> u64" where
  "page_addr k = word_of_nat k * 4096"

lemma unat_page_addr: "k < 2 ^ 52 \<Longrightarrow> unat (page_addr k) = k * 4096"
proof -
  assume "k < 2 ^ 52"
  then have "unat (word_of_nat (k * 4096) :: u64) = k * 4096"
    by (subst unat_of_nat) simp
  then show ?thesis
    by (simp add: page_addr_def)
qed

lemma page_of_page_addr: "k < 2 ^ 52 \<Longrightarrow> page_of (page_addr k) = page_addr k"
  by (simp add: word_unat_eq_iff unat_page_of unat_page_addr)

lemma page_of_eq_page_addr: "page_of a = page_addr (unat a div 4096)"
proof -
  have "unat a div 4096 < 2 ^ 52"
    using unat_u64_less [of a] by simp
  then show ?thesis
    by (simp add: word_unat_eq_iff unat_page_of unat_page_addr)
qed

lemma page_of_idem [simp]: "page_of (page_of a) = page_of a"
  by (simp add: page_of_eq_iff unat_page_of)

lemma addrs_page: "addrs (page_addr k) 4096 = {a. unat a div 4096 = k}" if "k < 2 ^ 52"
proof (intro equalityI subsetI)
  fix a assume "a \<in> addrs (page_addr k) 4096"
  then obtain i where i: "i < 4096" "a = page_addr k + word_of_nat i"
    by (auto simp: addrs_def)
  have "unat a = k * 4096 + i"
    using i checked_add_nat(2) [of "page_addr k" i] that by (simp add: unat_page_addr)
  then show "a \<in> {a. unat a div 4096 = k}"
    using i(1) by simp
next
  fix a assume "a \<in> {a :: u64. unat a div 4096 = k}"
  then have "page_of a = page_addr k"
    by (simp add: page_of_eq_page_addr)
  moreover have "a mod 4096 = word_of_nat (unat a mod 4096)"
    by (simp add: word_unat_eq_iff unat_mod_distrib unat_of_nat)
  ultimately have "a = page_addr k + word_of_nat (unat a mod 4096)"
    by (metis page_of_def diff_add_cancel)
  then show "a \<in> addrs (page_addr k) 4096"
    unfolding addrs_def by (intro image_eqI [of _ _ "unat a mod 4096"]) simp_all
qed

section \<open>The loops of the loader\<close>

lemma ensure_mapped_ok:
  assumes "mapper_ok map_to" and "frames_ok (Suc n) s" and "k < 2 ^ 52" and "{PRESENT, USER_ACCESSIBLE} \<subseteq> fl"
  obtains t where "ensure_mapped map_to (page_addr k) fl s = Some t" "extends {page_addr k} {} s t" "frames_ok n t"
    "page_table t (page_addr k) \<noteq> None"
proof (cases "page_table s (page_addr k)")
  case (Some x)
  have mod0: "page_addr k mod 4096 = 0"
    using page_of_page_addr [OF assms(3)] by (simp add: page_of_def)
  show thesis
    by (rule that [of s])
      (use Some assms(2) mod0 in \<open>auto simp: ensure_mapped_def translate_def active_mapper_def phys_offset_def
        frames_ok_def extends_refl split: prod.splits\<close>)
next
  case None
  have mod0: "page_addr k mod 4096 = 0"
    using page_of_page_addr [OF assms(3)] by (simp add: page_of_def)
  have s: "pmm_inv (FRAME_ALLOCATOR s)" "READY s" "4 \<le> card (free_addrs (FRAME_ALLOCATOR s))"
    using assms(2) by (auto simp: frames_ok_def)
  from allocate_and_map_ok [OF assms(1) s None, of fl]
  obtain f u where u: "allocate_and_map map_to (page_addr k) fl s = Some (Inr f, u)"
    "page_table u = (page_table s)(page_addr k \<mapsto> (f, fl))" "READY u" "pmm_inv (FRAME_ALLOCATOR u)"
    "card (free_addrs (FRAME_ALLOCATOR s)) \<le> card (free_addrs (FRAME_ALLOCATOR u)) + 4"
    by blast
  have ram: "ram u = ram s" "only_memory s u"
    using u(1) unfolding only_memory_def by (auto simp: allocate_and_map_def map_page_def Let_def split: prod.splits option.splits if_splits bind_splits sum.splits)
  let ?t = "u\<lparr>ram := store_bytes (page_addr k) (replicate 4096 0) (ram u)\<rparr>"
  have "ensure_mapped map_to (page_addr k) fl s = Some ?t"
    using u(1) None s(2) mod0
    by (auto simp: ensure_mapped_def translate_def active_mapper_def phys_offset_def vmm_alloc_frame_def
        allocate_and_map_def map_page_def Let_def split: prod.splits option.splits if_splits bind_splits sum.splits)
  moreover have "only_memory u ?t"
    by (simp add: only_memory_def)
  with ram(2) have "only_memory s ?t"
    by (rule only_memory_trans)
  then have "extends {page_addr k} {} s ?t"
    using assms(4) None addrs_page [OF assms(3)]
    by (auto simp: extends_def u(2) ram(1) page_of_eq_page_addr intro!: store_bytes_other)
  moreover have "frames_ok n ?t"
    using u assms(2) by (auto simp: frames_ok_def)
  ultimately show thesis
    by (intro that [of ?t]) (simp_all add: u(2))
qed

lemma ensure_pages_ok:
  assumes "mapper_ok map_to" and "{PRESENT, USER_ACCESSIBLE} \<subseteq> fl"
  shows "frames_ok (length pgs + n) s \<Longrightarrow> \<forall>k\<in>set pgs. k < 2 ^ 35 \<Longrightarrow>
    \<exists>t. ensure_pages map_to fl pgs s = Some t \<and> extends (page_addr ` set pgs) {} s t \<and> frames_ok n t \<and>
      (\<forall>k\<in>set pgs. page_table t (page_addr k) \<noteq> None)"
proof (induction pgs arbitrary: s)
  case Nil
  then show ?case
    by (simp add: extends_refl)
next
  case (Cons k pgs)
  then have k: "k < 2 ^ 35" "k < 2 ^ 52"
    by auto
  have fr: "frames_ok (Suc (length pgs + n)) s"
    using Cons.prems(1) by simp
  from ensure_mapped_ok [OF assms(1) fr k(2) assms(2)]
  obtain t where t: "ensure_mapped map_to (page_addr k) fl s = Some t" "extends {page_addr k} {} s t"
    "frames_ok (length pgs + n) t" "page_table t (page_addr k) \<noteq> None"
    by blast
  from Cons.IH [OF t(3)] Cons.prems(2)
  obtain u where u: "ensure_pages map_to fl pgs t = Some u" "extends (page_addr ` set pgs) {} t u" "frames_ok n u"
    "\<forall>k\<in>set pgs. page_table u (page_addr k) \<noteq> None"
    by auto
  have "virt_addr (word_of_nat k * 4096) = Some (page_addr k)"
    using k unat_page_addr [OF k(2)] by (simp add: virt_addr_def page_addr_def)
  then have "ensure_pages map_to fl (k # pgs) s = Some u"
    using t(1) u(1) by (simp add: page_of_page_addr [OF k(2)])
  then show ?case
    using extends_trans [OF t(2) u(2)] u extends_mapped [OF u(2) t(4)] by auto
qed

section \<open>Segments\<close>

definition segment_image :: "byte list \<Rightarrow> phdr \<Rightarrow> byte list" where
  "segment_image elf ph = take (filesz ph) (drop (ph_off ph) elf) @ replicate (memsz ph - filesz ph) 0"

definition seg_ok :: "byte list \<Rightarrow> phdr \<Rightarrow> bool" where
  "seg_ok elf ph \<longleftrightarrow>
     ph_off ph + filesz ph \<le> length elf \<and> filesz ph \<le> memsz ph \<and> unat (vaddr ph) + memsz ph + 4095 < 2 ^ 47"

definition seg_addrs :: "phdr \<Rightarrow> u64 set" where
  "seg_addrs ph = addrs (vaddr ph) (memsz ph)"

definition seg_pages :: "phdr \<Rightarrow> nat list" where
  "seg_pages ph = [unat (vaddr ph) div 4096..<(unat (vaddr ph) + memsz ph + 4095) div 4096]"

definition seg_loaded :: "byte list \<Rightarrow> phdr \<Rightarrow> 'a e1000_scheme \<Rightarrow> bool" where
  "seg_loaded elf ph t \<longleftrightarrow>
     load_bytes (vaddr ph) (memsz ph) (ram t) = segment_image elf ph \<and>
     (\<forall>a\<in>seg_addrs ph. page_table t (page_of a) \<noteq> None)"

lemma store_bytes_append:
  "store_bytes a (xs @ ys) m = store_bytes (a + word_of_nat (length xs)) ys (store_bytes a xs m)"
  by (induction a xs m rule: store_bytes.induct) (simp_all add: add.assoc del: fun_upd_apply)

lemma length_segment_image: "seg_ok elf ph \<Longrightarrow> length (segment_image elf ph) = memsz ph"
  by (auto simp: segment_image_def seg_ok_def)

lemma seg_in_pages:
  assumes "seg_ok elf ph" and "a \<in> seg_addrs ph"
  shows "unat a div 4096 \<in> set (seg_pages ph)"
proof -
  obtain i where i: "i < memsz ph" "a = vaddr ph + word_of_nat i"
    using assms(2) by (auto simp: seg_addrs_def addrs_def)
  have "unat a = unat (vaddr ph) + i"
    unfolding i(2) by (rule checked_add_nat) (use i(1) assms(1) in \<open>simp add: seg_ok_def\<close>)
  with i(1) show ?thesis
    by (auto simp: seg_pages_def)
qed

lemma load_segment_ok:
  assumes "mapper_ok map_to" and ph: "seg_ok elf ph" and "frames_ok (length (seg_pages ph) + n) s"
  shows "\<exists>t. load_segment map_to elf ph s = Some t \<and> seg_loaded elf ph t \<and> frames_ok n t \<and>
    extends (page_addr ` set (seg_pages ph)) (seg_addrs ph) s t"
proof -
  have sz: "filesz ph < 2 ^ 64" "memsz ph < 2 ^ 64" "unat (vaddr ph) + memsz ph + 4095 < 2 ^ 64"
    using ph by (auto simp: seg_ok_def)
  define e where "e = vaddr ph + word_of_nat (memsz ph)"
  have e: "checked_add (vaddr ph) (word_of_nat (memsz ph)) = Some e" "unat e = unat (vaddr ph) + memsz ph"
    unfolding e_def using sz by (auto intro!: checked_add_nat)
  have e': "checked_add e 4095 = Some (e + 4095)" "unat (e + 4095) = unat (vaddr ph) + memsz ph + 4095"
    using checked_add_nat [of e 4095] sz(3) by (auto simp: e(2))
  have pages: "[unat (vaddr ph div 4096)..<unat ((e + 4095) div 4096)] = seg_pages ph"
    by (simp add: seg_pages_def unat_div_distrib e'(2))
  have "{PRESENT, USER_ACCESSIBLE} \<subseteq> pt_flags ph"
    by (auto simp: pt_flags_def Let_def)
  from ensure_pages_ok [OF assms(1) this assms(3)]
  obtain t where t: "ensure_pages map_to (pt_flags ph) (seg_pages ph) s = Some t"
    "extends (page_addr ` set (seg_pages ph)) {} s t" "frames_ok n t"
    "\<forall>k\<in>set (seg_pages ph). page_table t (page_addr k) \<noteq> None"
    using ph by (fastforce simp: seg_pages_def seg_ok_def)
  let ?t = "t\<lparr>ram := store_bytes (vaddr ph) (segment_image elf ph) (ram t)\<rparr>"
  have bss: "checked_add (vaddr ph) (word_of_nat (filesz ph)) = Some (vaddr ph + word_of_nat (filesz ph))"
    by (rule checked_add_nat) (use ph in \<open>simp add: seg_ok_def\<close>)
  have len: "length (take (filesz ph) (drop (ph_off ph) elf)) = filesz ph"
    using ph by (auto simp: seg_ok_def)
  have "load_segment map_to elf ph s = Some ?t"
    using ph t(1) len
    by (simp add: load_segment_def e e' pages bss slice_def seg_ok_def segment_image_def store_bytes_append Let_def)
  moreover have "seg_loaded elf ph ?t"
    using t(4) seg_in_pages [OF ph] load_store [of "segment_image elf ph" "vaddr ph" "ram t"] sz(2)
    by (auto simp: seg_loaded_def length_segment_image [OF ph] page_of_eq_page_addr)
  moreover have "extends {} (seg_addrs ph) t ?t"
    by (auto simp: extends_def only_memory_def seg_addrs_def length_segment_image [OF ph] intro!: store_bytes_other)
  ultimately show ?thesis
    using t(3) extends_trans [OF t(2)] by fastforce
qed

text \<open>The loadable segments of a program header table, in order.\<close>

fun segments :: "byte list \<Rightarrow> nat \<Rightarrow> nat \<Rightarrow> nat list \<Rightarrow> phdr list option" where
  "segments elf phoff phentsize [] = Some []"
| "segments elf phoff phentsize (i # is) = do {
     ty \<leftarrow> u32_at elf (phoff + i * phentsize);
     (if ty \<noteq> PT_LOAD then segments elf phoff phentsize is
      else do {
        ph \<leftarrow> read_phdr elf (phoff + i * phentsize);
        phs \<leftarrow> segments elf phoff phentsize is;
        Some (ph # phs)
      })
   }"

definition disjoint_segments :: "phdr list \<Rightarrow> bool" where
  "disjoint_segments phs \<longleftrightarrow> sorted_wrt (\<lambda>p q. seg_addrs p \<inter> seg_addrs q = {}) phs"

definition pages_of :: "phdr list \<Rightarrow> u64 set" where
  "pages_of phs = page_addr ` \<Union> (set ` seg_pages ` set phs)"

definition addrs_of :: "phdr list \<Rightarrow> u64 set" where
  "addrs_of phs = \<Union> (seg_addrs ` set phs)"

lemma seg_loaded_extends:
  assumes "seg_loaded elf ph s" and "extends P R s t" and "seg_addrs ph \<inter> R = {}"
  shows "seg_loaded elf ph t"
  using assms extends_load [OF assms(2), of "vaddr ph" "memsz ph"] extends_mapped [OF assms(2)]
  by (auto simp: seg_loaded_def seg_addrs_def)

lemma load_segments_ok:
  assumes "mapper_ok map_to"
  shows "segments elf phoff sz js = Some phs \<Longrightarrow> \<forall>ph\<in>set phs. seg_ok elf ph \<Longrightarrow> disjoint_segments phs \<Longrightarrow>
    frames_ok ((\<Sum>ph\<leftarrow>phs. length (seg_pages ph)) + n) s \<Longrightarrow>
    \<exists>t. load_segments map_to elf phoff sz js s = Some t \<and> (\<forall>ph\<in>set phs. seg_loaded elf ph t) \<and> frames_ok n t \<and>
      extends (pages_of phs) (addrs_of phs) s t"
proof (induction js arbitrary: phs s)
  case Nil
  then show ?case
    by (simp add: extends_refl)
next
  case (Cons i js)
  let ?p = "phoff + i * sz"
  obtain ty where ty: "u32_at elf ?p = Some ty"
    using Cons.prems(1) by (cases "u32_at elf ?p") auto
  show ?case
  proof (cases "ty = PT_LOAD")
    case False
    then show ?thesis
      using Cons ty by simp
  next
    case True
    then obtain ph qs where ph: "read_phdr elf ?p = Some ph" "segments elf phoff sz js = Some qs" "phs = ph # qs"
      using Cons.prems(1) ty by (auto split: bind_splits)
    have dj: "disjoint_segments qs" "\<forall>q\<in>set qs. seg_addrs ph \<inter> seg_addrs q = {}"
      using Cons.prems(3) ph(3) by (auto simp: disjoint_segments_def)
    have "frames_ok (length (seg_pages ph) + ((\<Sum>ph\<leftarrow>qs. length (seg_pages ph)) + n)) s"
      using Cons.prems(4) ph(3) by (simp add: add.assoc)
    from load_segment_ok [OF assms _ this] Cons.prems(2) ph(3)
    obtain t where t: "load_segment map_to elf ph s = Some t" "seg_loaded elf ph t"
      "frames_ok ((\<Sum>ph\<leftarrow>qs. length (seg_pages ph)) + n) t"
      "extends (page_addr ` set (seg_pages ph)) (seg_addrs ph) s t"
      by auto
    from Cons.IH [OF ph(2) _ dj(1) t(3)] Cons.prems(2) ph(3)
    obtain u where u: "load_segments map_to elf phoff sz js t = Some u" "\<forall>ph\<in>set qs. seg_loaded elf ph u"
      "frames_ok n u" "extends (pages_of qs) (addrs_of qs) t u"
      by auto
    have "seg_loaded elf ph u"
      using seg_loaded_extends [OF t(2) u(4)] dj(2) by (auto simp: addrs_of_def)
    moreover have "extends (pages_of phs) (addrs_of phs) s u"
      using extends_trans [OF t(4) u(4)] by (simp add: ph(3) pages_of_def addrs_of_def image_Un)
    ultimately show ?thesis
      using True ty ph t(1) u by simp
  qed
qed

text \<open>The four pages of the user stack.\<close>

definition stack_pages :: "nat list" where
  "stack_pages = [0x4ff, 0x4fe, 0x4fd, 0x4fc]"

lemma map_stack_ok:
  fixes s :: "'a e1000_scheme"
  assumes "mapper_ok map_to" and "frames_ok (4 + n) s"
  shows "\<exists>t. map_stack map_to [0..<USER_STACK_PAGES] s = Some t \<and> extends (page_addr ` set stack_pages) {} s t \<and> frames_ok n t \<and>
    (\<forall>k\<in>set stack_pages. page_table t (page_addr k) \<noteq> None)"
proof -
  have addr: "checked_sub USER_STACK_TOP (word_of_nat (i + 1) * 4096) = Some (page_addr (0x4ff - i))" if "i < 4" for i
  proof -
    have "i = 0 \<or> i = 1 \<or> i = 2 \<or> i = 3"
      using that by auto
    then show ?thesis
      by (elim disjE) (simp_all add: checked_sub_def USER_STACK_TOP_def page_addr_def)
  qed
  have "map_stack map_to js = (ensure_pages map_to stack_flags (map (\<lambda>i. 0x4ff - i) js) :: _ \<Rightarrow> 'a e1000_scheme option)"
    if "\<forall>i\<in>set js. i < 4" for js
    using that
  proof (induction js)
    case (Cons i js)
    then show ?case
      using addr [of i] by (intro ext) (simp add: page_addr_def)
  qed (simp add: fun_eq_iff)
  moreover have "map (\<lambda>i. 0x4ff - i) [0..<USER_STACK_PAGES] = stack_pages"
    by (simp add: USER_STACK_PAGES_def stack_pages_def upt_rec)
  ultimately have "map_stack map_to [0..<USER_STACK_PAGES] s = ensure_pages map_to stack_flags stack_pages s"
    by (simp add: USER_STACK_PAGES_def)
  moreover have fl: "{PRESENT, USER_ACCESSIBLE} \<subseteq> stack_flags"
    by (simp add: stack_flags_def)
  moreover have len: "length stack_pages = 4" and bound: "\<forall>k\<in>set stack_pages. k < 2 ^ 35"
    by (simp_all add: stack_pages_def)
  moreover have fr: "frames_ok (length stack_pages + n) s"
    unfolding len using assms(2) by simp
  ultimately show ?thesis
    using ensure_pages_ok [OF assms(1) fl fr bound] by metis
qed

section \<open>Loading a program\<close>

lemma elf_loads:
  assumes "mapper_ok map_to" and "frames_ok ((\<Sum>ph\<leftarrow>phs. length (seg_pages ph)) + (4 + n)) s"
    and "64 \<le> length elf" and "take 4 elf = ELF_MAGIC" and "elf ! 4 = 2"
    and "u64_at elf 0x20 = Some phoff" and "u16_at elf 0x36 = Some phentsize" and "u16_at elf 0x38 = Some phnum"
    and "segments elf (unat phoff) (unat phentsize) [0..<unat phnum] = Some phs"
    and "\<forall>ph\<in>set phs. seg_ok elf ph" and "disjoint_segments phs"
  shows "\<exists>t e. u64_at elf 0x18 = Some e \<and>
    elf_load map_to elf s = Some (Inr \<lparr>img_entry = e, stack_top = 0x500000\<rparr>, t) \<and> frames_ok n t \<and>
    (\<forall>ph\<in>set phs. seg_loaded elf ph t) \<and> (\<forall>k\<in>{0x4fc..0x4ff}. page_table t (page_addr k) \<noteq> None) \<and>
    extends (pages_of phs \<union> page_addr ` {0x4fc..0x4ff}) (addrs_of phs) s t"
proof -
  from load_segments_ok [OF assms(1,9-11,2)]
  obtain t where t: "load_segments map_to elf (unat phoff) (unat phentsize) [0..<unat phnum] s = Some t"
    "\<forall>ph\<in>set phs. seg_loaded elf ph t" "frames_ok (4 + n) t" "extends (pages_of phs) (addrs_of phs) s t"
    by blast
  obtain u where u: "map_stack map_to [0..<USER_STACK_PAGES] t = Some u"
    "extends (page_addr ` set stack_pages) {} t u" "\<forall>k\<in>set stack_pages. page_table u (page_addr k) \<noteq> None" "frames_ok n u"
    using map_stack_ok [OF assms(1) t(3)] by blast
  have stack: "set stack_pages = {0x4fc..0x4ff}"
    by (auto simp: stack_pages_def)
  have entry: "u64_at elf 0x18 = Some (word_of_nat (le_val (take 8 (drop 0x18 elf))))"
    using assms(3) by (simp add: u64_at_def slice_def)
  have "\<forall>ph\<in>set phs. seg_loaded elf ph u"
    using t(2) seg_loaded_extends [OF _ u(2)] by blast
  moreover have "extends (pages_of phs \<union> page_addr ` {0x4fc..0x4ff}) (addrs_of phs) s u"
    using extends_trans [OF t(4) u(2)] by (simp add: stack)
  moreover have "elf_load map_to elf s = Some (Inr \<lparr>img_entry = word_of_nat (le_val (take 8 (drop 0x18 elf))), stack_top = 0x500000\<rparr>, u)"
    using t(1) u(1) assms(3-8) by (simp add: elf_load_def entry USER_STACK_TOP_def)
  ultimately show ?thesis
    using entry u(3,4) by (auto simp: stack)
qed


text \<open>A file with one segment of five bytes and three zeroed ones at \<open>0x400078\<close>.\<close>

definition demo_elf :: "byte list" where
  "demo_elf =
     ELF_MAGIC @ [2, 1, 1, 0] @ [0, 0, 0, 0, 0, 0, 0, 0] @ [2, 0, 62, 0, 1, 0, 0, 0]
     @ [0x78, 0, 0x40, 0, 0, 0, 0, 0] @ [64, 0, 0, 0, 0, 0, 0, 0] @ [0, 0, 0, 0, 0, 0, 0, 0, 0, 0, 0, 0] @ [64, 0, 56, 0, 1, 0] @ [0, 0, 0, 0, 0, 0]
     @ [1, 0, 0, 0, 7, 0, 0, 0] @ [120, 0, 0, 0, 0, 0, 0, 0] @ [0x78, 0, 0x40, 0, 0, 0, 0, 0] @ [0x78, 0, 0x40, 0, 0, 0, 0, 0]
     @ [5, 0, 0, 0, 0, 0, 0, 0] @ [8, 0, 0, 0, 0, 0, 0, 0] @ [0, 0, 0, 0, 0, 0, 0, 0] @ [0x90, 0x90, 0x90, 0xcd, 0x80]"

definition demo_phdr :: phdr where
  "demo_phdr = \<lparr>flags_dw = 7, ph_off = 120, vaddr = 0x400078, filesz = 5, memsz = 8\<rparr>"

lemma demo_elf_parts:
  "length demo_elf = 125" "take 4 demo_elf = ELF_MAGIC" "demo_elf ! 4 = 2" "u64_at demo_elf 0x18 = Some 0x400078"
  "u64_at demo_elf 0x20 = Some 64" "u16_at demo_elf 0x36 = Some 56" "u16_at demo_elf 0x38 = Some 1"
  "take 5 (drop 120 demo_elf) = [0x90, 0x90, 0x90, 0xcd, 0x80]"
  by (simp_all add: demo_elf_def ELF_MAGIC_def u64_at_def u16_at_def slice_def get_at_def le_val_def be_val_def)

lemma demo_elf_segments: "segments demo_elf 64 56 [0] = Some [demo_phdr]"
proof -
  have "u32_at demo_elf 64 = Some 1" "u32_at demo_elf 68 = Some 7" "u64_at demo_elf 72 = Some 120"
    "u64_at demo_elf 80 = Some 0x400078" "u64_at demo_elf 96 = Some 5" "u64_at demo_elf 104 = Some 8"
    by (simp_all add: demo_elf_def ELF_MAGIC_def u64_at_def u32_at_def slice_def get_at_def le_val_def be_val_def)
  then show ?thesis
    by (simp add: PT_LOAD_def read_phdr_def demo_phdr_def)
qed


end
