(* ===== verification/Trap.thy ===== *)
theory Trap
  imports Syscall_Properties Elf_Properties
begin

unbundle bit_operations_syntax

text \<open>
  Crossing between user and kernel mode: the assembly of \<open>syscall/mod.rs\<close> (entry stub of
  \<open>int 0x80\<close>, entry into ring 3, return to the kernel on exit) instruction by instruction on
  the machine's registers and the byte memory that the whole kernel shares, and \<open>run_user\<close>.

  \<open>gpr\<close> holds the fifteen general registers other than the stack pointer, named as in
  \<open>SyscallFrame\<close>. What the processor does by itself, delivering the interrupt through the gate
  (switch to the stack of the task-state segment, five pushes, interrupts disabled) and
  \<open>iretq\<close>, follows the architecture manual. The values that the compiled body of
  \<open>syscall_dispatch\<close> leaves in the registers are a parameter \<open>scratch\<close>, the addresses of the
  code and of \<open>USER_KERNEL_RSP\<close> are parameters too; the kernel's own use of the stack below
  the frame is not represented.
\<close>

record 'd mach = "'d kernel" +
  gpr :: syscall_frame
  m_rsp :: u64
  m_rip :: u64
  m_cs :: u64
  m_ss :: u64
  m_rflags :: u64
  USER_KERNEL_RSP :: u64
  RSP0 :: u64

section \<open>Instructions\<close>

definition le64 :: "u64 \<Rightarrow> byte list" where
  "le64 v = rev (be_bytes 8 (unat v))"

definition load64 :: "u64 \<Rightarrow> ram \<Rightarrow> u64" where
  "load64 a m = word_of_nat (le_val (load_bytes a 8 m))"

definition push64 :: "u64 \<Rightarrow> ('d, 'a) mach_scheme \<Rightarrow> ('d, 'a) mach_scheme" where
  "push64 v m = m\<lparr>m_rsp := m_rsp m - 8, ram := store_bytes (m_rsp m - 8) (le64 v) (ram m)\<rparr>"

definition pop64 :: "('d, 'a) mach_scheme \<Rightarrow> u64 \<times> ('d, 'a) mach_scheme" where
  "pop64 m = (load64 (m_rsp m) (ram m), m\<lparr>m_rsp := m_rsp m + 8\<rparr>)"

definition ret_insn :: "('d, 'a) mach_scheme \<Rightarrow> ('d, 'a) mach_scheme" where
  "ret_insn m = (let (v, m) = pop64 m in m\<lparr>m_rip := v\<rparr>)"

definition iretq :: "('d, 'a) mach_scheme \<Rightarrow> ('d, 'a) mach_scheme" where
  "iretq m =
     (let (ip, m) = pop64 m; (cs, m) = pop64 m; (fl, m) = pop64 m; (sp, m) = pop64 m; (ss, m) = pop64 m
      in m\<lparr>m_rip := ip, m_cs := cs, m_rflags := fl, m_rsp := sp, m_ss := ss\<rparr>)"

text \<open>Delivery of \<open>int 0x80\<close> from ring 3 through an interrupt gate.\<close>

definition int_gate :: "u64 \<Rightarrow> u64 \<Rightarrow> ('d, 'a) mach_scheme \<Rightarrow> ('d, 'a) mach_scheme" where
  "int_gate handler kernel_cs m =
     (let t = m\<lparr>m_rsp := RSP0 m AND NOT 15\<rparr>;
          t = push64 (m_ss m) t; t = push64 (m_rsp m) t; t = push64 (m_rflags m) t;
          t = push64 (m_cs m) t; t = push64 (m_rip m) t
      in t\<lparr>m_cs := kernel_cs, m_ss := 0, m_rip := handler, m_rflags := m_rflags m AND NOT 0x34300\<rparr>)"

section \<open>The entry stub\<close>

definition save_gprs :: "('d, 'a) mach_scheme \<Rightarrow> ('d, 'a) mach_scheme" where
  "save_gprs m =
     (let m = push64 (f_r15 (gpr m)) m; m = push64 (f_r14 (gpr m)) m; m = push64 (f_r13 (gpr m)) m;
          m = push64 (f_r12 (gpr m)) m; m = push64 (f_r11 (gpr m)) m; m = push64 (f_r10 (gpr m)) m;
          m = push64 (f_r9 (gpr m)) m; m = push64 (f_r8 (gpr m)) m; m = push64 (f_rbp (gpr m)) m;
          m = push64 (f_rdi (gpr m)) m; m = push64 (f_rsi (gpr m)) m; m = push64 (f_rdx (gpr m)) m;
          m = push64 (f_rcx (gpr m)) m; m = push64 (f_rbx (gpr m)) m; m = push64 (f_rax (gpr m)) m
      in m\<lparr>gpr := (gpr m)\<lparr>f_rdi := m_rsp m\<rparr>\<rparr>)"

definition restore_gprs :: "('d, 'a) mach_scheme \<Rightarrow> ('d, 'a) mach_scheme" where
  "restore_gprs m =
     (let (v, m) = pop64 m; m = m\<lparr>gpr := (gpr m)\<lparr>f_rax := v\<rparr>\<rparr>; (v, m) = pop64 m; m = m\<lparr>gpr := (gpr m)\<lparr>f_rbx := v\<rparr>\<rparr>;
          (v, m) = pop64 m; m = m\<lparr>gpr := (gpr m)\<lparr>f_rcx := v\<rparr>\<rparr>; (v, m) = pop64 m; m = m\<lparr>gpr := (gpr m)\<lparr>f_rdx := v\<rparr>\<rparr>;
          (v, m) = pop64 m; m = m\<lparr>gpr := (gpr m)\<lparr>f_rsi := v\<rparr>\<rparr>; (v, m) = pop64 m; m = m\<lparr>gpr := (gpr m)\<lparr>f_rdi := v\<rparr>\<rparr>;
          (v, m) = pop64 m; m = m\<lparr>gpr := (gpr m)\<lparr>f_rbp := v\<rparr>\<rparr>; (v, m) = pop64 m; m = m\<lparr>gpr := (gpr m)\<lparr>f_r8 := v\<rparr>\<rparr>;
          (v, m) = pop64 m; m = m\<lparr>gpr := (gpr m)\<lparr>f_r9 := v\<rparr>\<rparr>; (v, m) = pop64 m; m = m\<lparr>gpr := (gpr m)\<lparr>f_r10 := v\<rparr>\<rparr>;
          (v, m) = pop64 m; m = m\<lparr>gpr := (gpr m)\<lparr>f_r11 := v\<rparr>\<rparr>; (v, m) = pop64 m; m = m\<lparr>gpr := (gpr m)\<lparr>f_r12 := v\<rparr>\<rparr>;
          (v, m) = pop64 m; m = m\<lparr>gpr := (gpr m)\<lparr>f_r13 := v\<rparr>\<rparr>; (v, m) = pop64 m; m = m\<lparr>gpr := (gpr m)\<lparr>f_r14 := v\<rparr>\<rparr>;
          (v, m) = pop64 m
      in m\<lparr>gpr := (gpr m)\<lparr>f_r15 := v\<rparr>\<rparr>)"

definition syscall_return_to_kernel :: "('d, 'a) mach_scheme \<Rightarrow> ('d, 'a) mach_scheme" where
  "syscall_return_to_kernel m = ret_insn (m\<lparr>m_rsp := USER_KERNEL_RSP m\<rparr>)"

text \<open>The pointer argument of \<open>syscall_dispatch\<close> read as a \<open>SyscallFrame\<close>: fields at ascending addresses.\<close>

definition frame_at :: "u64 \<Rightarrow> ram \<Rightarrow> syscall_frame" where
  "frame_at p m =
     \<lparr>f_rax = load64 p m, f_rbx = load64 (p + 8) m, f_rcx = load64 (p + 16) m, f_rdx = load64 (p + 24) m,
      f_rsi = load64 (p + 32) m, f_rdi = load64 (p + 40) m, f_rbp = load64 (p + 48) m, f_r8 = load64 (p + 56) m,
      f_r9 = load64 (p + 64) m, f_r10 = load64 (p + 72) m, f_r11 = load64 (p + 80) m, f_r12 = load64 (p + 88) m,
      f_r13 = load64 (p + 96) m, f_r14 = load64 (p + 104) m, f_r15 = load64 (p + 112) m\<rparr>"

text \<open>The call of \<open>syscall_dispatch\<close> with the frame pointer in \<open>rdi\<close>: it returns to the stub, or jumps to the
  kernel without returning.\<close>

definition call_dispatch ::
  "syscall_frame \<Rightarrow> ('d, 'a) mach_scheme \<Rightarrow> (bool \<times> ('d, 'a) mach_scheme) option" where
  "call_dispatch scratch m = do {
     let frame = f_rdi (gpr m);
     (out, m) \<leftarrow> syscall_dispatch (frame_at frame (ram m)) m;
     (case out of
        Resume f \<Rightarrow> Some (True, ret_insn (m\<lparr>ram := store_bytes frame (le64 (f_rax f)) (ram m), gpr := scratch\<rparr>))
      | ReturnToKernel \<Rightarrow> Some (False, syscall_return_to_kernel (m\<lparr>gpr := scratch\<rparr>)))
   }"

definition syscall_entry ::
  "u64 \<Rightarrow> syscall_frame \<Rightarrow> ('d, 'a) mach_scheme \<Rightarrow> (bool \<times> ('d, 'a) mach_scheme) option" where
  "syscall_entry after_call scratch m = do {
     let m = push64 after_call (save_gprs m);
     (back, m) \<leftarrow> call_dispatch scratch m;
     Some (back, if back then iretq (restore_gprs m) else m)
   }"

section \<open>Entering ring 3 and \<open>run_user\<close>\<close>

definition enter_user_asm :: "u64 \<Rightarrow> ('d, 'a) mach_scheme \<Rightarrow> ('d, 'a) mach_scheme" where
  "enter_user_asm var m =
     (let m = m\<lparr>gpr := (gpr m)\<lparr>f_r11 := var\<rparr>\<rparr>;
          m = m\<lparr>USER_KERNEL_RSP := m_rsp m\<rparr>;
          m = push64 (f_rcx (gpr m)) m; m = push64 (f_rsi (gpr m)) m; m = push64 0x202 m;
          m = push64 (f_rdx (gpr m)) m; m = push64 (f_rdi (gpr m)) m
      in iretq m)"

text \<open>A user program is the execution that starts at its entry and ends when the kernel resumes behind the
  call of \<open>enter_user_asm\<close>: the parameter \<open>user\<close>.\<close>

definition run_user ::
  "map_to_fn \<Rightarrow> u64 \<Rightarrow> u64 \<Rightarrow> u16 \<Rightarrow> u16 \<Rightarrow> (('d, 'a) mach_scheme \<Rightarrow> ('d, 'a) mach_scheme option) \<Rightarrow> byte list \<Rightarrow>
     ('d, 'a) mach_scheme \<Rightarrow> ('d, 'a) mach_scheme option" where
  "run_user map_to var after_call user_cs user_ss user elf m = do {
     (r, m) \<leftarrow> elf_load map_to elf m;
     (case r of
        Inl e \<Rightarrow> Some (println ''[syscall] ELF load failed: {}'' [AStr (str e)] m)
      | Inr img \<Rightarrow> do {
          let m = println ''[syscall] entering ring3: entry={:#x} stack={:#x}''
                    [ANum (unat (img_entry img)), ANum (unat (stack_top img))] m;
          let m = m\<lparr>gpr := (gpr m)\<lparr>f_rdi := img_entry img, f_rsi := stack_top img,
                      f_rdx := ucast user_cs, f_rcx := ucast user_ss\<rparr>\<rparr>;
          let m = enter_user_asm var (push64 after_call m);
          m \<leftarrow> user m;
          Some (println ''[syscall] back in ring0 from user mode'' [] m)
        })
   }"

end
