(* ===== verification/Trap_Properties.thy ===== *)
theory Trap_Properties
  imports Trap
begin

unbundle bit_operations_syntax

text \<open>
  A system call is transparent to the program: the registers, stack pointer, instruction
  pointer, selectors and flags of the interrupted program come back as they were, except for
  the result in \<open>rax\<close> (\<open>trap_preserves_context\<close>), and \<open>exit\<close> continues behind the call of
  \<open>enter_user_asm\<close> on the caller's stack, with interrupts disabled (\<open>exit_returns_to_caller\<close>).
\<close>

section \<open>Cells of the stack\<close>

lemma length_le64 [simp]: "length (le64 v) = 8"
  by (simp add: le64_def)

lemma load64_store64: "load64 a (store_bytes a (le64 v) m) = v"
proof -
  have "load_bytes a 8 (store_bytes a (le64 v) m) = le64 v"
    using load_store [of "le64 v" a m] by simp
  then show ?thesis
    using unat_less [of v] by (simp add: load64_def le64_def le_val_def be_val_be_bytes)
qed

lemma addrs_apart:
  assumes "i + m \<le> j" and "j + n \<le> 2 ^ 64"
  shows "addrs (a + word_of_nat i) m \<inter> addrs (a + word_of_nat j) n = {}"
proof (rule equals0I)
  fix x assume "x \<in> addrs (a + word_of_nat i) m \<inter> addrs (a + word_of_nat j) n"
  then obtain k l where kl: "k < m" "l < n" "x = a + word_of_nat i + word_of_nat k" "x = a + word_of_nat j + word_of_nat l"
    by (auto simp: addrs_def)
  then have "(word_of_nat (i + k) :: u64) = word_of_nat (j + l)"
    by (simp add: add.assoc)
  then have "unat (word_of_nat (i + k) :: u64) = unat (word_of_nat (j + l) :: u64)"
    by simp
  moreover have "i + k < 2 ^ 64" "j + l < 2 ^ 64"
    using kl assms by auto
  ultimately have "i + k = j + l"
    by (simp add: unat_of_nat del: of_nat_add)
  with kl assms show False
    by simp
qed

lemma load64_other:
  "addrs a 8 \<inter> addrs b (length bs) = {} \<Longrightarrow> load64 a (store_bytes b bs m) = load64 a m"
  by (simp add: load64_def load_store_other)

lemma load64_cong: "(\<And>x. x \<in> addrs a 8 \<Longrightarrow> r x = m x) \<Longrightarrow> load64 a r = load64 a m"
  using load_bytes_cong [of a 8 r m] by (simp add: load64_def)

lemma addrs_sub: "i + m \<le> n \<Longrightarrow> addrs (a + word_of_nat i) m \<subseteq> addrs a n"
proof
  fix x assume i: "i + m \<le> n" and "x \<in> addrs (a + word_of_nat i) m"
  then obtain k where "k < m" "x = a + word_of_nat (i + k)"
    by (auto simp: addrs_def add.assoc)
  with i show "x \<in> addrs a n"
    unfolding addrs_def by (intro image_eqI [of _ _ "i + k"]) auto
qed

text \<open>A sequence of pushes fills the cells below the stack pointer, the last value lowest.\<close>

lemma pushes:
  assumes "8 * length vs < 2 ^ 64"
  shows "\<exists>r. fold push64 vs m = m\<lparr>m_rsp := m_rsp m - word_of_nat (8 * length vs), ram := r\<rparr> \<and>
    (\<forall>k<length vs. load64 (m_rsp m - word_of_nat (8 * length vs) + word_of_nat (8 * k)) r = rev vs ! k) \<and>
    (\<forall>a. a \<notin> addrs (m_rsp m - word_of_nat (8 * length vs)) (8 * length vs) \<longrightarrow> r a = ram m a)"
  using assms
proof (induction vs arbitrary: m)
  case Nil
  then show ?case
    by (intro exI [of _ "ram m"]) simp
next
  case (Cons v vs)
  define n where "n = length vs"
  define p where "p = m_rsp m - word_of_nat (8 * Suc n)"
  have p: "m_rsp (push64 v m) - word_of_nat (8 * n) = p" "m_rsp m - 8 = p + word_of_nat (8 * n)"
    by (simp_all add: p_def push64_def algebra_simps)
  have ram_push: "ram (push64 v m) = store_bytes (p + word_of_nat (8 * n)) (le64 v) (ram m)"
    unfolding push64_def p(2) by simp
  have n: "8 * n < 2 ^ 64" "8 * n + 8 \<le> 2 ^ 64"
    using Cons.prems by (auto simp: n_def)
  from Cons.IH [of "push64 v m"] n(1)
  obtain r where r: "fold push64 vs (push64 v m) = (push64 v m)\<lparr>m_rsp := p, ram := r\<rparr>"
    "\<And>k. k < n \<Longrightarrow> load64 (p + word_of_nat (8 * k)) r = rev vs ! k"
    "\<And>a. a \<notin> addrs p (8 * n) \<Longrightarrow> r a = ram (push64 v m) a"
    unfolding n_def [symmetric] p(1) by blast
  have "addrs (p + word_of_nat (8 * n)) 8 \<inter> addrs p (8 * n) = {}"
    using addrs_apart [of 0 "8 * n" "8 * n" 8 p] n(2) by (simp only: of_nat_0 add_0_right Int_commute) simp
  then have "load64 (p + word_of_nat (8 * n)) r = load64 (p + word_of_nat (8 * n)) (ram (push64 v m))"
    by (intro load64_cong r(3)) blast
  also have "\<dots> = v"
    unfolding ram_push by (rule load64_store64)
  finally have top: "load64 (p + word_of_nat (8 * n)) r = v" .
  have "load64 (p + word_of_nat (8 * k)) r = rev (v # vs) ! k" if "k < Suc n" for k
    using that r(2) [of k] top by (cases "k = n") (simp_all add: nth_append n_def del: of_nat_mult)
  moreover have "r a = ram m a" if "a \<notin> addrs p (8 * Suc n)" for a
  proof -
    have "a \<notin> addrs p (8 * n)" "a \<notin> addrs (p + word_of_nat (8 * n)) 8"
      using that addrs_mono [of "8 * n" "8 * Suc n" p] addrs_sub [of "8 * n" 8 "8 * Suc n" p] by auto
    then show ?thesis
      using r(3) [of a] by (simp add: push64_def p(2) store_bytes_other del: of_nat_mult)
  qed
  moreover have "fold push64 (v # vs) m = m\<lparr>m_rsp := p, ram := r\<rparr>"
    using r(1) by (simp add: push64_def)
  ultimately show ?case
    unfolding length_Cons n_def [symmetric] p_def [symmetric] by blast
qed

section \<open>The trap\<close>

text \<open>The interrupt together with the stub that handles it, and the stack bytes both use.\<close>

definition int80 ::
  "u64 \<Rightarrow> u64 \<Rightarrow> u64 \<Rightarrow> syscall_frame \<Rightarrow> ('d, 'a) mach_scheme \<Rightarrow> (bool \<times> ('d, 'a) mach_scheme) option" where
  "int80 handler kernel_cs after_call scratch m = syscall_entry after_call scratch (int_gate handler kernel_cs m)"

definition trap_stack :: "('d, 'a) mach_scheme \<Rightarrow> u64 set" where
  "trap_stack m = addrs ((RSP0 m AND NOT 15) - 168) 168"

text \<open>What the entry pushes, the last value first.\<close>

definition trap_frame :: "u64 \<Rightarrow> ('d, 'a) mach_scheme \<Rightarrow> u64 list" where
  "trap_frame after_call m =
     [after_call, f_rax (gpr m), f_rbx (gpr m), f_rcx (gpr m), f_rdx (gpr m), f_rsi (gpr m), f_rdi (gpr m), f_rbp (gpr m),
      f_r8 (gpr m), f_r9 (gpr m), f_r10 (gpr m), f_r11 (gpr m), f_r12 (gpr m), f_r13 (gpr m), f_r14 (gpr m), f_r15 (gpr m),
      m_rip m, m_cs m, m_rflags m, m_rsp m, m_ss m]"

lemma length_trap_frame [simp]: "length (trap_frame a m) = 21"
  by (simp add: trap_frame_def)

text \<open>The state in which \<open>syscall_dispatch\<close> begins.\<close>

definition trapped :: "u64 \<Rightarrow> u64 \<Rightarrow> u64 \<Rightarrow> ('d, 'a) mach_scheme \<Rightarrow> ('d, 'a) mach_scheme" where
  "trapped handler kernel_cs after_call m = push64 after_call (save_gprs (int_gate handler kernel_cs m))"

lemma entry_frame:
  fixes m :: "('d, 'a) mach_scheme"
  defines "p \<equiv> (RSP0 m AND NOT 15) - 168"
  obtains r where "trapped handler kernel_cs after_call m =
      m\<lparr>m_rsp := p, ram := r, m_cs := kernel_cs, m_ss := 0, m_rip := handler, m_rflags := m_rflags m AND NOT 0x34300,
        gpr := (gpr m)\<lparr>f_rdi := p + 8\<rparr>\<rparr>"
    "\<And>k. k < 21 \<Longrightarrow> load64 (p + word_of_nat (8 * k)) r = trap_frame after_call m ! k"
    "\<And>a. a \<notin> trap_stack m \<Longrightarrow> r a = ram m a"
proof -
  let ?m = "m\<lparr>m_rsp := RSP0 m AND NOT 15\<rparr>"
  have len: "8 * length (rev (trap_frame after_call m)) < 2 ^ 64"
    by simp
  obtain r where r: "fold push64 (rev (trap_frame after_call m)) ?m = ?m\<lparr>m_rsp := p, ram := r\<rparr>"
    "\<forall>k<21. load64 (p + word_of_nat (8 * k)) r = trap_frame after_call m ! k"
    "\<forall>a. a \<notin> addrs p 168 \<longrightarrow> r a = ram m a"
    using pushes [OF len, of ?m] by (auto simp: p_def)
  have "ram (fold push64 (rev (trap_frame after_call m)) ?m) = r"
    using r(1) by simp
  then have "trapped handler kernel_cs after_call m =
      m\<lparr>m_rsp := p, ram := r, m_cs := kernel_cs, m_ss := 0, m_rip := handler, m_rflags := m_rflags m AND NOT 0x34300,
        gpr := (gpr m)\<lparr>f_rdi := p + 8\<rparr>\<rparr>"
    by (simp add: trapped_def trap_frame_def save_gprs_def int_gate_def push64_def Let_def p_def)
  then show thesis
    by (rule that) (use r in \<open>auto simp: trap_stack_def p_def\<close>)
qed

lemma mach_fields:
  fixes s t :: "('d, 'a) mach_scheme"
  assumes "kernel.more s = kernel.more t"
  shows "gpr s = gpr t" "m_rsp s = m_rsp t" "m_rip s = m_rip t" "m_cs s = m_cs t" "m_ss s = m_ss t" "m_rflags s = m_rflags t"
    "USER_KERNEL_RSP s = USER_KERNEL_RSP t" "RSP0 s = RSP0 t"
  using assms by (cases s; cases t; simp)+

text \<open>Returning through the frame: the stub's pops and \<open>iretq\<close> read the cells above the return address.\<close>

lemma restore_iretq:
  assumes "m_rsp m = p + 8" and cells: "\<And>k. 1 \<le> k \<Longrightarrow> k < 21 \<Longrightarrow> load64 (p + word_of_nat (8 * k)) (ram m) = c k"
  shows "iretq (restore_gprs m) = m\<lparr>
    gpr := \<lparr>f_rax = c 1, f_rbx = c 2, f_rcx = c 3, f_rdx = c 4, f_rsi = c 5, f_rdi = c 6, f_rbp = c 7, f_r8 = c 8, f_r9 = c 9,
      f_r10 = c 10, f_r11 = c 11, f_r12 = c 12, f_r13 = c 13, f_r14 = c 14, f_r15 = c 15\<rparr>,
    m_rip := c 16, m_cs := c 17, m_rflags := c 18, m_rsp := c 19, m_ss := c 20\<rparr>"
proof -
  have "load64 (p + 8) (ram m) = c 1" "load64 (p + 16) (ram m) = c 2" "load64 (p + 24) (ram m) = c 3"
    "load64 (p + 32) (ram m) = c 4" "load64 (p + 40) (ram m) = c 5" "load64 (p + 48) (ram m) = c 6"
    "load64 (p + 56) (ram m) = c 7" "load64 (p + 64) (ram m) = c 8" "load64 (p + 72) (ram m) = c 9"
    "load64 (p + 80) (ram m) = c 10" "load64 (p + 88) (ram m) = c 11" "load64 (p + 96) (ram m) = c 12"
    "load64 (p + 104) (ram m) = c 13" "load64 (p + 112) (ram m) = c 14" "load64 (p + 120) (ram m) = c 15"
    "load64 (p + 128) (ram m) = c 16" "load64 (p + 136) (ram m) = c 17" "load64 (p + 144) (ram m) = c 18"
    "load64 (p + 152) (ram m) = c 19" "load64 (p + 160) (ram m) = c 20"
    using cells [of 1] cells [of 2] cells [of 3] cells [of 4] cells [of 5] cells [of 6] cells [of 7] cells [of 8]
      cells [of 9] cells [of 10] cells [of 11] cells [of 12] cells [of 13] cells [of 14] cells [of 15] cells [of 16]
      cells [of 17] cells [of 18] cells [of 19] cells [of 20]
    by simp_all
  then show ?thesis
    using assms(1)
    by (cases "gpr m") (simp add: restore_gprs_def iretq_def pop64_def Let_def add.commute [of p])
qed

lemma frame_at_cells:
  assumes "\<And>k. 1 \<le> k \<Longrightarrow> k < 16 \<Longrightarrow> load64 (p + word_of_nat (8 * k)) r = c k"
  shows "frame_at (p + 8) r = \<lparr>f_rax = c 1, f_rbx = c 2, f_rcx = c 3, f_rdx = c 4, f_rsi = c 5, f_rdi = c 6, f_rbp = c 7,
    f_r8 = c 8, f_r9 = c 9, f_r10 = c 10, f_r11 = c 11, f_r12 = c 12, f_r13 = c 13, f_r14 = c 14, f_r15 = c 15\<rparr>"
  using assms [of 1] assms [of 2] assms [of 3] assms [of 4] assms [of 5] assms [of 6] assms [of 7] assms [of 8]
      assms [of 9] assms [of 10] assms [of 11] assms [of 12] assms [of 13] assms [of 14] assms [of 15]
  by (simp add: frame_at_def add.commute [of p])

text \<open>What the dispatcher finds, and what it leaves when it resumes the program.\<close>

lemma int80_resume:
  fixes m :: "('d, 'a) mach_scheme" and handler kernel_cs after_call :: u64
  defines "t \<equiv> trapped handler kernel_cs after_call m"
  assumes u: "syscall_dispatch (gpr m) t = Some (Resume f', u)" "kernel.more u = kernel.more t"
      "\<forall>a\<in>trap_stack m. ram u a = ram t a"
    and f': "f'\<lparr>f_rax := f_rax (gpr m)\<rparr> = gpr m"
  obtains r where "int80 handler kernel_cs after_call scratch m = Some (True, u\<lparr>ram := r, gpr := f', m_rip := m_rip m,
      m_cs := m_cs m, m_rflags := m_rflags m, m_rsp := m_rsp m, m_ss := m_ss m\<rparr>)"
    "\<forall>a. a \<notin> trap_stack m \<longrightarrow> r a = ram u a"
proof -
  define p where "p = (RSP0 m AND NOT 15) - 168"
  let ?c = "\<lambda>k. trap_frame after_call m ! k"
  obtain r where t: "t = m\<lparr>m_rsp := p, ram := r, m_cs := kernel_cs, m_ss := 0, m_rip := handler, m_rflags := m_rflags m AND NOT 0x34300,
        gpr := (gpr m)\<lparr>f_rdi := p + 8\<rparr>\<rparr>"
    and cells: "\<And>k. k < 21 \<Longrightarrow> load64 (p + word_of_nat (8 * k)) r = ?c k"
    by (rule entry_frame [where m = m and handler = handler and kernel_cs = kernel_cs and after_call = after_call,
          folded p_def t_def]) (rule that)
  have f: "frame_at (p + 8) r = gpr m"
    using frame_at_cells [of p r ?c] cells by (simp add: trap_frame_def)
  let ?v = "u\<lparr>ram := store_bytes (p + 8) (le64 (f_rax f')) (ram u), gpr := scratch\<rparr>"
  let ?w = "ret_insn ?v"
  have w: "?w = ?v\<lparr>m_rip := load64 p (ram ?v), m_rsp := p + 8\<rparr>"
    using mach_fields(2) [OF u(2)] by (simp add: ret_insn_def pop64_def t)
  have cell: "addrs (p + word_of_nat (8 * k)) 8 \<subseteq> trap_stack m" if "k < 21" for k
    using that addrs_sub [of "8 * k" 8 168 p] by (simp add: trap_stack_def p_def)
  have keep: "load64 (p + word_of_nat (8 * k)) (ram ?v) = ?c k" if "2 \<le> k" "k < 21" for k
  proof -
    have "addrs (p + word_of_nat (8 * k)) 8 \<inter> addrs (p + word_of_nat 8) 8 = {}"
      using addrs_apart [of 8 8 "8 * k" 8 p] that by (simp only: Int_commute) simp
    then have "load64 (p + word_of_nat (8 * k)) (ram ?v) = load64 (p + word_of_nat (8 * k)) (ram u)"
      by (simp add: load64_other del: of_nat_mult)
    also have "\<dots> = load64 (p + word_of_nat (8 * k)) r"
      using cell [OF that(2)] u(3) by (intro load64_cong) (auto simp: t)
    finally show ?thesis
      using cells [OF that(2)] by simp
  qed
  define d where "d k = (if k = 1 then f_rax f' else ?c k)" for k :: nat
  have "load64 (p + word_of_nat (8 * k)) (ram ?w) = d k" if "1 \<le> k" "k < 21" for k
    using keep [of k] that load64_store64 [of "p + 8"] by (cases "k = 1") (simp_all add: w d_def)
  then have resumed: "iretq (restore_gprs ?w) = ?w\<lparr>
    gpr := f', m_rip := m_rip m, m_cs := m_cs m, m_rflags := m_rflags m, m_rsp := m_rsp m, m_ss := m_ss m\<rparr>"
    using restore_iretq [of ?w p d] f' w by (cases f'; cases "gpr m") (simp add: d_def trap_frame_def)
  show thesis
  proof (rule that [of "ram ?v"])
    show "int80 handler kernel_cs after_call scratch m = Some (True, u\<lparr>ram := ram ?v, gpr := f', m_rip := m_rip m,
      m_cs := m_cs m, m_rflags := m_rflags m, m_rsp := m_rsp m, m_ss := m_ss m\<rparr>)"
      using t f u(1) resumed unfolding int80_def syscall_entry_def Let_def
      by (simp add: trapped_def [symmetric] t_def [symmetric] call_dispatch_def w Let_def)
    show "\<forall>a. a \<notin> trap_stack m \<longrightarrow> ram ?v a = ram u a"
      using cell [of 1] by (auto intro!: store_bytes_other)
  qed
qed

lemma trap_resumes:
  assumes "fds_ok m" and "offsets_ok m" and "drv_ok m" and "f_rax (gpr m) \<noteq> 2"
    and "trap_stack m \<inter> touched (gpr m) m = {}"
  shows "\<exists>m'. int80 handler kernel_cs after_call scratch m = Some (True, m') \<and>
    (gpr m')\<lparr>f_rax := f_rax (gpr m)\<rparr> = gpr m \<and> result_ok (f_rax (gpr m')) \<and>
    m_rsp m' = m_rsp m \<and> m_rip m' = m_rip m \<and> m_cs m' = m_cs m \<and> m_ss m' = m_ss m \<and> m_rflags m' = m_rflags m \<and>
    USER_KERNEL_RSP m' = USER_KERNEL_RSP m \<and> RSP0 m' = RSP0 m \<and>
    (\<forall>a. a \<notin> trap_stack m \<union> touched (gpr m) m \<longrightarrow> ram m' a = ram m a)"
proof -
  let ?t = "trapped handler kernel_cs after_call m"
  obtain r where t: "?t = m\<lparr>m_rsp := (RSP0 m AND NOT 15) - 168, ram := r, m_cs := kernel_cs, m_ss := 0, m_rip := handler,
      m_rflags := m_rflags m AND NOT 0x34300, gpr := (gpr m)\<lparr>f_rdi := (RSP0 m AND NOT 15) - 168 + 8\<rparr>\<rparr>"
    and outside: "\<And>a. a \<notin> trap_stack m \<Longrightarrow> r a = ram m a"
    by (rule entry_frame [where m = m and handler = handler and kernel_cs = kernel_cs and after_call = after_call]) (rule that)
  have ok: "fds_ok ?t" "offsets_ok ?t" "drv_ok ?t" "touched (gpr m) ?t = touched (gpr m) m"
    using assms(1-3) by (simp_all add: t fds_ok_def offsets_ok_def drv_ok_def touched_def tx_area_def)
  with syscall_effects [OF ok(1-3), of "gpr m"] assms(4)
  obtain out u where u: "syscall_dispatch (gpr m) ?t = Some (out, u)" "out \<noteq> ReturnToKernel"
      "\<forall>f'. out = Resume f' \<longrightarrow> f'\<lparr>f_rax := f_rax (gpr m)\<rparr> = gpr m \<and> result_ok (f_rax f')"
      "kernel.more u = kernel.more ?t" "\<forall>a. a \<notin> touched (gpr m) m \<longrightarrow> ram u a = ram ?t a"
    by auto
  then obtain f' where f': "out = Resume f'" "f'\<lparr>f_rax := f_rax (gpr m)\<rparr> = gpr m" "result_ok (f_rax f')"
    by (cases out) auto
  have "\<forall>a\<in>trap_stack m. ram u a = ram ?t a"
    using assms(5) u(5) by blast
  then obtain q where "int80 handler kernel_cs after_call scratch m = Some (True, u\<lparr>ram := q, gpr := f', m_rip := m_rip m,
      m_cs := m_cs m, m_rflags := m_rflags m, m_rsp := m_rsp m, m_ss := m_ss m\<rparr>)" "\<forall>a. a \<notin> trap_stack m \<longrightarrow> q a = ram u a"
    using int80_resume [OF _ u(4) _ f'(2), of scratch] u(1) f'(1) by blast
  then show ?thesis
    using f' u(5) outside mach_fields [OF u(4)] by (simp add: t)
qed

text \<open>C36. A system call is transparent to the program that makes it: with the kernel's tables and driver in order and
  a buffer that does not overlap the kernel's trap stack, \<open>int 0x80\<close> with any number but \<open>exit\<close>
  comes back with every register, the stack and instruction pointers, the selectors and the flags
  as they were, except for a valid result in \<open>rax\<close>; the only memory that changes is the trap stack
  and the memory the call may write.\<close>

theorem trap_preserves_context:
  assumes "fds_ok m" and "offsets_ok m" and "drv_ok m" and "f_rax (gpr m) \<noteq> 2"
    and "trap_stack m \<inter> touched (gpr m) m = {}"
  shows "\<exists>m'. int80 handler kernel_cs after_call scratch m = Some (True, m') \<and>
    (gpr m')\<lparr>f_rax := f_rax (gpr m)\<rparr> = gpr m \<and> result_ok (f_rax (gpr m')) \<and>
    m_rsp m' = m_rsp m \<and> m_rip m' = m_rip m \<and> m_cs m' = m_cs m \<and> m_ss m' = m_ss m \<and> m_rflags m' = m_rflags m \<and>
    (\<forall>a. a \<notin> trap_stack m \<union> touched (gpr m) m \<longrightarrow> ram m' a = ram m a)"
  using trap_resumes [OF assms] by blast

section \<open>Running a user program\<close>

lemma trap_exits:
  assumes "f_rax (gpr m) = 2"
  shows "\<exists>r. int80 handler kernel_cs after_call scratch m =
      Some (False, (println ''[kernel] user program exited (code={})'' [ASigned (sint (f_rdi (gpr m)))] m)\<lparr>ram := r, gpr := scratch,
        m_rip := load64 (USER_KERNEL_RSP m) r, m_rsp := USER_KERNEL_RSP m + 8, m_cs := kernel_cs, m_ss := 0,
        m_rflags := m_rflags m AND NOT 0x34300\<rparr>) \<and>
    (\<forall>a. a \<notin> trap_stack m \<longrightarrow> r a = ram m a)"
proof -
  define p where "p = (RSP0 m AND NOT 15) - 168"
  let ?t = "trapped handler kernel_cs after_call m"
  obtain r where t: "?t = m\<lparr>m_rsp := p, ram := r, m_cs := kernel_cs, m_ss := 0, m_rip := handler, m_rflags := m_rflags m AND NOT 0x34300,
        gpr := (gpr m)\<lparr>f_rdi := p + 8\<rparr>\<rparr>"
    and cells: "\<And>k. k < 21 \<Longrightarrow> load64 (p + word_of_nat (8 * k)) r = trap_frame after_call m ! k"
    and outside: "\<And>a. a \<notin> trap_stack m \<Longrightarrow> r a = ram m a"
    by (rule entry_frame [where m = m and handler = handler and kernel_cs = kernel_cs and after_call = after_call,
          folded p_def]) (rule that)
  have f: "frame_at (p + 8) r = gpr m"
    using frame_at_cells [of p r "\<lambda>k. trap_frame after_call m ! k"] cells by (simp add: trap_frame_def)
  have "syscall_dispatch (gpr m) ?t =
      Some (ReturnToKernel, println ''[kernel] user program exited (code={})'' [ASigned (sint (f_rdi (gpr m)))] ?t)"
    using assms by (simp add: syscall_dispatch_def)
  then show ?thesis
    using f outside unfolding int80_def syscall_entry_def Let_def trapped_def [symmetric] t
    by (intro exI [of _ r]; cases m)
      (simp add: call_dispatch_def syscall_return_to_kernel_def ret_insn_def pop64_def println_def print_def)
qed

text \<open>The execution of a user program: its own instructions, system calls that return, and a last one that
  does not. The instructions are a relation \<open>U\<close>. \<open>K\<close> are kernel bytes that no system call of the
  program names as its buffer.\<close>

definition calm :: "u64 set \<Rightarrow> ('d, 'a) mach_scheme \<Rightarrow> bool" where
  "calm K m \<longleftrightarrow> fds_ok m \<and> offsets_ok m \<and> drv_ok m \<and> touched (gpr m) m \<inter> (K \<union> trap_stack m) = {}"

inductive user_run ::
  "u64 set \<Rightarrow> (('d, 'a) mach_scheme \<Rightarrow> ('d, 'a) mach_scheme \<Rightarrow> bool) \<Rightarrow> u64 \<Rightarrow> u64 \<Rightarrow> u64 \<Rightarrow>
     ('d, 'a) mach_scheme \<Rightarrow> ('d, 'a) mach_scheme \<Rightarrow> bool"
  for K U handler kernel_cs after_call where
  user_step: "U m m1 \<Longrightarrow> user_run K U handler kernel_cs after_call m1 m' \<Longrightarrow> user_run K U handler kernel_cs after_call m m'"
| user_call: "calm K m \<Longrightarrow> int80 handler kernel_cs after_call scratch m = Some (True, m1) \<Longrightarrow>
    user_run K U handler kernel_cs after_call m1 m' \<Longrightarrow> user_run K U handler kernel_cs after_call m m'"
| user_exit: "calm K m \<Longrightarrow> int80 handler kernel_cs after_call scratch m = Some (False, m') \<Longrightarrow>
    user_run K U handler kernel_cs after_call m m'"

definition user_mode :: "u64 set \<Rightarrow> (('d, 'a) mach_scheme \<Rightarrow> ('d, 'a) mach_scheme \<Rightarrow> bool) \<Rightarrow> bool" where
  "user_mode K U \<longleftrightarrow> (\<forall>m m'. U m m' \<longrightarrow>
     USER_KERNEL_RSP m' = USER_KERNEL_RSP m \<and> RSP0 m' = RSP0 m \<and> (\<forall>a\<in>K. ram m' a = ram m a))"

lemma user_run_ends:
  assumes "user_run K U handler kernel_cs after_call m m'" and "user_mode K U"
  shows "trap_stack m \<inter> K = {} \<Longrightarrow> addrs (USER_KERNEL_RSP m) 8 \<subseteq> K \<Longrightarrow>
    m_rip m' = load64 (USER_KERNEL_RSP m) (ram m) \<and> m_rsp m' = USER_KERNEL_RSP m + 8 \<and> m_cs m' = kernel_cs \<and>
    m_rflags m' AND 0x200 = 0"
  using assms(1)
proof (induction rule: user_run.induct)
  case (user_step m m1 m')
  then have m1: "USER_KERNEL_RSP m1 = USER_KERNEL_RSP m" "RSP0 m1 = RSP0 m" "\<forall>a\<in>K. ram m1 a = ram m a"
    using assms(2) by (auto simp: user_mode_def)
  then have "load64 (USER_KERNEL_RSP m) (ram m1) = load64 (USER_KERNEL_RSP m) (ram m)"
    using user_step.prems(2) by (intro load64_cong) blast
  then show ?case
    using user_step m1 by (simp add: trap_stack_def)
next
  case (user_call m scratch m1 m')
  have ne: "f_rax (gpr m) \<noteq> 2"
    using trap_exits [of m handler kernel_cs after_call scratch] user_call.hyps by auto
  then have m1: "USER_KERNEL_RSP m1 = USER_KERNEL_RSP m" "RSP0 m1 = RSP0 m" "\<forall>a\<in>K. ram m1 a = ram m a"
    using trap_resumes [OF _ _ _ ne, of handler kernel_cs after_call scratch] user_call.hyps user_call.prems(1)
    by (auto simp: calm_def)
  then have "load64 (USER_KERNEL_RSP m) (ram m1) = load64 (USER_KERNEL_RSP m) (ram m)"
    using user_call.prems(2) by (intro load64_cong) blast
  then show ?case
    using user_call m1 by (simp add: trap_stack_def)
next
  case (user_exit m scratch m')
  have eq: "f_rax (gpr m) = 2"
    using trap_resumes [of m handler kernel_cs after_call scratch] user_exit.hyps by (auto simp: calm_def)
  then have m': "\<forall>a\<in>K. ram m' a = ram m a" "m_rip m' = load64 (USER_KERNEL_RSP m) (ram m')"
    "m_rsp m' = USER_KERNEL_RSP m + 8" "m_cs m' = kernel_cs" "m_rflags m' = m_rflags m AND NOT 0x34300"
    using trap_exits [OF eq, of handler kernel_cs after_call scratch] user_exit by auto
  moreover have "load64 (USER_KERNEL_RSP m) (ram m') = load64 (USER_KERNEL_RSP m) (ram m)"
    using m'(1) user_exit.prems(2) by (intro load64_cong) blast
  moreover have "x AND NOT 0x34300 AND 0x200 = (0 :: u64)" for x
    by (simp add: and.assoc)
  ultimately show ?case
    by (simp add: and.assoc)
qed

text \<open>The first instruction of a program, and the return address the kernel finds again when the program ends.\<close>

lemma enter_user_state:
  fixes m :: "('d, 'a) mach_scheme"
  obtains r where "enter_user_asm var (push64 ret_addr m) = m\<lparr>ram := r, gpr := (gpr m)\<lparr>f_r11 := var\<rparr>, USER_KERNEL_RSP := m_rsp m - 8,
      m_rip := f_rdi (gpr m), m_cs := f_rdx (gpr m), m_rflags := 0x202, m_rsp := f_rsi (gpr m), m_ss := f_rcx (gpr m)\<rparr>"
    "load64 (m_rsp m - 8) r = ret_addr" "\<forall>a. a \<notin> addrs (m_rsp m - 48) 48 \<longrightarrow> r a = ram m a"
proof -
  define q where "q = m_rsp m - 48"
  let ?n = "push64 ret_addr m"
  let ?vs = "[f_rcx (gpr m), f_rsi (gpr m), 0x202, f_rdx (gpr m), f_rdi (gpr m)]"
  have len: "8 * length ?vs < 2 ^ 64"
    by simp
  let ?b = "?n\<lparr>gpr := (gpr m)\<lparr>f_r11 := var\<rparr>, USER_KERNEL_RSP := m_rsp m - 8\<rparr>"
  have "m_rsp ?b - word_of_nat (8 * length ?vs) = q"
    by (simp add: q_def push64_def)
  with pushes [OF len, of ?b]
  obtain r where r: "fold push64 ?vs ?b = ?b\<lparr>m_rsp := q, ram := r\<rparr>"
    "\<And>k. k < 5 \<Longrightarrow> load64 (q + word_of_nat (8 * k)) r = rev ?vs ! k"
    "\<And>a. a \<notin> addrs q 40 \<Longrightarrow> r a = ram ?n a"
    by auto
  have "load64 q r = f_rdi (gpr m)" "load64 (q + 8) r = f_rdx (gpr m)" "load64 (q + 16) r = 0x202"
    "load64 (q + 24) r = f_rsi (gpr m)" "load64 (q + 32) r = f_rcx (gpr m)"
    using r(2) [of 0] r(2) [of 1] r(2) [of 2] r(2) [of 3] r(2) [of 4] by simp_all
  moreover have "enter_user_asm var ?n = iretq (fold push64 ?vs ?b)"
    by (simp add: enter_user_asm_def push64_def Let_def)
  ultimately have "enter_user_asm var ?n = ?b\<lparr>ram := r, m_rip := f_rdi (gpr m), m_cs := f_rdx (gpr m), m_rflags := 0x202,
      m_rsp := f_rsi (gpr m), m_ss := f_rcx (gpr m)\<rparr>"
    unfolding r(1) by (simp add: iretq_def pop64_def add.commute [of q])
  then have m0: "enter_user_asm var ?n = m\<lparr>ram := r, gpr := (gpr m)\<lparr>f_r11 := var\<rparr>, USER_KERNEL_RSP := m_rsp m - 8,
      m_rip := f_rdi (gpr m), m_cs := f_rdx (gpr m), m_rflags := 0x202, m_rsp := f_rsi (gpr m), m_ss := f_rcx (gpr m)\<rparr>"
    by (cases m) (simp add: push64_def)
  have "addrs (q + word_of_nat 40) 8 \<inter> addrs q 40 = {}"
    using addrs_apart [of 0 40 40 8 q] by (simp only: Int_commute) simp
  then have "load64 (q + word_of_nat 40) r = load64 (q + word_of_nat 40) (ram ?n)"
    by (intro load64_cong r(3)) blast
  then have top: "load64 (m_rsp m - 8) r = ret_addr"
    using load64_store64 by (simp add: q_def push64_def)
  have "r a = ram m a" if "a \<notin> addrs q 48" for a
  proof -
    have "a \<notin> addrs q 40" "a \<notin> addrs (q + word_of_nat 40) 8"
      using that addrs_mono [of 40 48 q] addrs_sub [of 40 8 48 q] by auto
    then show ?thesis
      using r(3) [of a] by (simp add: push64_def store_bytes_other q_def)
  qed
  then show thesis
    using that [OF m0 top] unfolding q_def by blast
qed

text \<open>A user program starts where it should and gives the processor back: \<open>enter_user_asm\<close> begins execution at
  the requested address, stack, selectors and flags; and however the program runs, provided its
  instructions and the buffers of its system calls leave alone the return address on the kernel
  stack, its \<open>exit\<close> continues behind the call with the caller's stack pointer, in kernel mode, and
  with interrupts disabled.\<close>

theorem user_program_returns:
  assumes "user_run K U handler kernel_cs after_call (enter_user_asm var (push64 ret_addr m)) m'" and "user_mode K U"
    and "trap_stack m \<inter> K = {}" and "addrs (m_rsp m - 8) 8 \<subseteq> K"
  shows "\<exists>m0. m0 = enter_user_asm var (push64 ret_addr m) \<and> m_rip m0 = f_rdi (gpr m) \<and> m_rsp m0 = f_rsi (gpr m) \<and>
    m_cs m0 = f_rdx (gpr m) \<and> m_ss m0 = f_rcx (gpr m) \<and> m_rflags m0 = 0x202 \<and>
    m_rip m' = ret_addr \<and> m_rsp m' = m_rsp m \<and> m_cs m' = kernel_cs \<and> m_rflags m' AND 0x200 = 0"
proof -
  obtain r where m0: "enter_user_asm var (push64 ret_addr m) = m\<lparr>ram := r, gpr := (gpr m)\<lparr>f_r11 := var\<rparr>, USER_KERNEL_RSP := m_rsp m - 8,
      m_rip := f_rdi (gpr m), m_cs := f_rdx (gpr m), m_rflags := 0x202, m_rsp := f_rsi (gpr m), m_ss := f_rcx (gpr m)\<rparr>"
    "load64 (m_rsp m - 8) r = ret_addr"
    by (rule enter_user_state)
  then show ?thesis
    using user_run_ends [OF assms(1,2)] assms(3,4) unfolding m0(1) by (simp add: trap_stack_def)
qed

section \<open>Witnesses\<close>

definition demo_mach :: "unit mach" where
  "demo_mach = kernel.extend demo_kernel
     (mach.fields (demo_frame\<lparr>f_rdi := 0x400078, f_rsi := 0x500000, f_rdx := 0x23, f_rcx := 0x1b\<rparr>)
        0x8000 0x400080 0x23 0x1b 0x202 0 0x9000)"

lemma demo_mach_simps:
  "FD_TABLE demo_mach = FD_TABLE demo_kernel" "NIC demo_mach = NIC demo_kernel" "m_rsp demo_mach = 0x8000"
  "f_rax (gpr demo_mach) = 99" "RSP0 demo_mach = 0x9000" "m_rip demo_mach = 0x400080" "f_rdi (gpr demo_mach) = 0x400078"
  by (simp_all add: demo_mach_def kernel.defs mach.defs demo_frame_def)

lemma demo_mach_ok: "fds_ok demo_mach" "offsets_ok demo_mach" "drv_ok demo_mach"
  using demo_kernel_ok by (simp_all add: fds_ok_def offsets_ok_def drv_ok_def demo_mach_simps)

theorem trap_preserves_context_witness:
  "\<exists>m'. int80 0x1000 8 0x1010 demo_frame demo_mach = Some (True, m') \<and> m_rsp m' = 0x8000 \<and> m_rip m' = 0x400080"
proof -
  have "trap_stack demo_mach \<inter> touched (gpr demo_mach) demo_mach = {}"
    by (simp add: touched_def demo_mach_simps)
  then show ?thesis
    using trap_preserves_context [OF demo_mach_ok, of "0x1000" 8 "0x1010" demo_frame] demo_mach_simps by auto
qed

text \<open>A program that loads the number of \<open>exit\<close> and traps.\<close>

definition mov_exit :: "unit mach \<Rightarrow> unit mach \<Rightarrow> bool" where
  "mov_exit m m' \<longleftrightarrow> m' = m\<lparr>gpr := (gpr m)\<lparr>f_rax := 2\<rparr>\<rparr>"

theorem user_program_returns_witness:
  "\<exists>m'. user_run (addrs 0x7ff8 8) mov_exit 0x1000 8 0x1010 (enter_user_asm 0x3000 (push64 0x2222 demo_mach)) m' \<and>
     m_rip m' = 0x2222 \<and> m_rsp m' = 0x8000"
proof -
  let ?m0 = "enter_user_asm 0x3000 (push64 0x2222 demo_mach)"
  let ?m1 = "?m0\<lparr>gpr := (gpr ?m0)\<lparr>f_rax := 2\<rparr>\<rparr>"
  have ok: "fds_ok ?m1" "offsets_ok ?m1" "drv_ok ?m1" "f_rax (gpr ?m1) = 2"
    using demo_mach_ok by (simp_all add: fds_ok_def offsets_ok_def drv_ok_def enter_user_asm_def push64_def iretq_def pop64_def Let_def)
  obtain m' where m': "int80 0x1000 8 0x1010 demo_frame ?m1 = Some (False, m')"
    using trap_exits [OF ok(4)] by blast
  have "user_run (addrs 0x7ff8 8) mov_exit 0x1000 8 0x1010 ?m1 m'"
    by (rule user_run.user_exit [OF _ m']) (use ok in \<open>simp add: calm_def touched_def\<close>)
  then have run: "user_run (addrs 0x7ff8 8) mov_exit 0x1000 8 0x1010 ?m0 m'"
    by (rule user_run.user_step [rotated]) (simp add: mov_exit_def)
  have "user_mode (addrs 0x7ff8 8) mov_exit"
    by (simp add: user_mode_def mov_exit_def)
  moreover have "addrs 0x8f58 168 \<inter> addrs (0x7ff8 :: u64) 8 = {}"
    using addrs_apart [of 0 8 "0xf60" 168 "0x7ff8"] by (simp add: Int_commute)
  then have "trap_stack demo_mach \<inter> addrs 0x7ff8 8 = {}"
    by (simp add: trap_stack_def demo_mach_simps)
  ultimately show ?thesis
    using user_program_returns [OF run] run by (auto simp: demo_mach_simps)
qed

end
