(* ===== verification/Shell.thy ===== *)
theory Shell
  imports Fs_Properties Scheduler
begin

text \<open>
  The built-in shell (\<open>shell.rs\<close>): the line editor reading \<open>/dev/kbd\<close>, the command dispatcher and
  the commands. The state is the kernel state with the scheduler of \<open>process\<close>, which \<open>ps\<close>
  lists. \<open>process::sleep\<close> hands the processor to other tasks and interrupts, so what the state
  is when it returns is a parameter \<open>nap\<close>.

  A line only ever holds printable ASCII, so splitting at white space is splitting at ASCII
  white space. The main loop waits for input without a bound as long as keys keep arriving and
  is a partial function, undefined (\<open>None\<close>) where it panics or does not end. The loop of \<open>cat\<close>
  always ends: each round advances the offset of the descriptor, whose overflow panics.
\<close>

record ('d, 'f) system = "'d kernel" +
  SCHEDULER :: "'f sched"

section \<open>Words and numbers\<close>

definition is_space :: "byte \<Rightarrow> bool" where
  "is_space b \<longleftrightarrow> 9 \<le> b \<and> b \<le> 13 \<or> b = 32"

fun words_from :: "byte list \<Rightarrow> byte list \<Rightarrow> byte list list" where
  "words_from w [] = (if w = [] then [] else [w])"
| "words_from w (b # bs) =
     (if is_space b then (if w = [] then words_from [] bs else w # words_from [] bs) else words_from (w @ [b]) bs)"

definition split_whitespace :: "byte list \<Rightarrow> byte list list" where
  "split_whitespace text = words_from [] text"

text \<open>\<open>str::parse::<u8>\<close>: an optional plus sign and at least one digit, with a value of at most 255.\<close>

fun parse_digits :: "nat \<Rightarrow> byte list \<Rightarrow> nat option" where
  "parse_digits v [] = Some v"
| "parse_digits v (b # bs) =
     (if 48 \<le> b \<and> b \<le> 57 \<and> v * 10 + (unat b - 48) \<le> 255 then parse_digits (v * 10 + (unat b - 48)) bs else None)"

definition parse_u8 :: "byte list \<Rightarrow> byte option" where
  "parse_u8 t =
     (let digits = (if length t > 1 \<and> t ! 0 = 0x2b then drop 1 t else t) in
      if digits = [] then None else map_option word_of_nat (parse_digits 0 digits))"

definition parse_ip :: "byte list \<Rightarrow> ipv4 option" where
  "parse_ip t =
     (let parts = split_on 0x2e t in
      if length parts \<noteq> 4 then None
      else do {
        a \<leftarrow> parse_u8 (parts ! 0);
        b \<leftarrow> parse_u8 (parts ! 1);
        c \<leftarrow> parse_u8 (parts ! 2);
        d \<leftarrow> parse_u8 (parts ! 3);
        Some (a, b, c, d)
      })"

section \<open>Commands\<close>

definition cmd_help :: "'a console_scheme \<Rightarrow> 'a console_scheme" where
  "cmd_help s = println ''commands: help echo ls cat ps free ifconfig arp netstat ping net exit'' [] s"

definition cmd_ls :: "byte list list \<Rightarrow> ('d, 'a) kernel_scheme \<Rightarrow> ('d, 'a) kernel_scheme" where
  "cmd_ls args s =
     (let path = (case args of p # _ \<Rightarrow> p | [] \<Rightarrow> str ''/'') in
      case fs_list_dir path s of
        Inr names \<Rightarrow> println ''{}: {:?}'' [AStr path, AList (map AStr names)] s
      | Inl e \<Rightarrow> println ''ls: {} -> {:?}'' [AStr path, AErr e] s)"

text \<open>How far the offset of a descriptor is from overflowing.\<close>

definition room :: "nat \<Rightarrow> ('d, 'a) kernel_scheme \<Rightarrow> nat" where
  "room fd s = (case slot (FD_TABLE s) fd of Some f \<Rightarrow> 2 ^ 64 - unat (f_offset f) | None \<Rightarrow> 0)"

lemma fs_read_room:
  assumes "fs_read fd cap s = Some (Inr bs, s')" and "bs \<noteq> []" and "cap < 2 ^ 64"
  shows "room fd s' < room fd s"
  using assms(1)
proof (rule fs_read_InrE)
  fix f t off
  assume f: "slot (FD_TABLE s) fd = Some f"
    and off: "checked_add (f_offset f) (word_of_nat (length bs)) = Some off"
    and s': "s' = t\<lparr>FD_TABLE := (FD_TABLE s)[fd := Some (f\<lparr>f_offset := off\<rparr>)]\<rparr>" and len: "length bs \<le> cap"
  have "unat (word_of_nat (length bs) :: u64) = length bs"
    using len assms(3) by (subst unat_of_nat) simp
  then have "unat off = unat (f_offset f) + length bs"
    using checked_add_Some_unat [OF off] by simp
  moreover have "unat off < 2 ^ 64"
    using unat_less [of off] by simp
  moreover have "slot (FD_TABLE s') fd = Some (f\<lparr>f_offset := off\<rparr>)"
    using slot_SomeD [OF f] s' by (simp add: slot_simps)
  ultimately show ?thesis
    using f assms(2) by (simp add: room_def diff_less_mono2)
qed

function cat_loop :: "nat \<Rightarrow> byte list \<Rightarrow> ('d, 'a) kernel_scheme \<Rightarrow> (byte list \<times> ('d, 'a) kernel_scheme) option" where
  "cat_loop fd out s = do {
     (r, s) \<leftarrow> fs_read fd 256 s;
     (case r of
        Inl _ \<Rightarrow> Some (out, s)
      | Inr bs \<Rightarrow> if bs = [] then Some (out, s) else cat_loop fd (out @ text_or ''<binary>'' bs) s)
   }"
  by pat_completeness auto
termination
proof (relation "measure (\<lambda>(fd, out, s). room fd s)")
  fix fd out s x r s' bs
  assume a: "fs_read fd 256 s = Some x" "(r, s') = x" "r = Inr bs" "bs \<noteq> []"
  show "((fd, out @ text_or ''<binary>'' bs, s'), fd, out, s) \<in> measure (\<lambda>(fd, out, s). room fd s)"
    using a fs_read_room [of fd 256 s bs s'] by auto
qed simp

declare cat_loop.simps [simp del]

definition cmd_cat :: "byte list list \<Rightarrow> ('d, 'a) kernel_scheme \<Rightarrow> ('d, 'a) kernel_scheme option" where
  "cmd_cat args s =
     (case args of
        [] \<Rightarrow> Some (println ''cat: missing operand'' [] s)
      | path # _ \<Rightarrow>
          (case fs_open path s of
             (Inl e, s) \<Rightarrow> Some (println ''cat: {} -> {:?}'' [AStr path, AErr e] s)
           | (Inr fd, s) \<Rightarrow> do {
               (out, s) \<leftarrow> cat_loop fd [] s;
               let (_, s) = fs_close fd s;
               Some (print ''{}'' [AStr out] s)
             }))"

definition cmd_ps :: "('d, 'f, 'a) system_scheme \<Rightarrow> ('d, 'f, 'a) system_scheme" where
  "cmd_ps s =
     (let s = println ''[pid] state'' [] s in
      fold (\<lambda>(id, st). println ''  {} {}'' [ANum (unat id), AStr (str st)]) (snapshot (SCHEDULER s)) s)"

definition cmd_free :: "('d, 'a) kernel_scheme \<Rightarrow> ('d, 'a) kernel_scheme" where
  "cmd_free s =
     (let frames = free_count (FRAME_ALLOCATOR s) in
      println ''heap used={} KiB free={} KiB | physical free frames={} ({} MiB)''
        [ANum (used_bytes s div 1024), ANum (free_bytes s div 1024), ANum frames, ANum (frames * 4 div 1024)] s)"

definition cmd_ifconfig :: "('d, 'a) kernel_scheme \<Rightarrow> ('d, 'a) kernel_scheme" where
  "cmd_ifconfig s =
     println ''e1000: ip={}.{}.{}.{} gw={}.{}.{}.{} mac={}''
       (ip_args IP @ ip_args GATEWAY @ [AStr (text_or ''?'' (mac_fmt (our_mac s)))]) s"

definition cmd_arp :: "('d, 'a) kernel_scheme \<Rightarrow> ('d, 'a) kernel_scheme" where
  "cmd_arp s =
     (let t = arp_table s in
      if t = [] then println ''arp cache empty'' [] s
      else fold (\<lambda>(ip, m). println ''  {}.{}.{}.{} -> {}'' (ip_args ip @ [AStr (text_or ''?'' (mac_fmt m))])) t s)"

definition cmd_netstat :: "('d, 'a) kernel_scheme \<Rightarrow> ('d, 'a) kernel_scheme" where
  "cmd_netstat s =
     (let s = println ''  proto  local  peer            queue'' [] s in
      fold (\<lambda>(idx, proto, port, pr, q).
          let name = (if proto = PROTO_UDP then ''udp'' else ''tcp'');
              peer_s = (case pr of Some (ip, p) \<Rightarrow> ip_fmt ip @ str '':'' @ dec (unat p) | None \<Rightarrow> str ''-'')
          in println ''  {} {:>4} {:>5} {:<15} {}''
               [AStr (str name), ANum idx, ANum (unat port), AStr peer_s, ANum q])
        (sock_info s) s)"

fun ping_rounds ::
  "(u64 \<Rightarrow> ('d, 'a) kernel_scheme \<Rightarrow> ('d, 'a) kernel_scheme option) \<Rightarrow> ipv4 \<Rightarrow> u16 list \<Rightarrow>
     ('d, 'a) kernel_scheme \<Rightarrow> ('d, 'a) kernel_scheme option" where
  "ping_rounds nap dst [] s = Some s"
| "ping_rounds nap dst (sq # sqs) s = do {
     s \<leftarrow> ping dst sq s;
     s \<leftarrow> nap 5 s;
     (_, s) \<leftarrow> pump s;
     ping_rounds nap dst sqs s
   }"

definition cmd_ping ::
  "(u64 \<Rightarrow> ('d, 'a) kernel_scheme \<Rightarrow> ('d, 'a) kernel_scheme option) \<Rightarrow> byte list list \<Rightarrow>
     ('d, 'a) kernel_scheme \<Rightarrow> ('d, 'a) kernel_scheme option" where
  "cmd_ping nap args s =
     (case (case args of a # _ \<Rightarrow> parse_ip a | [] \<Rightarrow> None) of
        None \<Rightarrow> Some (println ''usage: ping a.b.c.d'' [] s)
      | Some dst \<Rightarrow> do {
          s \<leftarrow> (if arp_lookup dst s = None then arp_request GATEWAY s else Some s);
          ping_rounds nap dst [1, 2, 3] s
        })"

section \<open>The dispatcher\<close>

definition eval ::
  "(u64 \<Rightarrow> ('d, 'f, 'a) system_scheme \<Rightarrow> ('d, 'f, 'a) system_scheme option) \<Rightarrow> byte list \<Rightarrow>
     ('d, 'f, 'a) system_scheme \<Rightarrow> (bool \<times> ('d, 'f, 'a) system_scheme) option" where
  "eval nap line s =
     (let text = (case from_utf8 line of Some t \<Rightarrow> t | None \<Rightarrow> []) in
      case split_whitespace text of
        [] \<Rightarrow> Some (False, s)
      | cmd # args \<Rightarrow>
          if cmd = str ''help'' then Some (False, cmd_help s)
          else if cmd = str ''echo'' then Some (False, println ''{}'' [AStr (join_with 32 args)] s)
          else if cmd = str ''ls'' then Some (False, cmd_ls args s)
          else if cmd = str ''cat'' then map_option (Pair False) (cmd_cat args s)
          else if cmd = str ''ps'' then Some (False, cmd_ps s)
          else if cmd = str ''free'' then Some (False, cmd_free s)
          else if cmd = str ''ifconfig'' then Some (False, cmd_ifconfig s)
          else if cmd = str ''arp'' then Some (False, cmd_arp s)
          else if cmd = str ''netstat'' then Some (False, cmd_netstat s)
          else if cmd = str ''ping'' then map_option (Pair False) (cmd_ping nap args s)
          else if cmd = str ''net'' then map_option (Pair False) (net_demo s)
          else if cmd = str ''exit'' \<or> cmd = str ''quit'' then Some (True, s)
          else Some (False, println (''{}: command not found (try '' @ [CHR 0x27] @ ''help'' @ [CHR 0x27] @ '')'') [AStr cmd] s))"

section \<open>The main loop\<close>

text \<open>The bytes of one read: the edited line, or \<open>None\<close> once a command asked to quit.\<close>

fun feed ::
  "(u64 \<Rightarrow> ('d, 'f, 'a) system_scheme \<Rightarrow> ('d, 'f, 'a) system_scheme option) \<Rightarrow> byte list \<Rightarrow> byte list \<Rightarrow>
     ('d, 'f, 'a) system_scheme \<Rightarrow> (byte list option \<times> ('d, 'f, 'a) system_scheme) option" where
  "feed nap [] line s = Some (Some line, s)"
| "feed nap (b # bs) line s =
     (if b = 10 \<or> b = 13 then do {
        (quit, s) \<leftarrow> eval nap line (print ''# '' [] s);
        if quit then Some (None, s) else feed nap bs [] s
      }
      else if b = 8 then feed nap bs (butlast line) s
      else if 0x20 \<le> b \<and> b < 0x7f then feed nap bs (line @ [b]) s
      else feed nap bs line s)"

partial_function (option) run_loop ::
  "(u64 \<Rightarrow> ('d, 'f, 'a) system_scheme \<Rightarrow> ('d, 'f, 'a) system_scheme option) \<Rightarrow> nat \<Rightarrow> byte list \<Rightarrow> nat \<Rightarrow>
     ('d, 'f, 'a) system_scheme \<Rightarrow> ('d, 'f, 'a) system_scheme option" where
  "run_loop nap fd line idle s =
     Option.bind (fs_read fd 32 s) (\<lambda>x.
       if (case fst x of Inr bs \<Rightarrow> bs | Inl _ \<Rightarrow> []) = [] then
         Option.bind (nap 2 (snd x)) (\<lambda>s.
           if idle + 1 > 200 then Some (println ''[shell] input idle; exiting'' [] s)
           else run_loop nap fd line (idle + 1) s)
       else
         Option.bind (feed nap (case fst x of Inr bs \<Rightarrow> bs | Inl _ \<Rightarrow> []) line (snd x)) (\<lambda>y.
           if fst y = None then Some (snd y) else run_loop nap fd (the (fst y)) 0 (snd y)))"

definition shell_run ::
  "(u64 \<Rightarrow> ('d, 'f, 'a) system_scheme \<Rightarrow> ('d, 'f, 'a) system_scheme option) \<Rightarrow>
     ('d, 'f, 'a) system_scheme \<Rightarrow> ('d, 'f, 'a) system_scheme option" where
  "shell_run nap s =
     (let s = println (''SimpleLinux shell (Phase 8) '' @ [CHR 0xE2, CHR 0x80, CHR 0x94] @ '' type '' @ [CHR 0x27]
                @ ''help'' @ [CHR 0x27] @ '' for commands.'') [] s in
      case fs_open (str ''/dev/kbd'') s of
        (Inl e, s) \<Rightarrow> Some (println ''[shell] cannot open /dev/kbd: {:?}'' [AErr e] s)
      | (Inr fd, s) \<Rightarrow> do {
          s \<leftarrow> run_loop nap fd [] 0 s;
          Some (snd (fs_close fd s))
        })"

end
