(* ===== verification/Shell_Properties.thy ===== *)
theory Shell_Properties
  imports Shell
begin

text \<open>
  What the shell does for its user: \<open>cat\<close> prints a file and releases its descriptor
  (\<open>shell_cat_prints\<close>) but does not return from \<open>/dev/zero\<close> (\<open>cat_zero_never_returns\<close>), an
  address typed in dotted notation is the address meant (\<open>parse_ip_fmt\<close>), and a shell that gets
  no input ends (\<open>shell_idle_exit\<close>).
\<close>

section \<open>Addresses\<close>

lemma parse_digits_append:
  "parse_digits v (xs @ ys) = (case parse_digits v xs of None \<Rightarrow> None | Some w \<Rightarrow> parse_digits w ys)"
  by (induction v xs rule: parse_digits.induct) auto

lemma parse_digits_dec: "n < 256 \<Longrightarrow> parse_digits 0 (dec n) = Some n"
proof (induction n rule: dec.induct)
  case (1 n)
  have digit: "parse_digits v [word_of_nat (48 + k)] = Some (v * 10 + k)" if "k < 10" "v * 10 + k < 256" for v k
  proof -
    have "unat (word_of_nat (48 + k) :: byte) = 48 + k"
      using that by (simp add: unat_of_nat del: of_nat_add)
    then show ?thesis
      using that by (simp add: word_le_nat_alt del: of_nat_add)
  qed
  show ?case
  proof (cases "n < 10")
    case True
    then show ?thesis
      using digit [of n 0] by (simp add: dec.simps [of n] del: of_nat_add)
  next
    case False
    then have "dec n = dec (n div 10) @ [word_of_nat (48 + n mod 10)]"
      by (simp only: dec.simps [of n] if_False)
    then show ?thesis
      using 1 False digit [of "n mod 10" "n div 10"] by (simp add: parse_digits_append del: of_nat_add)
  qed
qed

lemma parse_u8_dec: "parse_u8 (dec (unat b)) = Some b"
proof -
  have "dec (unat b) ! 0 \<noteq> 0x2b"
    using dec_digits [OF nth_mem, of 0 "unat b"] dec_ne [of "unat b"] by force
  then show ?thesis
    using parse_digits_dec [of "unat b"] dec_ne [of "unat b"] by (simp add: parse_u8_def)
qed

lemma parse_ip_fmt: "parse_ip (ip_fmt ip) = Some ip"
proof -
  obtain a b c d where ip: "ip = (a, b, c, d)"
    by (cases ip)
  let ?ws = "[dec (unat a), dec (unat b), dec (unat c), dec (unat d)]"
  have fresh: "(0x2e :: byte) \<notin> set (dec n)" for n
    using dec_digits [of "0x2e" n] by auto
  have "ip_fmt ip = join_with 0x2e ?ws"
    by (simp add: ip_fmt_def ip str_def)
  moreover have "split_on 0x2e (join_with 0x2e ?ws) = ?ws"
    by (intro split_on_join_with) (auto simp: fresh)
  ultimately show ?thesis
    by (simp add: parse_ip_def parse_u8_dec ip)
qed

section \<open>\<open>cat\<close>\<close>

lemma open_slot:
  assumes "fds_ok s" and "live (FD_TABLE s) < MAX_FDS" and "resolve path s = Inr i"
  obtains fd t where "fs_open path s = (Inr fd, s\<lparr>FD_TABLE := t\<rparr>)" "slot t = (slot (FD_TABLE s))(fd \<mapsto> \<lparr>f_inode = i, f_offset = 0\<rparr>)"
    "slot (FD_TABLE s) fd = None"
proof -
  obtain t fd where i: "install \<lparr>f_inode = i, f_offset = 0\<rparr> (FD_TABLE s) = Some (t, fd)"
    using assms(1,2) install_None_iff [of "FD_TABLE s" "\<lparr>f_inode = i, f_offset = 0\<rparr>"] by (auto simp: fds_ok_def)
  show thesis
    by (rule that [of fd t]) (use assms(3) i fds.alloc_slot [OF i] fds.alloc_free [OF i] in \<open>simp_all add: fs_open_def\<close>)
qed

lemma close_slot:
  assumes "slot (FD_TABLE s) = m(fd \<mapsto> g)" and "m fd = None"
  shows "\<exists>t. fs_close fd s = (Inr (), s\<lparr>FD_TABLE := t\<rparr>) \<and> slot t = m"
proof -
  have "slot (FD_TABLE s) fd = Some g"
    using assms(1) by simp
  moreover from slot_SomeD [OF this] have "slot ((FD_TABLE s)[fd := None]) = m"
    using assms by (simp add: slot_simps fun_upd_idem)
  ultimately show ?thesis
    by (auto simp: fs_close_def)
qed

lemma text_or_ascii: "ascii bs \<Longrightarrow> text_or d bs = bs"
  using valid_utf8_ascii [of bs] by (simp add: text_or_def from_utf8_def ascii_def)

lemma cat_loop_content:
  assumes "length c < 2 ^ 64" and "ascii c"
  shows "slot (FD_TABLE s) fd = Some f \<Longrightarrow> file_content (f_inode f) s = Some c \<Longrightarrow> unat (f_offset f) \<le> length c \<Longrightarrow>
    \<exists>t g. cat_loop fd out s = Some (out @ drop (unat (f_offset f)) c, s\<lparr>FD_TABLE := t\<rparr>) \<and>
      slot t = (slot (FD_TABLE s))(fd \<mapsto> g)"
proof (induction "length c - unat (f_offset f)" arbitrary: f out s rule: less_induct)
  case less
  let ?bs = "read_at c (f_offset f) 256" and ?f = "f\<lparr>f_offset := f_offset f + word_of_nat (length (read_at c (f_offset f) 256))\<rparr>"
  let ?s = "s\<lparr>FD_TABLE := (FD_TABLE s)[fd := Some ?f]\<rparr>"
  have rd: "fs_read fd 256 s = Some (Inr ?bs, ?s)"
    by (rule fs_read_content [OF less.prems(1,2) assms(1) less.prems(3)])
  have s: "slot (FD_TABLE ?s) = (slot (FD_TABLE s))(fd \<mapsto> ?f)"
    using slot_SomeD [OF less.prems(1)] by (simp add: slot_simps)
  show ?case
  proof (cases "?bs = []")
    case True
    then have "drop (unat (f_offset f)) c = []"
      using stored.rd_progress [of 256 c "f_offset f"] by simp
    then show ?thesis
      using rd True s by (simp add: cat_loop.simps [of fd out s]) blast
  next
    case False
    have off: "unat (f_offset ?f) = unat (f_offset f) + length ?bs"
      using stored.rd_offset(1) [OF assms(1) less.prems(3), of 256] by simp
    have len: "unat (f_offset ?f) \<le> length c"
      using stored.rd_length(2) [OF less.prems(3), of 256] off by simp
    have "length c - unat (f_offset ?f) < length c - unat (f_offset f)"
    proof -
      have "0 < length ?bs"
        using False by simp
      then show ?thesis
        using off len by linarith
    qed
    moreover have "file_content (f_inode ?f) ?s = Some c"
      using less.prems(2) by (simp add: file_content_def split: inode.splits)
    ultimately obtain t g where t: "cat_loop fd (out @ ?bs) ?s = Some ((out @ ?bs) @ drop (unat (f_offset ?f)) c, ?s\<lparr>FD_TABLE := t\<rparr>)"
        "slot t = (slot (FD_TABLE ?s))(fd \<mapsto> g)"
      using less.hyps [of ?f ?s "out @ ?bs"] s len by auto
    have "ascii ?bs"
      using assms(2) set_take_subset set_drop_subset by (fastforce simp: ascii_def stored.rd_eq)
    then have "cat_loop fd out s = cat_loop fd (out @ ?bs) ?s"
      using rd False by (simp add: cat_loop.simps [of fd out s] text_or_ascii)
    moreover have "drop (unat (f_offset ?f)) c = drop 256 (drop (unat (f_offset f)) c)"
      by (simp only: off stored.rd_drop)
    then have "?bs @ drop (unat (f_offset ?f)) c = drop (unat (f_offset f)) c"
      using stored.rd_eq [of c "f_offset f" 256] append_take_drop_id [of 256 "drop (unat (f_offset f)) c"] by (simp only:)
    ultimately show ?thesis
      using t s by (intro exI [of _ t] exI [of _ g]) simp
  qed
qed

text \<open>The shell's \<open>cat\<close> shows a file: for a path that resolves to a file of ASCII text, ramdisk or synthetic, and a
  free descriptor, it prints exactly the contents, however many reads that takes, and leaves the
  descriptor table and the rest of the state as they were.\<close>

lemma shell_cat_prints:
  assumes "fds_ok s" and "live (FD_TABLE s) < MAX_FDS" and "resolve path s = Inr i"
    and "file_content i s = Some c" and "ascii c" and "length c < 2 ^ 64"
  shows "\<exists>t. cmd_cat (path # rest) s = Some (s\<lparr>FD_TABLE := t, serial := serial s @ [Print ''{}'' [AStr c]]\<rparr>) \<and>
    slot t = slot (FD_TABLE s)"
proof -
  obtain fd t where o1: "fs_open path s = (Inr fd, s\<lparr>FD_TABLE := t\<rparr>)"
    "slot t = (slot (FD_TABLE s))(fd \<mapsto> \<lparr>f_inode = i, f_offset = 0\<rparr>)" "slot (FD_TABLE s) fd = None"
    using open_slot [OF assms(1-3)] by blast
  have "file_content i (s\<lparr>FD_TABLE := t\<rparr>) = Some c"
    using assms(4) by (simp add: file_content_def split: inode.splits)
  then obtain u g where u: "cat_loop fd [] (s\<lparr>FD_TABLE := t\<rparr>) = Some (c, s\<lparr>FD_TABLE := u\<rparr>)" "slot u = (slot t)(fd \<mapsto> g)"
    using cat_loop_content [OF assms(6,5), of "s\<lparr>FD_TABLE := t\<rparr>" fd "\<lparr>f_inode = i, f_offset = 0\<rparr>" "[]"] o1(2) by auto
  have "slot (FD_TABLE (s\<lparr>FD_TABLE := u\<rparr>)) = (slot (FD_TABLE s))(fd \<mapsto> g)"
    using u(2) o1(2) by simp
  from close_slot [OF this o1(3)]
  obtain v where v: "fs_close fd (s\<lparr>FD_TABLE := u\<rparr>) = (Inr (), s\<lparr>FD_TABLE := v\<rparr>)" "slot v = slot (FD_TABLE s)"
    by auto
  show ?thesis
    using o1(1) u(1) v by (intro exI [of _ v]) (simp add: cmd_cat_def print_def)
qed

lemma cat_loop_zero:
  "slot (FD_TABLE s) fd = Some f \<Longrightarrow> f_inode f = Zero \<Longrightarrow> cat_loop fd out s = None"
proof (induction "room fd s" arbitrary: f out s rule: less_induct)
  case less
  show ?case
  proof (cases "checked_add (f_offset f) 256")
    case None
    then show ?thesis
      using less.prems by (simp add: cat_loop.simps [of fd out s] fs_read_def)
  next
    case (Some off)
    let ?f = "f\<lparr>f_offset := off\<rparr>" and ?bs = "replicate 256 (0 :: byte)"
    let ?s = "s\<lparr>FD_TABLE := (FD_TABLE s)[fd := Some ?f]\<rparr>"
    have rd: "fs_read fd 256 s = Some (Inr ?bs, ?s)"
      using less.prems Some by (simp add: fs_read_def)
    have ne: "?bs \<noteq> []"
      by simp
    have "slot (FD_TABLE ?s) fd = Some ?f"
      using slot_SomeD [OF less.prems(1)] by (simp add: slot_simps)
    then have "cat_loop fd (out @ text_or ''<binary>'' ?bs) ?s = None"
      using less.hyps [of ?s ?f] fs_read_room [OF rd ne] less.prems(2) by simp
    then show ?thesis
      using rd ne by (simp add: cat_loop.simps [of fd out s])
  qed
qed

text \<open>A \<open>cat\<close> of \<open>/dev/zero\<close>, whose reads never come back empty, does not return: it reads until the offset overflows,
  or earlier runs out of memory for the text.\<close>

lemma cat_zero_never_returns:
  assumes "fds_ok s" and "live (FD_TABLE s) < MAX_FDS" and "resolve path s = Inr Zero"
  shows "cmd_cat (path # rest) s = None"
proof -
  obtain fd t where "fs_open path s = (Inr fd, s\<lparr>FD_TABLE := t\<rparr>)"
    "slot t = (slot (FD_TABLE s))(fd \<mapsto> \<lparr>f_inode = Zero, f_offset = 0\<rparr>)"
    using open_slot [OF assms] by blast
  then show ?thesis
    using cat_loop_zero [of "s\<lparr>FD_TABLE := t\<rparr>" fd] by (simp add: cmd_cat_def)
qed

section \<open>Idle input\<close>

text \<open>An environment in which nobody types: sleeping returns and leaves descriptors and keys alone.\<close>

definition silent :: "(u64 \<Rightarrow> ('d, 'f, 'a) system_scheme \<Rightarrow> ('d, 'f, 'a) system_scheme option) \<Rightarrow> bool" where
  "silent nap \<longleftrightarrow> (\<forall>n s. \<exists>s'. nap n s = Some s' \<and> FD_TABLE s' = FD_TABLE s \<and> key_buffer s' = key_buffer s)"

lemma idle_read:
  assumes "slot (FD_TABLE s) fd = Some f" and "f_inode f = Kbd" and "key_buffer s = []"
  shows "fs_read fd cap s = Some (Inr [], s)"
proof -
  have "(FD_TABLE s)[fd := Some f] = FD_TABLE s"
    using slot_SomeD [OF assms(1)] by (metis list_update_id)
  moreover have "s\<lparr>key_buffer := []\<rparr> = s"
    using assms(3) by simp
  moreover have "checked_add (f_offset f) 0 = Some (f_offset f)"
    using unat_less [of "f_offset f"] by (simp add: checked_add_def)
  ultimately show ?thesis
    using assms by (simp add: fs_read_def kbd_read_eq)
qed

lemma run_loop_idle:
  assumes "silent nap"
  shows "idle \<le> 200 \<Longrightarrow> slot (FD_TABLE s) fd = Some f \<Longrightarrow> f_inode f = Kbd \<Longrightarrow> key_buffer s = [] \<Longrightarrow>
    \<exists>s'. run_loop nap fd line idle s = Some s' \<and> FD_TABLE s' = FD_TABLE s \<and>
      (\<exists>es. serial s' = es @ [Print (''[shell] input idle; exiting'' @ [CHR 0x0A]) []])"
proof (induction "200 - idle" arbitrary: idle s)
  case 0
  obtain t where t: "nap 2 s = Some t" "FD_TABLE t = FD_TABLE s"
    using assms by (auto simp: silent_def)
  have "run_loop nap fd line idle s = Some (println ''[shell] input idle; exiting'' [] t)"
    using 0 t idle_read [of s fd f 32] by (subst run_loop.simps) simp
  then show ?case
    using t(2) by (simp add: println_def print_def)
next
  case (Suc k)
  obtain t where t: "nap 2 s = Some t" "FD_TABLE t = FD_TABLE s" "key_buffer t = key_buffer s"
    using assms by (auto simp: silent_def)
  have "\<exists>s'. run_loop nap fd line (idle + 1) t = Some s' \<and> FD_TABLE s' = FD_TABLE t \<and>
      (\<exists>es. serial s' = es @ [Print (''[shell] input idle; exiting'' @ [CHR 0x0A]) []])"
    using Suc t by (intro Suc.hyps(1)) auto
  moreover have "idle < 200"
    using Suc.hyps(2) by simp
  then have "run_loop nap fd line idle s = run_loop nap fd line (idle + 1) t"
    using Suc.prems t idle_read [of s fd f 32] by (subst run_loop.simps) simp
  ultimately show ?case
    using t(2) by simp
qed


section \<open>Witnesses\<close>

theorem shell_cat_prints_witness:
  "\<exists>s'. cmd_cat [str ''/proc/uptime''] demo_kernel = Some s' \<and>
     serial s' = [Print ''{}'' [AStr (str ''2 seconds since boot'' @ [10])]]"
proof -
  let ?c = "str ''2 seconds since boot'' @ [10]"
  have "fds_ok demo_kernel" "live (FD_TABLE demo_kernel) < MAX_FDS"
    by (simp_all add: fds_ok_def demo_kernel_def MAX_FDS_def live_def)
  moreover have "resolve (str ''/proc/uptime'') demo_kernel = Inr (ProcFile Uptime)"
    by (simp add: resolve_def longest_mount_def demo_kernel_def better_pair covers_def str_def components_def)
  moreover have "file_content (ProcFile Uptime) demo_kernel = Some ?c"
    by (simp add: file_content_def uptime_def ticks_def HZ_def demo_kernel_def dec.simps str_def)
  moreover have "ascii ?c" "length ?c < 2 ^ 64"
    by (simp_all add: ascii_def str_def)
  ultimately obtain t where "cmd_cat [str ''/proc/uptime''] demo_kernel =
      Some (demo_kernel\<lparr>FD_TABLE := t, serial := serial demo_kernel @ [Print ''{}'' [AStr ?c]]\<rparr>)"
    using shell_cat_prints [of demo_kernel "str ''/proc/uptime''" "ProcFile Uptime" ?c "[]"] by blast
  moreover have "serial demo_kernel = []"
    by (simp add: demo_kernel_def)
  ultimately show ?thesis
    by simp
qed

definition demo_system :: "(unit, unit) system" where
  "demo_system = kernel.extend demo_kernel (system.fields sched_new)"


end
