(* ===== verification/Vga.thy ===== *)
theory Vga
  imports Prelude
begin

unbundle bit_operations_syntax

text \<open>
  The VGA text screen (\<open>vga.rs\<close>): a writer that fills the last row of 25 rows of 80 cells and
  scrolls. The video memory is a map from the offset behind \<open>VGA_BUFFER\<close> (\<open>0xb8000\<close>) to bytes,
  two per cell. \<open>vga_refines_screen\<close> shows that writing implements a terminal whose state is the
  list of rows, and that no byte outside the 4000 of the screen is written.
\<close>

section \<open>The driver\<close>

definition BUFFER_HEIGHT :: nat where "BUFFER_HEIGHT = 25"
definition BUFFER_WIDTH :: nat where "BUFFER_WIDTH = 80"

datatype color = Black | Blue | Green | Cyan | Red | Magenta | Brown | LightGray | DarkGray | LightBlue | LightGreen
  | LightCyan | LightRed | Pink | Yellow | White

fun color_num :: "color \<Rightarrow> byte" where
  "color_num Black = 0"
| "color_num Blue = 1"
| "color_num Green = 2"
| "color_num Cyan = 3"
| "color_num Red = 4"
| "color_num Magenta = 5"
| "color_num Brown = 6"
| "color_num LightGray = 7"
| "color_num DarkGray = 8"
| "color_num LightBlue = 9"
| "color_num LightGreen = 10"
| "color_num LightCyan = 11"
| "color_num LightRed = 12"
| "color_num Pink = 13"
| "color_num Yellow = 14"
| "color_num White = 15"

record screen_char =
  ascii_character :: byte
  char_color :: byte

record vga_writer =
  column_position :: nat
  color_code :: byte
  vmem :: "nat \<Rightarrow> byte"

definition write_char :: "nat \<Rightarrow> nat \<Rightarrow> screen_char \<Rightarrow> vga_writer \<Rightarrow> vga_writer" where
  "write_char row col ch w =
     (let offset = (row * BUFFER_WIDTH + col) * 2 in
      w\<lparr>vmem := (vmem w)(offset := ascii_character ch, offset + 1 := char_color ch)\<rparr>)"

definition read_char :: "nat \<Rightarrow> nat \<Rightarrow> vga_writer \<Rightarrow> screen_char" where
  "read_char row col w =
     (let offset = (row * BUFFER_WIDTH + col) * 2 in
      \<lparr>ascii_character = vmem w offset, char_color = vmem w (offset + 1)\<rparr>)"

definition clear_row :: "nat \<Rightarrow> vga_writer \<Rightarrow> vga_writer" where
  "clear_row row w =
     (let blank = \<lparr>ascii_character = 32, char_color = color_code w\<rparr>
      in fold (\<lambda>col. write_char row col blank) [0..<BUFFER_WIDTH] w)"

definition scroll_row :: "nat \<Rightarrow> vga_writer \<Rightarrow> vga_writer" where
  "scroll_row row w =
     fold (\<lambda>col w. let character = read_char row col w in write_char (row - 1) col character w) [0..<BUFFER_WIDTH] w"

definition new_line :: "vga_writer \<Rightarrow> vga_writer" where
  "new_line w =
     (let w = fold scroll_row [1..<BUFFER_HEIGHT] w;
          w = clear_row (BUFFER_HEIGHT - 1) w
      in w\<lparr>column_position := 0\<rparr>)"

definition write_byte :: "byte \<Rightarrow> vga_writer \<Rightarrow> vga_writer" where
  "write_byte b w =
     (if b = 10 then new_line w
      else
        let w = (if column_position w \<ge> BUFFER_WIDTH then new_line w else w);
            row = BUFFER_HEIGHT - 1;
            col = column_position w;
            w = write_char row col \<lparr>ascii_character = b, char_color = color_code w\<rparr> w
        in w\<lparr>column_position := column_position w + 1\<rparr>)"

definition set_color :: "color \<Rightarrow> color \<Rightarrow> vga_writer \<Rightarrow> vga_writer" where
  "set_color foreground background w =
     w\<lparr>color_code := push_bit 4 (color_num background) OR color_num foreground\<rparr>"

definition write_str :: "byte list \<Rightarrow> vga_writer \<Rightarrow> vga_writer" where
  "write_str bs w = fold write_byte bs w"

definition WRITER :: "(nat \<Rightarrow> byte) \<Rightarrow> vga_writer" where
  "WRITER m = \<lparr>column_position = 0, color_code = push_bit 4 (color_num Black) OR color_num LightGreen, vmem = m\<rparr>"

definition vga_init :: "vga_writer \<Rightarrow> vga_writer" where
  "vga_init w = (let w = fold clear_row [0..<BUFFER_HEIGHT] w in w\<lparr>column_position := 0\<rparr>)"

section \<open>Cells\<close>

lemmas vga_size = BUFFER_HEIGHT_def BUFFER_WIDTH_def

lemma cell_eq_iff: "c < 80 \<Longrightarrow> c' < 80 \<Longrightarrow> r * 80 + (c :: nat) = r' * 80 + c' \<longleftrightarrow> r = r' \<and> c = c'"
proof
  assume c: "c < 80" "c' < 80" and e: "r * 80 + c = r' * 80 + c'"
  then have "(r * 80 + c) div 80 = (r' * 80 + c') div 80"
    by simp
  then have "r = r'"
    using c by simp
  with e show "r = r' \<and> c = c'"
    by simp
qed simp

lemma read_write_char:
  assumes "c < 80" and "c' < 80"
  shows "read_char r' c' (write_char r c ch w) = (if r' = r \<and> c' = c then ch else read_char r' c' w)"
proof -
  define a where "a = r * 80 + c"
  define b where "b = r' * 80 + c'"
  have eq: "b = a \<longleftrightarrow> r' = r \<and> c' = c"
    unfolding a_def b_def using assms by (auto simp: cell_eq_iff)
  have "b * 2 \<noteq> a * 2 + 1" "b * 2 + 1 \<noteq> a * 2"
    by presburger+
  then show ?thesis
    unfolding read_char_def write_char_def BUFFER_WIDTH_def Let_def a_def [symmetric] b_def [symmetric] eq [symmetric]
    by (cases "b = a") simp_all
qed

lemma write_char_frame [simp]:
  "column_position (write_char r c ch w) = column_position w" "color_code (write_char r c ch w) = color_code w"
  by (simp_all add: write_char_def Let_def)

lemma write_char_outside:
  "r < 25 \<Longrightarrow> c < 80 \<Longrightarrow> 4000 \<le> a \<Longrightarrow> vmem (write_char r c ch w) a = vmem w a"
  by (simp add: write_char_def Let_def BUFFER_WIDTH_def)

text \<open>What an operation of the writer keeps: position, colour and the memory behind the screen.\<close>

definition vga_frame :: "vga_writer \<Rightarrow> vga_writer \<Rightarrow> bool" where
  "vga_frame w w' \<longleftrightarrow> column_position w' = column_position w \<and> color_code w' = color_code w \<and>
     (\<forall>a\<ge>4000. vmem w' a = vmem w a)"

lemma vga_frame_refl: "vga_frame w w"
  by (simp add: vga_frame_def)

lemma vga_frame_trans: "vga_frame u v \<Longrightarrow> vga_frame v w \<Longrightarrow> vga_frame u w"
  by (simp add: vga_frame_def)

lemma vga_frame_write: "r < 25 \<Longrightarrow> c < 80 \<Longrightarrow> vga_frame w (write_char r c ch w)"
  by (simp add: vga_frame_def write_char_outside)

lemma vga_frame_fold:
  assumes "\<And>x w. x \<in> set xs \<Longrightarrow> vga_frame w (f x w)"
  shows "vga_frame w (fold f xs w)"
  using assms by (induction xs arbitrary: w) (auto simp: vga_frame_refl intro: vga_frame_trans)

section \<open>Rows\<close>

lemma read_scroll_cols:
  assumes "\<forall>j\<in>set js. j < 80" and "c < 80" and "0 < row"
  shows "read_char r c (fold (\<lambda>col w. let ch = read_char row col w in write_char (row - 1) col ch w) js w) =
    (if r = row - 1 \<and> c \<in> set js then read_char row c w else read_char r c w)"
  using assms
proof (induction js arbitrary: w)
  case (Cons j js)
  let ?w = "write_char (row - 1) j (read_char row j w) w"
  have "read_char row c ?w = read_char row c w"
    using Cons.prems by (subst read_write_char) auto
  moreover have "read_char r c ?w = (if r = row - 1 \<and> c = j then read_char row j w else read_char r c w)"
    using Cons.prems by (subst read_write_char) auto
  ultimately show ?case
    using Cons by auto
qed simp

lemma read_scroll_row:
  "c < 80 \<Longrightarrow> 0 < row \<Longrightarrow> read_char r c (scroll_row row w) = (if r = row - 1 then read_char row c w else read_char r c w)"
  using read_scroll_cols [of "[0..<80]" c row r w] by (auto simp: scroll_row_def BUFFER_WIDTH_def)

lemma read_scroll:
  assumes "c < 80"
  shows "read_char r c (fold scroll_row [1..<Suc n] w) = (if r < n then read_char (Suc r) c w else read_char r c w)"
proof (induction n arbitrary: r)
  case (Suc n)
  have "fold scroll_row [1..<Suc (Suc n)] w = scroll_row (Suc n) (fold scroll_row [1..<Suc n] w)"
    by simp
  then show ?case
    using Suc read_scroll_row [OF assms, of "Suc n"] by auto
qed simp

lemma read_clear_cols:
  "\<forall>j\<in>set js. j < 80 \<Longrightarrow> c < 80 \<Longrightarrow>
    read_char r c (fold (\<lambda>col. write_char row col ch) js w) = (if r = row \<and> c \<in> set js then ch else read_char r c w)"
  by (induction js arbitrary: w) (auto simp: read_write_char)

lemma read_clear_row:
  "c < 80 \<Longrightarrow> read_char r c (clear_row row w) =
    (if r = row then \<lparr>ascii_character = 32, char_color = color_code w\<rparr> else read_char r c w)"
  using read_clear_cols [of "[0..<80]" c r row _ w] by (auto simp: clear_row_def Let_def BUFFER_WIDTH_def)

lemma vga_frame_rows:
  "row < 25 \<Longrightarrow> vga_frame w (clear_row row w)" "row < 25 \<Longrightarrow> vga_frame w (scroll_row row w)"
  unfolding clear_row_def scroll_row_def Let_def BUFFER_WIDTH_def
  by (intro vga_frame_fold; simp add: vga_frame_write)+

section \<open>The screen as a terminal\<close>

text \<open>The abstract terminal: the rows of cells, the column of the next character, the colour in use.\<close>

type_synonym terminal = "screen_char list list \<times> nat \<times> byte"

definition term_scroll :: "byte \<Rightarrow> screen_char list list \<Rightarrow> screen_char list list" where
  "term_scroll clr rows = tl rows @ [replicate 80 \<lparr>ascii_character = 32, char_color = clr\<rparr>]"

fun term_byte :: "byte \<Rightarrow> terminal \<Rightarrow> terminal" where
  "term_byte b (rows, col, clr) =
     (if b = 10 then (term_scroll clr rows, 0, clr)
      else if 80 \<le> col then ((term_scroll clr rows)[24 := (term_scroll clr rows ! 24)[0 := \<lparr>ascii_character = b, char_color = clr\<rparr>]], 1, clr)
      else (rows[24 := (rows ! 24)[col := \<lparr>ascii_character = b, char_color = clr\<rparr>]], col + 1, clr))"

definition screen_rows :: "vga_writer \<Rightarrow> screen_char list list" where
  "screen_rows w = map (\<lambda>r. map (\<lambda>c. read_char r c w) [0..<80]) [0..<25]"

definition terminal_of :: "vga_writer \<Rightarrow> terminal" where
  "terminal_of w = (screen_rows w, column_position w, color_code w)"

lemma screen_rows_cong:
  "(\<And>r c. r < 25 \<Longrightarrow> c < 80 \<Longrightarrow> read_char r c w = F r c) \<Longrightarrow>
    screen_rows w = map (\<lambda>r. map (F r) [0..<80]) [0..<25]"
  by (simp add: screen_rows_def)

lemma length_screen_rows [simp]: "length (screen_rows w) = 25"
  by (simp add: screen_rows_def)

lemma screen_rows_nth: "r < 25 \<Longrightarrow> screen_rows w ! r = map (\<lambda>c. read_char r c w) [0..<80]"
  by (simp add: screen_rows_def)

lemma screen_rows_position [simp]: "screen_rows (w\<lparr>column_position := n\<rparr>) = screen_rows w"
  by (simp add: screen_rows_def read_char_def)

lemma new_line_frame:
  "color_code (new_line w) = color_code w" "column_position (new_line w) = 0" "4000 \<le> a \<Longrightarrow> vmem (new_line w) a = vmem w a"
proof -
  have "vga_frame w (clear_row 24 (fold scroll_row [1..<25] w))"
    by (rule vga_frame_trans [OF vga_frame_fold]) (auto intro: vga_frame_rows)
  then show "color_code (new_line w) = color_code w" "column_position (new_line w) = 0"
    "4000 \<le> a \<Longrightarrow> vmem (new_line w) a = vmem w a"
    by (simp_all add: new_line_def vga_frame_def BUFFER_HEIGHT_def Let_def)
qed

lemma screen_rows_new_line: "screen_rows (new_line w) = term_scroll (color_code w) (screen_rows w)"
proof (rule nth_equalityI)
  fix r
  assume "r < length (screen_rows (new_line w))"
  then have r: "r < 25"
    by simp
  let ?v = "fold scroll_row [1..<Suc 24] w"
  have clr: "color_code ?v = color_code w"
    using vga_frame_fold [of "[1..<Suc 24]" scroll_row w] vga_frame_rows(2) by (auto simp: vga_frame_def)
  have "read_char r c (new_line w) =
      (if r < 24 then read_char (Suc r) c w else \<lparr>ascii_character = 32, char_color = color_code w\<rparr>)" if "c < 80" for c
  proof -
    have "new_line w = (clear_row 24 ?v)\<lparr>column_position := 0\<rparr>"
      by (simp add: new_line_def BUFFER_HEIGHT_def Let_def)
    then have "read_char r c (new_line w) = read_char r c (clear_row 24 ?v)"
      by (simp add: read_char_def)
    then show ?thesis
      using r read_clear_row [OF that, of r 24 ?v] read_scroll [OF that, of r 24 w] clr by auto
  qed
  then have "screen_rows (new_line w) ! r =
      map (\<lambda>c. if r < 24 then read_char (Suc r) c w else \<lparr>ascii_character = 32, char_color = color_code w\<rparr>) [0..<80]"
    using r by (simp add: screen_rows_nth)
  also have "\<dots> = term_scroll (color_code w) (screen_rows w) ! r"
    using r by (auto simp: term_scroll_def nth_append nth_tl screen_rows_nth map_replicate_const)
  finally show "screen_rows (new_line w) ! r = term_scroll (color_code w) (screen_rows w) ! r" .
qed (simp add: term_scroll_def)

lemma screen_rows_write:
  assumes "c < 80"
  shows "screen_rows (write_char 24 c ch w) = (screen_rows w)[24 := (screen_rows w ! 24)[c := ch]]"
proof (rule nth_equalityI)
  fix r
  assume "r < length (screen_rows (write_char 24 c ch w))"
  then have r: "r < 25"
    by simp
  show "screen_rows (write_char 24 c ch w) ! r = (screen_rows w)[24 := (screen_rows w ! 24)[c := ch]] ! r"
  proof (cases "r = 24")
    case True
    then show ?thesis
      using assms by (auto simp: screen_rows_nth read_write_char nth_list_update intro!: nth_equalityI)
  next
    case False
    then show ?thesis
      using r assms by (simp add: screen_rows_nth read_write_char)
  qed
qed simp

lemma write_byte_refines: "terminal_of (write_byte b w) = term_byte b (terminal_of w)"
proof -
  let ?v = "if column_position w \<ge> 80 then new_line w else w"
  have "column_position ?v < 80"
    by (auto simp: new_line_frame)
  then show ?thesis
    by (auto simp: terminal_of_def write_byte_def vga_size screen_rows_new_line screen_rows_write new_line_frame Let_def)
qed

lemma write_byte_outside: "4000 \<le> a \<Longrightarrow> vmem (write_byte b w) a = vmem w a"
  by (auto simp: write_byte_def vga_size new_line_frame write_char_outside Let_def)

text \<open>C38. The screen driver implements a terminal of 25 rows of 80 cells: writing a string moves the screen memory, position
  and colour exactly as the terminal that appends each character to its last row and, at a line
  feed or a full row, drops its first row and adds a blank one; and no byte behind the 4000 of the
  screen is ever written.\<close>

theorem vga_refines_screen:
  "terminal_of (write_str bs w) = fold term_byte bs (terminal_of w) \<and>
   vmem (write_str bs w) (4000 + a) = vmem w (4000 + a)"
  unfolding write_str_def
  by (induction bs arbitrary: w) (simp_all add: write_byte_refines write_byte_outside del: term_byte.simps)

end
