(* ===== verification/Nic_Arp.thy ===== *)
theory Nic_Arp
  imports Net_Properties
begin

unbundle bit_operations_syntax

text \<open>
  The driver's own ARP smoke test (\<open>drivers/e1000/arp.rs\<close>): it builds a request by hand, sends it
  and polls the receive ring for a reply, sleeping in between. What the state is when a sleep
  returns is a parameter \<open>nap\<close>: during it other tasks run and the device delivers frames. While
  the ring is polled the device is not, so the polling loop ends: each frame taken leaves one
  completed descriptor less.
\<close>

definition nic_arp_request :: "mac_addr \<Rightarrow> ipv4 \<Rightarrow> byte list" where
  "nic_arp_request m target =
     replicate 6 0xff @ mac_bytes m @ [0x08, 0x06] @ [0x00, 0x01] @ [0x08, 0x00] @ [6] @ [4] @ [0x00, 0x01]
     @ mac_bytes m @ ip_bytes IP @ replicate 6 0 @ ip_bytes target"

definition is_arp_reply :: "byte list \<Rightarrow> bool" where
  "is_arp_reply frame \<longleftrightarrow>
     length frame \<ge> 42 \<and> frame ! 12 = 0x08 \<and> frame ! 13 = 0x06 \<and> frame ! 21 = 0x02"

text \<open>The completed descriptors of the receive ring.\<close>

definition completed :: "'a e1000_scheme \<Rightarrow> nat" where
  "completed s = (case NIC s of None \<Rightarrow> 0 | Some n \<Rightarrow> length (filter (\<lambda>d. d_status d AND DESC_DD \<noteq> 0) (rx_ring n)))"

lemma filter_update_less:
  "i < length xs \<Longrightarrow> P (xs ! i) \<Longrightarrow> \<not> P y \<Longrightarrow> length (filter P (xs[i := y])) < length (filter P xs)"
proof (induction xs arbitrary: i)
  case (Cons x xs)
  then show ?case
    by (cases i) auto
qed simp

lemma poll_receive_completed:
  assumes "poll_receive s = Some (Some f, s')"
  shows "completed s' < completed s"
proof -
  obtain n where n: "NIC s = Some n"
    using assms by (auto simp: poll_receive_def split: option.splits)
  let ?i = "rx_cursor n mod NUM_RX"
  have "?i < length (rx_ring n)" "d_status (rx_ring n ! ?i) AND DESC_DD \<noteq> 0"
    using assms n by (auto simp: poll_receive_def get_at_def Let_def split: if_splits bind_splits)
  moreover have "\<exists>phys. map_option rx_ring (NIC s') = Some ((rx_ring n)[?i := empty_desc phys])"
    using assms n
    by (auto simp: poll_receive_def get_at_def put_def write_reg_def Let_def split: if_splits bind_splits prod.splits)
  then obtain phys n' where "NIC s' = Some n'" "rx_ring n' = (rx_ring n)[?i := empty_desc phys]"
    by auto
  ultimately show ?thesis
    using n filter_update_less [of ?i "rx_ring n" "\<lambda>d. d_status d AND DESC_DD \<noteq> 0" "empty_desc phys"]
    by (simp add: completed_def empty_desc_def)
qed

function arp_poll :: "'a e1000_scheme \<Rightarrow> (byte list option \<times> 'a e1000_scheme) option" where
  "arp_poll s = do {
     (f, s) \<leftarrow> poll_receive s;
     (case f of
        None \<Rightarrow> Some (None, s)
      | Some frame \<Rightarrow> if is_arp_reply frame then Some (Some frame, s) else arp_poll s)
   }"
  by pat_completeness auto
termination
  by (relation "measure completed") (auto simp: poll_receive_completed)

declare arp_poll.simps [simp del]

fun arp_wait ::
  "(u64 \<Rightarrow> 'a e1000_scheme \<Rightarrow> 'a e1000_scheme option) \<Rightarrow> nat \<Rightarrow> 'a e1000_scheme \<Rightarrow>
     (byte list option \<times> 'a e1000_scheme) option" where
  "arp_wait nap 0 s = Some (None, s)"
| "arp_wait nap (Suc n) s = do {
     s \<leftarrow> nap 5 s;
     (r, s) \<leftarrow> arp_poll s;
     (case r of Some frame \<Rightarrow> Some (Some frame, s) | None \<Rightarrow> arp_wait nap n s)
   }"

definition demo_arp ::
  "device \<Rightarrow> (u64 \<Rightarrow> 'a e1000_scheme \<Rightarrow> 'a e1000_scheme option) \<Rightarrow> 'a e1000_scheme \<Rightarrow> 'a e1000_scheme option" where
  "demo_arp dev nap s =
     (case mac_address s of
        None \<Rightarrow> Some (println ''[e1000] no NIC; skipping ARP demo'' [] s)
      | Some m \<Rightarrow> do {
          let req = nic_arp_request m GATEWAY;
          let s = println ''[e1000] ARP request who-has {}.{}.{}.{} ({} bytes)''
                    (byte_args (ip_bytes GATEWAY) @ [ANum (length req)]) s;
          (ok, s) \<leftarrow> e1000_send req s;
          if \<not> ok then Some (println ''[e1000] send failed'' [] s)
          else do {
            (r, s) \<leftarrow> arp_wait nap 40 s;
            (case r of
               Some frame \<Rightarrow>
                 Some (println ''[e1000] ARP reply: {}.{}.{}.{} is at {:02x}:{:02x}:{:02x}:{:02x}:{:02x}:{:02x}''
                   (byte_args (ip_bytes (ip_at 28 frame) @ mac_bytes (mac_at 22 frame))) s)
             | None \<Rightarrow>
                 rx_debug dev (println ''[e1000] no ARP reply seen on this QEMU build (TX-completion limitation)'' [] s))
          }
        })"

section \<open>Properties\<close>

lemma arp_poll_finds:
  assumes "rx_pending s fs"
  shows "\<exists>s'. arp_poll s = Some (List.find is_arp_reply fs, s') \<and>
    rx_pending s' (tl (dropWhile (\<lambda>f. \<not> is_arp_reply f) fs))"
  using assms
proof (induction fs arbitrary: s)
  case Nil
  then show ?case
    using poll_receive_empty [OF Nil] by (simp add: arp_poll.simps [of s])
next
  case (Cons f fs)
  obtain s' where s': "poll_receive s = Some (Some f, s')" "rx_pending s' fs"
    using poll_receive_pop [OF Cons.prems] by blast
  then show ?case
    using Cons.IH [OF s'(2)] by (simp add: arp_poll.simps [of s])
qed

text \<open>C40. The two implementations of ARP agree: the request the driver's test builds by hand is, byte for byte, the frame that
  the network stack sends for the same question; the test recognises every reply the stack can
  send and takes the sender's addresses from it; and it takes no request for a reply.\<close>

theorem arp_implementations_agree:
  "nic_arp_request m target = eth_frame BROADCAST m ETHERTYPE_ARP (arp_payload OP_REQUEST m IP (0, 0, 0, 0, 0, 0) target) \<and>
   is_arp_reply (eth_frame dst src ETHERTYPE_ARP (arp_payload OP_REPLY sha spa tha tpa)) \<and>
   ip_at 28 (eth_frame dst src ETHERTYPE_ARP (arp_payload OP_REPLY sha spa tha tpa)) = spa \<and>
   mac_at 22 (eth_frame dst src ETHERTYPE_ARP (arp_payload OP_REPLY sha spa tha tpa)) = sha \<and>
   \<not> is_arp_reply (nic_arp_request m target)"
proof -
  obtain m1 m2 m3 m4 m5 m6 where m: "m = (m1, m2, m3, m4, m5, m6)"
    by (cases m)
  obtain d1 d2 d3 d4 d5 d6 where dst: "dst = (d1, d2, d3, d4, d5, d6)"
    by (cases dst)
  obtain s1 s2 s3 s4 s5 s6 where src: "src = (s1, s2, s3, s4, s5, s6)"
    by (cases src)
  obtain h1 h2 h3 h4 h5 h6 where sha: "sha = (h1, h2, h3, h4, h5, h6)"
    by (cases sha)
  obtain p1 p2 p3 p4 where spa: "spa = (p1, p2, p3, p4)"
    by (cases spa)
  obtain t1 t2 t3 t4 t5 t6 where tha: "tha = (t1, t2, t3, t4, t5, t6)"
    by (cases tha)
  obtain q1 q2 q3 q4 where tpa: "tpa = (q1, q2, q3, q4)"
    by (cases tpa)
  obtain g1 g2 g3 g4 where target: "target = (g1, g2, g3, g4)"
    by (cases target)
  have six: "replicate 6 x = [x, x, x, x, x, x]" for x :: byte
    by (simp add: eval_nat_numeral)
  show ?thesis
    unfolding m dst src sha spa tha tpa target
    by (intro conjI; simp add: nic_arp_request_def is_arp_reply_def eth_frame_def arp_payload_def six mac_bytes_def ip_bytes_def
        BROADCAST_def ETHERTYPE_ARP_def HTYPE_ETH_def PTYPE_IP_def OP_REQUEST_def OP_REPLY_def be16_eq IP_def ip_at_def mac_at_def)
qed

end
