(* ===== verification/Composition.thy ===== *)
theory Composition
  imports Syscall_Properties Shell_Properties
begin

text \<open>
  The parts of the kernel at work together: lemmas on which the properties that span several
  components rest. A command line typed at the shell is evaluated as that command
  (\<open>feed_line\<close>), a path below \<open>/initrd\<close> resolves to what the archive holds there
  (\<open>resolve_initrd\<close>), and the socket system calls connect a descriptor to a socket
  (\<open>udp_socket\<close>), name its port or its peer, and send and receive through it.
\<close>

section \<open>From the key to the command\<close>

definition typeable :: "byte list \<Rightarrow> bool" where
  "typeable t \<longleftrightarrow> (\<forall>b\<in>set t. 0x20 \<le> b \<and> b < 0x7f)"

lemma typeable_simps: "typeable []" "typeable (b # t) \<longleftrightarrow> 0x20 \<le> b \<and> b < 0x7f \<and> typeable t"
  "typeable (t @ u) \<longleftrightarrow> typeable t \<and> typeable u"
  by (auto simp: typeable_def)

lemma typeable_ascii: "typeable t \<Longrightarrow> \<forall>b\<in>set t. b < 0x80"
  using less_trans [of _ "0x7f" "0x80 :: byte"] by (auto simp: typeable_def)

lemma feed_typeable: "typeable t \<Longrightarrow> feed nap (t @ bs) line s = feed nap bs (line @ t) s"
proof (induction t arbitrary: line)
  case (Cons b t)
  then have b: "0x20 \<le> b" "b < 0x7f" "typeable t"
    by (simp_all add: typeable_simps)
  then have "b \<noteq> 10" "b \<noteq> 13" "b \<noteq> 8"
    by auto
  then show ?case
    using b Cons.IH by simp
qed simp

lemma feed_line:
  assumes "typeable t"
  shows "feed nap (t @ [10]) [] s =
    map_option (\<lambda>(quit, s). (if quit then None else Some [], s)) (eval nap t (print ''# '' [] s))"
  using feed_typeable [OF assms, of nap "[10]" "[]" s] by (cases "eval nap t (print ''# '' [] s)") auto

lemma words_from_word: "\<forall>b\<in>set t. \<not> is_space b \<Longrightarrow> words_from w (t @ bs) = words_from (w @ t) bs"
  by (induction t arbitrary: w) auto

lemma split_whitespace_two:
  assumes "\<forall>b\<in>set t. \<not> is_space b" and "\<forall>b\<in>set u. \<not> is_space b" and "t \<noteq> []" and "u \<noteq> []"
  shows "split_whitespace (t @ 32 # u) = [t, u]"
proof -
  have "is_space 32"
    by (simp add: is_space_def)
  then show ?thesis
    using assms words_from_word [of t "[]" "32 # u"] words_from_word [of u "[]" "[]"] by (simp add: split_whitespace_def)
qed

lemma eval_cat:
  assumes "typeable p" and "0x20 \<notin> set p" and "p \<noteq> []"
  shows "eval nap (str ''cat '' @ p) s = map_option (Pair False) (cmd_cat [p] s)"
proof -
  have "\<forall>b\<in>set p. \<not> is_space b"
  proof
    fix b
    assume "b \<in> set p"
    then have "0x20 \<le> b" "b \<noteq> 0x20"
      using assms(1,2) by (auto simp: typeable_def)
    then show "\<not> is_space b"
      using order_trans [of "0x20" b 13] by (auto simp: is_space_def)
  qed
  moreover have "str ''cat '' = str ''cat'' @ [32]" "\<forall>b\<in>set (str ''cat''). \<not> is_space b"
    by (simp_all add: str_def is_space_def)
  ultimately have "split_whitespace (str ''cat '' @ p) = [str ''cat'', p]"
    using split_whitespace_two [of "str ''cat''" p] assms(3) by (simp add: str_def)
  moreover have "\<forall>b\<in>set (str ''cat '' @ p). b < 0x80"
    using typeable_ascii [OF assms(1)] by (auto simp: str_def)
  then have "from_utf8 (str ''cat '' @ p) = Some (str ''cat '' @ p)"
    using valid_utf8_ascii [of "str ''cat '' @ p"] by (simp add: from_utf8_def)
  ultimately show ?thesis
    by (simp add: eval_def) (simp add: str_def)
qed

section \<open>From the archive to the path\<close>

lemma walk_inode_node:
  "walk_inode (InodeNode n) ws = (case walk n ws of Some m \<Rightarrow> Inr (InodeNode m) | None \<Rightarrow> Inl NotFound)"
  by (induction n ws rule: walk.induct) (auto split: option.splits)

lemma components_slash: "components (0x2f # p) = components p"
  by (simp add: components_def)

lemma resolve_initrd:
  assumes "MOUNTS s = boot_mounts root"
  shows "resolve (str ''/initrd/'' @ p) s =
    (case walk root (components p) of Some m \<Rightarrow> Inr (InodeNode m) | None \<Rightarrow> Inl NotFound)"
  unfolding resolve_boot [OF assms] by (simp add: covers_def str_def components_slash walk_inode_node)

lemma ustar_data_bound: "ustar tar es \<Longrightarrow> e \<in> set es \<Longrightarrow> length (e_data e) < 8 ^ 11"
  by (induction tar es rule: ustar.induct) (auto simp: ustar_header_def)

lemma creator_in: "creator es ws = Some e \<Longrightarrow> e \<in> set es"
  by (auto simp: creator_def find_Some_iff)

text \<open>A file of the archive, found through the mount table after bring-up.\<close>

lemma boot_resolves_file:
  assumes "ustar tar es" and "from_tar tar = Some root" and "MOUNTS s = boot_mounts root"
    and "components p \<noteq> []" and "creator es (components p) = Some e" and "components (e_path e) = components p" and "\<not> is_dir e"
  obtains m where "resolve (str ''/initrd/'' @ p) s = Inr (InodeNode m)" "n_data m = e_data e"
proof -
  have "at_path (node_dir (str ''/'')) (components p) = None"
    using assms(4) by (cases "components p") (simp_all add: at_path_Cons)
  then have "at_path root (components p) = Some (entry_view e)"
    using parse_ustar [OF assms(1), of "[]"] assms(2,5,6)
    by (simp add: from_tar_def parse_def) (auto simp: at_path_with_entries path_view_def)
  then obtain m where "walk root (components p) = Some m" "n_data m = e_data e"
    using assms(7) by (auto simp: at_path_def entry_view_def)
  then show thesis
    by (intro that [of m]) (simp_all add: resolve_initrd [OF assms(3)])
qed

lemma typed_cat_prints:
  assumes "MOUNTS s = []" and "FD_TABLE s = []" and "ustar tar es"
    and "components p \<noteq> []" and "creator es (components p) = Some e" and "components (e_path e) = components p"
    and "\<not> is_dir e" and "ascii (e_data e)" and "typeable p" and "0x20 \<notin> set p"
  shows "\<exists>s1 s2. fs_init tar s = Some s1 \<and> feed nap (str ''cat /initrd/'' @ p @ [10]) [] s1 = Some (Some [], s2) \<and>
    serial s2 = serial s1 @ [Print ''# '' [], Print ''{}'' [AStr (e_data e)]] \<and> slot (FD_TABLE s2) = slot (FD_TABLE s1)"
proof -
  obtain s1 root where s1: "fs_init tar s = Some s1" "from_tar tar = Some root"
    "FD_TABLE s1 = replicate 3 (Some \<lparr>f_inode = Console, f_offset = 0\<rparr>)" "MOUNTS s1 = boot_mounts root"
    by (rule fs_init_state [OF assms(1,2)])
  let ?s = "print ''# '' [] s1" and ?p = "str ''/initrd/'' @ p"
  have same: "MOUNTS ?s = boot_mounts root" "FD_TABLE ?s = FD_TABLE s1" "serial ?s = serial s1 @ [Print ''# '' []]"
    by (simp_all add: print_def s1(4))
  obtain m where m: "resolve ?p ?s = Inr (InodeNode m)" "n_data m = e_data e"
    by (rule boot_resolves_file [OF assms(3) s1(2) same(1) assms(4-7)])
  have "fds_ok ?s" "live (FD_TABLE ?s) < MAX_FDS"
    unfolding fds_ok_def same s1(3) by (simp_all add: MAX_FDS_def live_def)
  moreover have "length (e_data e) < 2 ^ 64"
    using ustar_data_bound [OF assms(3) creator_in [OF assms(5)]] by simp
  ultimately obtain t where t: "slot t = slot (FD_TABLE s1)"
    "cmd_cat [?p] ?s = Some (?s\<lparr>FD_TABLE := t, serial := serial ?s @ [Print ''{}'' [AStr (e_data e)]]\<rparr>)"
    using shell_cat_prints [OF _ _ m(1) _ assms(8), of "[]"] m(2) same(2) by (auto simp: file_content_def)
  have p: "typeable ?p" "0x20 \<notin> set ?p" "?p \<noteq> []" "typeable (str ''cat '' @ ?p)"
    using assms(9,10) by (simp_all add: typeable_simps str_def)
  have line: "(str ''cat '' @ ?p) @ [10] = str ''cat /initrd/'' @ p @ [10]"
    by (simp add: str_def)
  have "feed nap ((str ''cat '' @ ?p) @ [10]) [] s1 =
      Some (Some [], ?s\<lparr>FD_TABLE := t, serial := serial ?s @ [Print ''{}'' [AStr (e_data e)]]\<rparr>)"
    unfolding feed_line [OF p(4)] eval_cat [OF p(1-3)] t(2) by simp
  then show ?thesis
    using s1(1) t(1) same(3) unfolding line by simp
qed

section \<open>Descriptors of sockets\<close>

text \<open>Descriptor \<open>fd\<close>, given as the word a program holds, is socket \<open>x\<close> in slot \<open>i\<close>.\<close>

definition sock_fd :: "u64 \<Rightarrow> nat \<Rightarrow> socket \<Rightarrow> ('d, 'a) kernel_scheme \<Rightarrow> bool" where
  "sock_fd fd i x s \<longleftrightarrow>
     slot (FD_TABLE s) (unat fd) = Some \<lparr>f_inode = SocketInode i, f_offset = 0\<rparr> \<and> slot (SOCKETS s) i = Some x"

lemma slot_update_slot: "slot (update_slot i f t) j = (if j = i then map_option f (slot t j) else slot t j)"
  by (auto simp: slot_def update_slot_def)

lemma sock_fd_index: "sock_fd fd i x s \<Longrightarrow> fs_sock_index (unat fd) s = Some i"
  by (simp add: sock_fd_def fs_sock_index_def)

lemma udp_socket:
  assumes "fds_ok s" and "live (FD_TABLE s) < MAX_FDS"
  obtains fd i s' where "sys_socket 17 s = (fd, s')" "driver_of s' = driver_of s"
    "sock_fd fd i \<lparr>s_proto = PROTO_UDP, local_port = 0, peer = None, rx = []\<rparr> s'"
proof -
  let ?x = "\<lparr>s_proto = PROTO_UDP, local_port = 0, peer = None, rx = []\<rparr>"
  obtain t i where t: "place ?x (SOCKETS s) = (t, i)"
    by (cases "place ?x (SOCKETS s)")
  let ?f = "\<lparr>f_inode = SocketInode i, f_offset = 0\<rparr>"
  obtain u k where u: "install ?f (FD_TABLE s) = Some (u, k)"
    using assms install_None_iff [of "FD_TABLE s" ?f] by (auto simp: fds_ok_def)
  have "k < 64"
    using install_bound [OF u] assms(1) by (simp add: fds_ok_def MAX_FDS_def)
  then have "unat (word_of_nat k :: u64) = k"
    by (simp add: unat_of_nat)
  then have "sock_fd (word_of_nat k) i ?x (s\<lparr>SOCKETS := t, FD_TABLE := u\<rparr>)"
    using socks.alloc_new [of ?x "SOCKETS s" t i] fds.alloc_new [OF u] t by (simp add: sock_fd_def)
  moreover have "sys_socket 17 s = (word_of_nat k, s\<lparr>SOCKETS := t, FD_TABLE := u\<rparr>)"
    using t u by (simp add: sys_socket_def socket_new_def install_inode_def PROTO_UDP_def)
  ultimately show thesis
    by (intro that) (simp_all add: driver_of_def)
qed

lemma fd_table_net_more: "net.more s = net.more t \<Longrightarrow> FD_TABLE s = FD_TABLE t"
  by (cases s rule: kernel.cases_scheme; cases t rule: kernel.cases_scheme) simp

text \<open>The socket after the arrival of a datagram for its port.\<close>

lemma sock_fd_delivered:
  assumes "sock_fd fd i x s" and "SOCKETS s' = map (\<lambda>sl. if is_bound port sl then map_option g sl else sl) (SOCKETS s)"
    and "net.more s' = net.more s" and "is_bound port (Some x)" and "g x = y"
  shows "sock_fd fd i y s'"
proof -
  have "i < length (SOCKETS s)" "SOCKETS s ! i = Some x"
    using assms(1) slot_SomeD [of "SOCKETS s" i x] by (simp_all add: sock_fd_def)
  then have "slot (SOCKETS s') i = Some y"
    using assms(2,4,5) by (simp add: slot_def)
  then show ?thesis
    using assms(1) fd_table_net_more [OF assms(3)] by (simp add: sock_fd_def)
qed

lemma take_load_bytes: "n \<le> k \<Longrightarrow> take n (load_bytes a k m) = load_bytes a n m"
  by (induction a k m arbitrary: n rule: load_bytes.induct) (auto simp: take_Cons split: nat.splits)

lemma sys_bind_socket:
  assumes "sock_fd fd i x s"
  obtains s' where "sys_bind fd port s = (0, s')" "driver_of s' = driver_of s" "sock_fd fd i (x\<lparr>local_port := ucast port\<rparr>) s'"
  by (rule that [of "s\<lparr>SOCKETS := update_slot i (\<lambda>x. x\<lparr>local_port := ucast port\<rparr>) (SOCKETS s)\<rparr>"])
    (use assms sock_fd_index [OF assms] in \<open>simp_all add: sys_bind_def sock_bind_def sock_fd_def slot_update_slot\<close>)

lemma sys_connect_socket:
  assumes "sock_fd fd i x s"
  obtains s' where "sys_connect fd ip port s = (0, s')" "driver_of s' = driver_of s"
    "sock_fd fd i (x\<lparr>peer := Some (ip_of_word ip, ucast port)\<rparr>) s'"
  by (rule that [of "s\<lparr>SOCKETS := update_slot i (\<lambda>x. x\<lparr>peer := Some (ip_of_word ip, ucast port)\<rparr>) (SOCKETS s)\<rparr>"])
    (use assms sock_fd_index [OF assms] in \<open>simp_all add: sys_connect_def sock_connect_def sock_fd_def slot_update_slot\<close>)

lemma sys_write_socket:
  assumes "sock_fd fd i x s" and "s_proto x = PROTO_UDP" and "peer x = Some (ip, port)" and "drv_ok s" and "NIC s \<noteq> None"
    and "udp_send (local_port x) ip port (load_bytes buf (unat (min len 4096)) (ram s)) s = e1000_send f s"
  shows "\<exists>s'. sys_write fd buf len s = Some (min len 4096, s') \<and> driver_of s' = driver_of (after_send f s)"
proof -
  let ?data = "load_bytes buf (unat (min len 4096)) (ram s)"
  have len: "length ?data = unat (min len 4096)" "length ?data \<le> 4096"
    using unat_min_4096(1) [of len] by simp_all
  have "udp_send (local_port x) ip port ?data s = Some (True, after_send f s)"
    using assms(4-6) e1000_send_after [of s f] by simp
  moreover have "checked_add 0 (word_of_nat (length ?data)) = Some (word_of_nat (length ?data) :: u64)"
    using offset_add [of 0 "length ?data"] len(2) by simp
  ultimately show ?thesis
    using assms(1-3) len(1) by (simp add: sys_write_def fs_write_def sock_fd_def sendto_def driver_of_def)
qed

lemma sys_read_socket:
  assumes "sock_fd fd i x s" and "rx x = (src, sport, data) # q"
  shows "\<exists>v s'. sys_read fd buf len s = Some (v, s') \<and> unat v = min (unat (min len 4096)) (length data) \<and>
    load_bytes buf (unat v) (ram s') = take (unat v) data \<and> (\<forall>a. a \<notin> addrs buf (unat v) \<longrightarrow> ram s' a = ram s a)"
proof -
  let ?n = "unat (min len 4096)"
  let ?bs = "take (min ?n (length data)) data"
  have len: "length ?bs \<le> 4096" "length ?bs = min ?n (length data)"
    using unat_min_4096(1) [of len] by simp_all
  then have v: "unat (word_of_nat (length ?bs) :: u64) = length ?bs"
    by (simp only: unat_of_nat) simp
  have "checked_add 0 (word_of_nat (length ?bs)) = Some (word_of_nat (length ?bs) :: u64)"
    using offset_add [of 0 "length ?bs"] len(1) by simp
  then obtain t where "fs_read (unat fd) ?n s = Some (Inr ?bs, t)" "ram t = ram s"
    using assms by (simp add: fs_read_def sock_fd_def recvfrom_def)
  then have "sys_read fd buf len s = Some (word_of_nat (length ?bs), t\<lparr>ram := store_bytes buf ?bs (ram s)\<rparr>)"
    by (simp add: sys_read_def)
  moreover have "load_bytes buf (length ?bs) (store_bytes buf ?bs (ram s)) = ?bs"
    using len(1) by (intro load_store) simp
  moreover have "?bs = take (length ?bs) data"
    by simp
  ultimately show ?thesis
    using v len(2) store_bytes_other [of _ buf ?bs "ram s"] by (intro exI conjI) (simp_all only: kernel.simps e1000.simps, simp_all)
qed

end
