(* ===== verification/User_Programs.thy ===== *)
theory User_Programs
  imports Trap_Properties
begin

unbundle bit_operations_syntax

text \<open>
  The embedded user programs. The generators \<open>tools/gen_hello_elf.py\<close> and \<open>tools/gen_vfs_elf.py\<close>
  are translated byte by byte: hand-assembled machine code, the text behind it, and the ELF
  headers around both. \<open>struct.pack\<close> with format \<open><H\<close>, \<open><I\<close> and \<open><Q\<close> is \<open>pack_H\<close>, \<open>pack_I\<close> and
  \<open>pack_Q\<close>; all values packed are constants within their range. \<open>initrd_entries\<close> is what
  \<open>tools/make_initrd.py\<close> puts into the archive. \<open>user_insn\<close> is the meaning, by the architecture
  manual, of the instructions these programs consist of, \<open>user_exec\<close> their execution in ring 3
  until the kernel resumes, and \<open>run_embedded\<close> the part of \<open>kernel_main\<close> that runs both programs.
\<close>

section \<open>The generators\<close>

definition pack_H :: "nat \<Rightarrow> byte list" where "pack_H v = rev (be_bytes 2 v)"
definition pack_I :: "nat \<Rightarrow> byte list" where "pack_I v = rev (be_bytes 4 v)"
definition pack_Q :: "nat \<Rightarrow> byte list" where "pack_Q v = rev (be_bytes 8 v)"

definition mov_rax_imm32 :: "nat \<Rightarrow> byte list" where "mov_rax_imm32 v = [0x48, 0xc7, 0xc0] @ pack_I v"
definition mov_rdi_imm32 :: "nat \<Rightarrow> byte list" where "mov_rdi_imm32 v = [0x48, 0xc7, 0xc7] @ pack_I v"
definition mov_rdx_imm32 :: "nat \<Rightarrow> byte list" where "mov_rdx_imm32 v = [0x48, 0xc7, 0xc2] @ pack_I v"
definition mov_rsi_imm32 :: "nat \<Rightarrow> byte list" where "mov_rsi_imm32 v = [0x48, 0xc7, 0xc6] @ pack_I v"
definition mov_rsi_imm64 :: "nat \<Rightarrow> byte list" where "mov_rsi_imm64 v = [0x48, 0xbe] @ pack_Q v"
definition MOV_RDI_RAX :: "byte list" where "MOV_RDI_RAX = [0x48, 0x89, 0xc7]"
definition INT80 :: "byte list" where "INT80 = [0xcd, 0x80]"

definition BASE :: nat where "BASE = 0x400000"
definition Ehsize :: nat where "Ehsize = 64"
definition Phentsize :: nat where "Phentsize = 56"

definition elf_ident :: "byte list" where
  "elf_ident = [0x7f, 0x45, 0x4c, 0x46] @ [2, 1, 1, 0] @ replicate 8 0"

subsection \<open>\<open>gen_hello_elf.py\<close>\<close>

definition hello_msg :: "byte list" where "hello_msg = str ''Hello from user ring3!'' @ [10]"

definition hello_code_len :: nat where "hello_code_len = 7 + 7 + 10 + 7 + 2 + 7 + 7 + 2"

definition hello_msg_addr :: nat where "hello_msg_addr = BASE + hello_code_len"

definition hello_code :: "byte list" where
  "hello_code =
     mov_rax_imm32 1 @ mov_rdi_imm32 1 @ mov_rsi_imm64 hello_msg_addr @ mov_rdx_imm32 (length hello_msg) @ INT80
     @ mov_rax_imm32 2 @ mov_rdi_imm32 0 @ INT80"

definition hello_payload :: "byte list" where "hello_payload = hello_code @ hello_msg"

definition hello_ehdr :: "byte list" where
  "hello_ehdr =
     elf_ident @ pack_H 2 @ pack_H 0x3e @ pack_I 1 @ pack_Q BASE @ pack_Q Ehsize @ pack_Q 0 @ pack_I 0
     @ pack_H Ehsize @ pack_H Phentsize @ pack_H 1 @ pack_H 64 @ pack_H 0 @ pack_H 0"

definition hello_phdr :: "byte list" where
  "hello_phdr =
     pack_I 1 @ pack_I 7 @ pack_Q (Ehsize + Phentsize) @ pack_Q BASE @ pack_Q BASE
     @ pack_Q (length hello_payload) @ pack_Q (length hello_payload) @ pack_Q 0x1000"

definition hello_elf :: "byte list" where "hello_elf = hello_ehdr @ hello_phdr @ hello_payload"

subsection \<open>\<open>gen_vfs_elf.py\<close>\<close>

definition vfs_path :: "byte list" where "vfs_path = str ''/dev/console'' @ [0]"

definition vfs_msg :: "byte list" where "vfs_msg = str ''Hello via VFS /dev/console!'' @ [10]"

definition vfs_code_len :: nat where
  "vfs_code_len = (7 + 7 + 7 + 2) + (3 + 7 + 10 + 7 + 2) + (7 + 7 + 2)"

definition vfs_path_addr :: nat where "vfs_path_addr = BASE + vfs_code_len"

definition vfs_msg_addr :: nat where "vfs_msg_addr = vfs_path_addr + length vfs_path"

definition vfs_code :: "byte list" where
  "vfs_code =
     (mov_rax_imm32 3 @ mov_rdi_imm32 vfs_path_addr @ mov_rsi_imm32 0 @ INT80)
     @ (MOV_RDI_RAX @ mov_rax_imm32 1 @ mov_rsi_imm64 vfs_msg_addr @ mov_rdx_imm32 (length vfs_msg) @ INT80)
     @ (mov_rax_imm32 2 @ mov_rdi_imm32 0 @ INT80)"

definition vfs_payload :: "byte list" where "vfs_payload = vfs_code @ vfs_path @ vfs_msg"

definition vfs_ehdr :: "byte list" where
  "vfs_ehdr =
     elf_ident @ pack_H 2 @ pack_H 0x3e @ pack_I 1 @ pack_Q BASE @ pack_Q Ehsize @ pack_Q 0 @ pack_I 0
     @ pack_H Ehsize @ pack_H Phentsize @ pack_H 1 @ pack_H 64 @ pack_H 0 @ pack_H 0"

definition vfs_phdr :: "byte list" where
  "vfs_phdr =
     (pack_I 1 @ pack_I 7 @ pack_Q (Ehsize + Phentsize) @ pack_Q BASE @ pack_Q BASE @ pack_Q (length vfs_payload))
     @ (pack_Q (length vfs_payload) @ pack_Q 0x1000)"

definition vfs_elf :: "byte list" where "vfs_elf = vfs_ehdr @ vfs_phdr @ vfs_payload"

subsection \<open>\<open>make_initrd.py\<close>\<close>

text \<open>The files are added in the order of their sorted names, behind the directory; the archive holds the name
  of a directory with a slash at the end.\<close>

definition initrd_entries :: "entry list" where
  "initrd_entries =
     [\<lparr>e_path = str ''etc/'', e_data = [], is_dir = True\<rparr>,
      \<lparr>e_path = str ''about.txt'', e_data = str ''initrd: a real ustar archive parsed into the VFS.'' @ [10], is_dir = False\<rparr>,
      \<lparr>e_path = str ''etc/motd'', e_data = str ''nested directory entry to prove path walking works.'' @ [10], is_dir = False\<rparr>,
      \<lparr>e_path = str ''motd.txt'', e_data = str ''Welcome to SimpleLinux (Phase 6 VFS)!'' @ [10], is_dir = False\<rparr>]"

section \<open>Execution in ring 3\<close>

text \<open>The instructions the programs consist of, and their encodings; bytes that are none of them have no meaning
  here. An immediate of 32 bits is extended with its sign.\<close>

datatype insn = MovRax u64 | MovRdi u64 | MovRsi u64 | MovRdx u64 | MovRdiRax | Int80

definition imm32 :: "byte list \<Rightarrow> u64" where
  "imm32 bs = scast (word_of_nat (le_val (take 4 bs)) :: u32)"

definition imm64 :: "byte list \<Rightarrow> u64" where
  "imm64 bs = word_of_nat (le_val (take 8 bs))"

text \<open>The instruction at the start of ten bytes, and its length.\<close>

definition decode :: "byte list \<Rightarrow> (insn \<times> u64) option" where
  "decode bs =
     (let op = take 3 bs in
      if op = [0x48, 0xc7, 0xc0] then Some (MovRax (imm32 (drop 3 bs)), 7)
      else if op = [0x48, 0xc7, 0xc7] then Some (MovRdi (imm32 (drop 3 bs)), 7)
      else if op = [0x48, 0xc7, 0xc6] then Some (MovRsi (imm32 (drop 3 bs)), 7)
      else if op = [0x48, 0xc7, 0xc2] then Some (MovRdx (imm32 (drop 3 bs)), 7)
      else if op = [0x48, 0x89, 0xc7] then Some (MovRdiRax, 3)
      else if take 2 bs = [0x48, 0xbe] then Some (MovRsi (imm64 (drop 2 bs)), 10)
      else if take 2 bs = [0xcd, 0x80] then Some (Int80, 2)
      else None)"

primrec exec_insn ::
  "u64 \<Rightarrow> u64 \<Rightarrow> u64 \<Rightarrow> syscall_frame \<Rightarrow> insn \<Rightarrow> ('d, 'a) mach_scheme \<Rightarrow> (bool \<times> ('d, 'a) mach_scheme) option" where
  "exec_insn handler kernel_cs stub_ret scratch (MovRax v) m = Some (True, m\<lparr>gpr := (gpr m)\<lparr>f_rax := v\<rparr>\<rparr>)"
| "exec_insn handler kernel_cs stub_ret scratch (MovRdi v) m = Some (True, m\<lparr>gpr := (gpr m)\<lparr>f_rdi := v\<rparr>\<rparr>)"
| "exec_insn handler kernel_cs stub_ret scratch (MovRsi v) m = Some (True, m\<lparr>gpr := (gpr m)\<lparr>f_rsi := v\<rparr>\<rparr>)"
| "exec_insn handler kernel_cs stub_ret scratch (MovRdx v) m = Some (True, m\<lparr>gpr := (gpr m)\<lparr>f_rdx := v\<rparr>\<rparr>)"
| "exec_insn handler kernel_cs stub_ret scratch MovRdiRax m = Some (True, m\<lparr>gpr := (gpr m)\<lparr>f_rdi := f_rax (gpr m)\<rparr>\<rparr>)"
| "exec_insn handler kernel_cs stub_ret scratch Int80 m = int80 handler kernel_cs stub_ret scratch m"

text \<open>One instruction: the state behind it and whether the processor is still in ring 3.\<close>

definition user_insn ::
  "u64 \<Rightarrow> u64 \<Rightarrow> u64 \<Rightarrow> syscall_frame \<Rightarrow> ('d, 'a) mach_scheme \<Rightarrow> (bool \<times> ('d, 'a) mach_scheme) option" where
  "user_insn handler kernel_cs stub_ret scratch m = do {
     (i, n) \<leftarrow> decode (load_bytes (m_rip m) 10 (ram m));
     exec_insn handler kernel_cs stub_ret scratch i (m\<lparr>m_rip := m_rip m + n\<rparr>)
   }"

partial_function (option) user_exec ::
  "u64 \<Rightarrow> u64 \<Rightarrow> u64 \<Rightarrow> syscall_frame \<Rightarrow> ('d, 'a) mach_scheme \<Rightarrow> ('d, 'a) mach_scheme option" where
  "user_exec handler kernel_cs stub_ret scratch m =
     Option.bind (user_insn handler kernel_cs stub_ret scratch m) (\<lambda>x.
       if fst x then user_exec handler kernel_cs stub_ret scratch (snd x) else Some (snd x))"

text \<open>The two runs of \<open>kernel_main\<close>; \<open>after1\<close> and \<open>after2\<close> are the addresses behind the calls of
  \<open>enter_user_asm\<close>.\<close>

definition run_embedded ::
  "map_to_fn \<Rightarrow> u64 \<Rightarrow> u64 \<Rightarrow> u64 \<Rightarrow> u16 \<Rightarrow> u16 \<Rightarrow> (('d, 'a) mach_scheme \<Rightarrow> ('d, 'a) mach_scheme option) \<Rightarrow>
     byte list \<Rightarrow> byte list \<Rightarrow> ('d, 'a) mach_scheme \<Rightarrow> ('d, 'a) mach_scheme option" where
  "run_embedded map_to var after1 after2 user_cs user_ss user USER_ELF VFS_ELF m = do {
     let m = println ''[main] Phase 5: running hello.elf in ring3'' [] m;
     m \<leftarrow> run_user map_to var after1 user_cs user_ss user USER_ELF m;
     let m = println ''[main] Phase 6: running vfs.elf (open + write /dev/console) in ring3'' [] m;
     run_user map_to var after2 user_cs user_ss user VFS_ELF m
   }"

section \<open>The files\<close>

lemma be_bytes_numeral: "be_bytes (numeral k) v = be_bytes (pred_numeral k) (v div 256) @ [word_of_nat v]"
  by (simp only: numeral_eq_Suc [of k] be_bytes.simps)

lemma hello_code_length: "length hello_code = hello_code_len"
  by (simp add: hello_code_def hello_code_len_def mov_rax_imm32_def mov_rdi_imm32_def mov_rdx_imm32_def mov_rsi_imm64_def
      INT80_def pack_I_def pack_Q_def)

lemma vfs_code_length: "length vfs_code = vfs_code_len"
  by (simp add: vfs_code_def vfs_code_len_def mov_rax_imm32_def mov_rdi_imm32_def mov_rdx_imm32_def mov_rsi_imm64_def
      mov_rsi_imm32_def MOV_RDI_RAX_def INT80_def pack_I_def pack_Q_def)

lemma payload_lengths: "length hello_payload = 72" "length vfs_payload = 109"
  unfolding hello_payload_def vfs_payload_def length_append hello_code_length vfs_code_length
  by (simp_all add: hello_msg_def hello_code_len_def vfs_code_len_def vfs_path_def vfs_msg_def)

text \<open>Both files have the same headers up to the size of the segment.\<close>

definition elf_headers :: "byte \<Rightarrow> byte list" where
  "elf_headers n =
     [0x7f, 0x45, 0x4c, 0x46, 2, 1, 1, 0, 0, 0, 0, 0, 0, 0, 0, 0, 2, 0, 0x3e, 0, 1, 0, 0, 0] @ [0, 0, 0x40, 0, 0, 0, 0, 0]
     @ [64, 0, 0, 0, 0, 0, 0, 0] @ [0, 0, 0, 0, 0, 0, 0, 0, 0, 0, 0, 0] @ [64, 0, 56, 0, 1, 0, 64, 0, 0, 0, 0, 0]
     @ [1, 0, 0, 0, 7, 0, 0, 0] @ [120, 0, 0, 0, 0, 0, 0, 0] @ [0, 0, 0x40, 0, 0, 0, 0, 0] @ [0, 0, 0x40, 0, 0, 0, 0, 0]
     @ [n, 0, 0, 0, 0, 0, 0, 0] @ [n, 0, 0, 0, 0, 0, 0, 0] @ [0, 0x10, 0, 0, 0, 0, 0, 0]"

lemma pack_values:
  "pack_H 0 = [0, 0]" "pack_H 1 = [1, 0]" "pack_H 2 = [2, 0]" "pack_H 0x3e = [0x3e, 0]" "pack_H 64 = [64, 0]" "pack_H 56 = [56, 0]"
  "pack_I 0 = [0, 0, 0, 0]" "pack_I 1 = [1, 0, 0, 0]" "pack_I 7 = [7, 0, 0, 0]"
  "pack_Q 0 = [0, 0, 0, 0, 0, 0, 0, 0]" "pack_Q 64 = [64, 0, 0, 0, 0, 0, 0, 0]" "pack_Q 120 = [120, 0, 0, 0, 0, 0, 0, 0]"
  "pack_Q 0x400000 = [0, 0, 0x40, 0, 0, 0, 0, 0]" "pack_Q 0x1000 = [0, 0x10, 0, 0, 0, 0, 0, 0]"
  "pack_Q 72 = [72, 0, 0, 0, 0, 0, 0, 0]" "pack_Q 109 = [109, 0, 0, 0, 0, 0, 0, 0]"
  by (simp_all add: pack_H_def pack_I_def pack_Q_def be_bytes_numeral)

lemma replicate_numeral8: "replicate 8 x = [x, x, x, x, x, x, x, x]"
  by (simp add: numeral_eq_Suc)

lemma elf_files: "hello_elf = elf_headers 72 @ hello_payload" "vfs_elf = elf_headers 109 @ vfs_payload"
  by (simp_all add: hello_elf_def hello_ehdr_def hello_phdr_def vfs_elf_def vfs_ehdr_def vfs_phdr_def elf_headers_def
      elf_ident_def payload_lengths BASE_def Ehsize_def Phentsize_def pack_values replicate_numeral8 del: One_nat_def)

definition program_phdr :: "byte list \<Rightarrow> phdr" where
  "program_phdr payload = \<lparr>flags_dw = 7, ph_off = 120, vaddr = 0x400000, filesz = length payload, memsz = length payload\<rparr>"

lemma elf_header_fields:
  "take 4 (elf_headers n @ pl) = ELF_MAGIC" "(elf_headers n @ pl) ! 4 = 2" "u64_at (elf_headers n @ pl) 0x18 = Some 0x400000"
  "u64_at (elf_headers n @ pl) 0x20 = Some 64" "u16_at (elf_headers n @ pl) 0x36 = Some 56" "u16_at (elf_headers n @ pl) 0x38 = Some 1"
  "u32_at (elf_headers n @ pl) 64 = Some 1" "u32_at (elf_headers n @ pl) 68 = Some 7" "u64_at (elf_headers n @ pl) 72 = Some 120"
  "u64_at (elf_headers n @ pl) 80 = Some 0x400000" "u64_at (elf_headers n @ pl) 96 = Some (word_of_nat (unat n))"
  "u64_at (elf_headers n @ pl) 104 = Some (word_of_nat (unat n))" "length (elf_headers n) = 120"
  by (simp_all add: elf_headers_def ELF_MAGIC_def u64_at_def u32_at_def u16_at_def slice_def get_at_def le_val_def be_val_def)

lemma elf_file_segments:
  assumes "unat n = length pl"
  shows "segments (elf_headers n @ pl) 64 56 [0] = Some [program_phdr pl]"
proof -
  have "unat (word_of_nat (unat n) :: u64) = length pl"
    using unat_less [of n] assms by (simp add: unat_of_nat)
  then show ?thesis
    by (simp add: elf_header_fields PT_LOAD_def read_phdr_def program_phdr_def)
qed

end
