(* ===== verification/User_Run.thy ===== *)
theory User_Run
  imports User_Programs Composition
begin

unbundle bit_operations_syntax

text \<open>
  The embedded user programs at work: loading one of the generated files and entering ring 3
  puts the processor at the first byte of its code (\<open>program_starts\<close>), a system call on the
  console and the opening of a file change what they should and nothing else
  (\<open>console_write_call\<close>, \<open>open_call\<close>), and so both programs run to their end with the text they
  are to print (\<open>hello_runs\<close>, \<open>vfs_runs\<close>).
\<close>

section \<open>Entering a program\<close>

lemma only_memory_fields:
  fixes m t :: "('d, 'a) mach_scheme"
  assumes "only_memory m t"
  shows "serial t = serial m" "FD_TABLE t = FD_TABLE m" "MOUNTS t = MOUNTS m" "RSP0 t = RSP0 m" "m_rsp t = m_rsp m" "gpr t = gpr m"
    "trap_stack t = trap_stack m"
  using assms by (cases m; cases t; simp add: only_memory_def trap_stack_def)+

lemma println_mach [simp]: "gpr (println x a m) = gpr m" "m_rsp (println x a m) = m_rsp m" "RSP0 (println x a m) = RSP0 m"
  "ram (println x a m) = ram m" "trap_stack (println x a m) = trap_stack m" "frames_ok n (println x a m) = frames_ok n m"
  "serial (println x a m) = serial m @ [Print (x @ [CHR 0x0A]) a]" "m_rip (println x a m) = m_rip m" "READY (println x a m) = READY m"
  by (simp_all add: println_def print_def trap_stack_def frames_ok_def)

lemma program_starts:
  fixes m :: "('d, 'a) mach_scheme"
  assumes "mapper_ok map_to" and "frames_ok (5 + n) m" and "unat k = length pl" and "pl \<noteq> []"
    and "addrs (m_rsp m - 48) 48 \<inter> addrs 0x400000 (length pl) = {}"
  obtains m0 where "run_user map_to var ret_addr user_cs user_ss user (elf_headers k @ pl) m =
      map_option (println ''[syscall] back in ring0 from user mode'' []) (user m0)"
    "serial m0 = serial m @ [Print (''[syscall] entering ring3: entry={:#x} stack={:#x}'' @ [CHR 0x0A]) [ANum 0x400000, ANum 0x500000]]"
    "FD_TABLE m0 = FD_TABLE m" "MOUNTS m0 = MOUNTS m" "RSP0 m0 = RSP0 m" "USER_KERNEL_RSP m0 = m_rsp m - 8" "m_rip m0 = 0x400000"
    "load_bytes 0x400000 (length pl) (ram m0) = pl" "load64 (m_rsp m - 8) (ram m0) = ret_addr" "frames_ok n m0"
proof -
  let ?elf = "elf_headers k @ pl" and ?ph = "program_phdr pl"
  have len: "length pl < 256"
    using unat_less [of k] assms(3) by simp
  have "0 < length pl"
    using assms(4) by simp
  then have "(4198399 + length pl) div 4096 = 1025"
    using len by linarith
  then have ph: "\<forall>ph\<in>set [?ph]. seg_ok ?elf ph" "disjoint_segments [?ph]" "64 \<le> length ?elf"
    and "frames_ok ((\<Sum>ph\<leftarrow>[?ph]. length (seg_pages ph)) + (4 + n)) m"
    using len assms(2) by (auto simp: seg_ok_def seg_pages_def program_phdr_def elf_header_fields disjoint_segments_def)
  moreover have segs: "segments ?elf (unat (64 :: u64)) (unat (56 :: u16)) [0..<unat (1 :: u16)] = Some [?ph]"
    using elf_file_segments [OF assms(3)] by simp
  ultimately obtain t e where t: "u64_at ?elf 0x18 = Some e" "frames_ok n t" "\<forall>ph\<in>set [?ph]. seg_loaded ?elf ph t"
    "elf_load map_to ?elf m = Some (Inr \<lparr>img_entry = e, stack_top = 0x500000\<rparr>, t)" "only_memory m t"
    using elf_loads [OF assms(1) _ ph(3) elf_header_fields(1,2,4-6) segs ph(1,2), of n m] unfolding extends_def by blast
  define a where "a = (println ''[syscall] entering ring3: entry={:#x} stack={:#x}'' [ANum 0x400000, ANum 0x500000] t)
    \<lparr>gpr := (gpr t)\<lparr>f_rdi := 0x400000, f_rsi := 0x500000, f_rdx := ucast user_cs, f_rcx := ucast user_ss\<rparr>\<rparr>"
  have a: "m_rsp a = m_rsp m" "ram a = ram t" "f_rdi (gpr a) = 0x400000" "FD_TABLE a = FD_TABLE m" "MOUNTS a = MOUNTS m"
    "RSP0 a = RSP0 m" "frames_ok n a"
    "serial a = serial m @ [Print (''[syscall] entering ring3: entry={:#x} stack={:#x}'' @ [CHR 0x0A]) [ANum 0x400000, ANum 0x500000]]"
    using only_memory_fields [OF t(5)] t(2) by (simp_all add: a_def frames_ok_def)
  obtain r where r: "enter_user_asm var (push64 ret_addr a) = a\<lparr>ram := r, gpr := (gpr a)\<lparr>f_r11 := var\<rparr>, USER_KERNEL_RSP := m_rsp a - 8,
      m_rip := f_rdi (gpr a), m_cs := f_rdx (gpr a), m_rflags := 0x202, m_rsp := f_rsi (gpr a), m_ss := f_rcx (gpr a)\<rparr>"
    "load64 (m_rsp a - 8) r = ret_addr" "\<forall>x. x \<notin> addrs (m_rsp a - 48) 48 \<longrightarrow> r x = ram a x"
    by (rule enter_user_state)
  have "load_bytes 0x400000 (length pl) r = load_bytes 0x400000 (length pl) (ram t)"
    using r(3) assms(5) a by (intro load_bytes_cong) auto
  also have "\<dots> = pl"
    using t(3) by (simp add: seg_loaded_def segment_image_def program_phdr_def elf_header_fields)
  finally have code: "load_bytes 0x400000 (length pl) r = pl" .
  show thesis
  proof (rule that [of "enter_user_asm var (push64 ret_addr a)"])
    show "run_user map_to var ret_addr user_cs user_ss user ?elf m =
        map_option (println ''[syscall] back in ring0 from user mode'' []) (user (enter_user_asm var (push64 ret_addr a)))"
      using t(1,4) by (simp add: elf_header_fields run_user_def a_def Let_def)
        (auto split: Option.bind_split)
  qed (use code r(2) a in \<open>simp_all add: r(1) frames_ok_def\<close>)
qed

section \<open>System calls of the programs\<close>

lemma resolve_cong: "MOUNTS s = MOUNTS t \<Longrightarrow> resolve path s = resolve path t"
  by (simp add: resolve_def longest_mount_def)


text \<open>What \<open>trapped\<close> leaves of the kernel's state.\<close>

lemma trapped_fields:
  fixes m :: "('d, 'a) mach_scheme"
  obtains r where "trapped handler kernel_cs stub_ret m = m\<lparr>m_rsp := (RSP0 m AND NOT 15) - 168, ram := r, m_cs := kernel_cs,
      m_ss := 0, m_rip := handler, m_rflags := m_rflags m AND NOT 0x34300,
      gpr := (gpr m)\<lparr>f_rdi := (RSP0 m AND NOT 15) - 168 + 8\<rparr>\<rparr>"
    "\<And>a. a \<notin> trap_stack m \<Longrightarrow> r a = ram m a"
  by (rule entry_frame [where m = m and handler = handler and kernel_cs = kernel_cs and after_call = stub_ret]) (rule that)

text \<open>A system call that resumes the program having changed only the console and the descriptor table.\<close>

lemma quiet_call:
  fixes m :: "('d, 'a) mach_scheme"
  assumes "\<And>t. FD_TABLE t = FD_TABLE m \<Longrightarrow> MOUNTS t = MOUNTS m \<Longrightarrow> (\<forall>a. a \<notin> trap_stack m \<longrightarrow> ram t a = ram m a) \<Longrightarrow>
      syscall_dispatch (gpr m) (t :: ('d, 'a) mach_scheme) =
        Some (Resume ((gpr m)\<lparr>f_rax := v\<rparr>), t\<lparr>serial := serial t @ es, FD_TABLE := fds\<rparr>)"
  obtains r where "int80 handler kernel_cs stub_ret scratch m =
      Some (True, m\<lparr>serial := serial m @ es, FD_TABLE := fds, ram := r, gpr := (gpr m)\<lparr>f_rax := v\<rparr>\<rparr>)"
    "\<forall>a. a \<notin> trap_stack m \<longrightarrow> r a = ram m a"
proof -
  let ?t = "trapped handler kernel_cs stub_ret m"
  obtain q where t: "?t = m\<lparr>m_rsp := (RSP0 m AND NOT 15) - 168, ram := q, m_cs := kernel_cs,
      m_ss := 0, m_rip := handler, m_rflags := m_rflags m AND NOT 0x34300,
      gpr := (gpr m)\<lparr>f_rdi := (RSP0 m AND NOT 15) - 168 + 8\<rparr>\<rparr>"
    and q: "\<And>a. a \<notin> trap_stack m \<Longrightarrow> q a = ram m a"
    by (rule trapped_fields [of handler kernel_cs stub_ret m]) (rule that)
  let ?u = "?t\<lparr>serial := serial ?t @ es, FD_TABLE := fds\<rparr>"
  have u: "syscall_dispatch (gpr m) ?t = Some (Resume ((gpr m)\<lparr>f_rax := v\<rparr>), ?u)"
    by (rule assms) (use q in \<open>simp_all add: t\<close>)
  have more: "kernel.more ?u = kernel.more ?t" "\<forall>a\<in>trap_stack m. ram ?u a = ram ?t a"
    by simp_all
  obtain r where r: "int80 handler kernel_cs stub_ret scratch m = Some (True, ?u\<lparr>ram := r, gpr := (gpr m)\<lparr>f_rax := v\<rparr>,
      m_rip := m_rip m, m_cs := m_cs m, m_rflags := m_rflags m, m_rsp := m_rsp m, m_ss := m_ss m\<rparr>)"
    "\<forall>a. a \<notin> trap_stack m \<longrightarrow> r a = ram ?u a"
    by (rule int80_resume [OF u more, of scratch]) (simp, rule that)
  show thesis
  proof (rule that [of r])
    show "int80 handler kernel_cs stub_ret scratch m =
      Some (True, m\<lparr>serial := serial m @ es, FD_TABLE := fds, ram := r, gpr := (gpr m)\<lparr>f_rax := v\<rparr>\<rparr>)"
      unfolding r(1) t by (cases m) simp
    show "\<forall>a. a \<notin> trap_stack m \<longrightarrow> r a = ram m a"
      using r(2) q by (simp add: t)
  qed
qed

lemma console_write_call:
  fixes m :: "('d, 'a) mach_scheme"
  assumes "f_rax (gpr m) = 1" and "slot (FD_TABLE m) (unat (f_rdi (gpr m))) = Some f" and "f_inode f = Console"
    and "unat (f_offset f) + 4096 < 2 ^ 64" and "f_rdx (gpr m) \<le> 4096"
    and "load_bytes (f_rsi (gpr m)) (unat (f_rdx (gpr m))) (ram m) = bs"
    and "trap_stack m \<inter> addrs (f_rsi (gpr m)) (unat (f_rdx (gpr m))) = {}"
  obtains r where "int80 handler kernel_cs stub_ret scratch m =
      Some (True, m\<lparr>serial := serial m @ map Raw bs,
        FD_TABLE := (FD_TABLE m)[unat (f_rdi (gpr m)) := Some (f\<lparr>f_offset := f_offset f + f_rdx (gpr m)\<rparr>)], ram := r,
        gpr := (gpr m)\<lparr>f_rax := f_rdx (gpr m)\<rparr>\<rparr>)"
    "\<forall>a. a \<notin> trap_stack m \<longrightarrow> r a = ram m a"
proof (rule quiet_call)
  let ?len = "f_rdx (gpr m)"
  fix t :: "('d, 'a) mach_scheme"
  assume t: "FD_TABLE t = FD_TABLE m" "MOUNTS t = MOUNTS m" "\<forall>a. a \<notin> trap_stack m \<longrightarrow> ram t a = ram m a"
  have len: "min ?len 4096 = ?len" "unat ?len \<le> 4096"
    using assms(5) by (simp_all add: min_def word_le_nat_alt)
  have "load_bytes (f_rsi (gpr m)) (unat ?len) (ram t) = load_bytes (f_rsi (gpr m)) (unat ?len) (ram m)"
    using t(3) assms(7) by (intro load_bytes_cong) auto
  then have bs: "load_bytes (f_rsi (gpr m)) (unat ?len) (ram t) = bs" "length bs = unat ?len"
    using assms(6) by auto
  have "checked_add (f_offset f) (word_of_nat (unat ?len)) = Some (f_offset f + word_of_nat (unat ?len))"
    by (rule offset_add [OF assms(4) len(2)])
  then show "syscall_dispatch (gpr m) t = Some (Resume ((gpr m)\<lparr>f_rax := ?len\<rparr>), t\<lparr>serial := serial t @ map Raw bs,
      FD_TABLE := (FD_TABLE m)[unat (f_rdi (gpr m)) := Some (f\<lparr>f_offset := f_offset f + ?len\<rparr>)]\<rparr>)"
    using assms(1-3) bs len(1)
    by (simp add: syscall_dispatch_def sys_write_def fs_write_def t(1) write_bytes_eq ret_def)
qed

text \<open>A terminated string in memory, as \<open>read_user_cstr\<close> finds it.\<close>

lemma cstr_from_load:
  "load_bytes p (Suc (length bs)) m = bs @ [0] \<Longrightarrow> 0 \<notin> set bs \<Longrightarrow> length bs < n \<Longrightarrow> cstr_from n p m = Some bs"
proof (induction bs arbitrary: p n)
  case Nil
  then show ?case
    by (cases n) simp_all
next
  case (Cons b bs)
  then show ?case
    by (cases n) auto
qed

lemma open_call:
  fixes m :: "('d, 'a) mach_scheme"
  assumes "f_rax (gpr m) = 3" and "load_bytes (f_rdi (gpr m)) (Suc (length path)) (ram m) = path @ [0]"
    and "0 \<notin> set path" and "length path < 256" and "\<forall>b\<in>set path. b < 0x80"
    and "trap_stack m \<inter> addrs (f_rdi (gpr m)) (Suc (length path)) = {}"
    and "resolve path m = Inr i" and "install \<lparr>f_inode = i, f_offset = 0\<rparr> (FD_TABLE m) = Some (fds, fd)"
  obtains r where "int80 handler kernel_cs stub_ret scratch m =
      Some (True, m\<lparr>serial := serial m @ [], FD_TABLE := fds, ram := r, gpr := (gpr m)\<lparr>f_rax := word_of_nat fd\<rparr>\<rparr>)"
    "\<forall>a. a \<notin> trap_stack m \<longrightarrow> r a = ram m a"
proof (rule quiet_call)
  fix t :: "('d, 'a) mach_scheme"
  assume t: "FD_TABLE t = FD_TABLE m" "MOUNTS t = MOUNTS m" "\<forall>a. a \<notin> trap_stack m \<longrightarrow> ram t a = ram m a"
  have "load_bytes (f_rdi (gpr m)) (Suc (length path)) (ram t) = load_bytes (f_rdi (gpr m)) (Suc (length path)) (ram m)"
    using t(3) assms(6) by (intro load_bytes_cong) auto
  then have "cstr_from 256 (f_rdi (gpr m)) (ram t) = Some path"
    using assms(2-4) by (intro cstr_from_load) simp_all
  then have "read_user_cstr (f_rdi (gpr m)) t = Some path"
    using valid_utf8_ascii [OF assms(5)] by (simp add: read_user_cstr_def from_utf8_def)
  moreover have "resolve path t = resolve path m"
    by (rule resolve_cong [OF t(2)])
  ultimately show "syscall_dispatch (gpr m) t =
      Some (Resume ((gpr m)\<lparr>f_rax := word_of_nat fd\<rparr>), t\<lparr>serial := serial t @ [], FD_TABLE := fds\<rparr>)"
    using assms(1,7,8) by (simp add: syscall_dispatch_def sys_open_def fs_open_def t(1) ret_def)
qed

section \<open>Straight-line code\<close>

fun effects :: "insn list \<Rightarrow> syscall_frame \<Rightarrow> syscall_frame" where
  "effects [] g = g"
| "effects (MovRax v # js) g = effects js (g\<lparr>f_rax := v\<rparr>)"
| "effects (MovRdi v # js) g = effects js (g\<lparr>f_rdi := v\<rparr>)"
| "effects (MovRsi v # js) g = effects js (g\<lparr>f_rsi := v\<rparr>)"
| "effects (MovRdx v # js) g = effects js (g\<lparr>f_rdx := v\<rparr>)"
| "effects (MovRdiRax # js) g = effects js (g\<lparr>f_rdi := f_rax g\<rparr>)"
| "effects (Int80 # js) g = effects js g"

text \<open>The bytes from one address up to another are these instructions.\<close>

fun code_at :: "ram \<Rightarrow> u64 \<Rightarrow> insn list \<Rightarrow> u64 \<Rightarrow> bool" where
  "code_at r ip [] stop \<longleftrightarrow> ip = stop"
| "code_at r ip (i # js) stop \<longleftrightarrow> (\<exists>n. decode (load_bytes ip 10 r) = Some (i, n) \<and> code_at r (ip + n) js stop)"

lemma exec_movs:
  assumes "code_at (ram m) ip js stop" and "Int80 \<notin> set js"
  shows "user_exec handler kernel_cs stub_ret scratch (m\<lparr>m_rip := ip, gpr := g\<rparr>) =
    user_exec handler kernel_cs stub_ret scratch (m\<lparr>m_rip := stop, gpr := effects js g\<rparr>)"
  using assms
proof (induction js arbitrary: ip g)
  case (Cons i js)
  then obtain n where n: "decode (load_bytes ip 10 (ram m)) = Some (i, n)" "code_at (ram m) (ip + n) js stop" "i \<noteq> Int80"
    "Int80 \<notin> set js"
    by auto
  have "user_exec handler kernel_cs stub_ret scratch (m\<lparr>m_rip := ip, gpr := g\<rparr>) =
      user_exec handler kernel_cs stub_ret scratch (m\<lparr>m_rip := ip + n, gpr := effects [i] g\<rparr>)"
    using n(1,3) by (subst user_exec.simps) (cases i; simp add: user_insn_def)
  also have "\<dots> = user_exec handler kernel_cs stub_ret scratch (m\<lparr>m_rip := stop, gpr := effects js (effects [i] g)\<rparr>)"
    by (rule Cons.IH [OF n(2,4)])
  also have "effects js (effects [i] g) = effects (i # js) g"
    by (cases i) simp_all
  finally show ?case .
qed simp

lemma exec_movs_here:
  assumes "code_at (ram m) (m_rip m) js stop" and "Int80 \<notin> set js"
  shows "user_exec handler kernel_cs stub_ret scratch m =
    user_exec handler kernel_cs stub_ret scratch (m\<lparr>m_rip := stop, gpr := effects js (gpr m)\<rparr>)"
  using exec_movs [OF assms, of handler kernel_cs stub_ret scratch "gpr m"] by simp

lemma exec_call:
  assumes "code_at (ram m) (m_rip m) [Int80] stop"
  shows "int80 handler kernel_cs stub_ret scratch (m\<lparr>m_rip := stop\<rparr>) = Some (True, m') \<Longrightarrow>
      user_exec handler kernel_cs stub_ret scratch m = user_exec handler kernel_cs stub_ret scratch m'"
    and "int80 handler kernel_cs stub_ret scratch (m\<lparr>m_rip := stop\<rparr>) = Some (False, m') \<Longrightarrow>
      user_exec handler kernel_cs stub_ret scratch m = Some m'"
  using assms by (subst user_exec.simps, auto simp: user_insn_def)+

lemma load_bytes_part: "k + n \<le> len \<Longrightarrow> load_bytes (a + word_of_nat k) n r = take n (drop k (load_bytes a len r))"
proof (induction k arbitrary: a len)
  case 0
  then show ?case
    by (simp add: take_load_bytes)
next
  case (Suc k)
  then obtain l where l: "len = Suc l" "k + n \<le> l"
    by (cases len) auto
  have next_addr: "a + word_of_nat (Suc k) = (a + 1) + word_of_nat k"
    by (simp add: algebra_simps)
  show ?case
    unfolding next_addr Suc.IH [OF l(2), of "a + 1"] l(1) by simp
qed

text \<open>Code is found again wherever memory holds the same bytes.\<close>

lemma code_at_part:
  assumes "load_bytes a (length pl) r = pl" and "k + 10 \<le> length pl" and "decode (take 10 (drop k pl)) = Some (i, n)"
  shows "decode (load_bytes (a + word_of_nat k) 10 r) = Some (i, n)"
  using load_bytes_part [OF assms(2), of a r] assms(1,3) by simp

text \<open>The state in which the kernel goes on after a program has made its last system call, with what the program
  printed and the descriptor table it leaves.\<close>

definition exited :: "fmt_arg \<Rightarrow> sevent list \<Rightarrow> open_file option list \<Rightarrow> u64 \<Rightarrow> ('d, 'a) mach_scheme \<Rightarrow> ('d, 'a) mach_scheme \<Rightarrow> bool" where
  "exited code es fds ret_addr m m' \<longleftrightarrow>
     serial m' = serial m @ es @ [Print (''[kernel] user program exited (code={})'' @ [CHR 0x0A]) [code]] \<and> FD_TABLE m' = fds \<and>
     MOUNTS m' = MOUNTS m \<and> RSP0 m' = RSP0 m \<and> m_rip m' = ret_addr \<and> m_rsp m' = USER_KERNEL_RSP m + 8 \<and>
     (\<forall>n. frames_ok n m' = frames_ok n m)"

lemma exit_call:
  assumes "f_rax (gpr m) = 2" and "trap_stack m \<inter> addrs (USER_KERNEL_RSP m) 8 = {}"
  obtains m' where "int80 handler kernel_cs stub_ret scratch m = Some (False, m')"
    "exited (ASigned (sint (f_rdi (gpr m)))) [] (FD_TABLE m) (load64 (USER_KERNEL_RSP m) (ram m)) m m'"
proof -
  obtain r where r: "int80 handler kernel_cs stub_ret scratch m =
      Some (False, (println ''[kernel] user program exited (code={})'' [ASigned (sint (f_rdi (gpr m)))] m)\<lparr>ram := r, gpr := scratch,
        m_rip := load64 (USER_KERNEL_RSP m) r, m_rsp := USER_KERNEL_RSP m + 8, m_cs := kernel_cs, m_ss := 0,
        m_rflags := m_rflags m AND NOT 0x34300\<rparr>)"
    "\<forall>a. a \<notin> trap_stack m \<longrightarrow> r a = ram m a"
    using trap_exits [OF assms(1)] by blast
  have "load64 (USER_KERNEL_RSP m) r = load64 (USER_KERNEL_RSP m) (ram m)"
    using r(2) assms(2) by (intro load64_cong) auto
  then show thesis
    by (intro that [OF r(1)]) (simp add: exited_def frames_ok_def)
qed

lemma exited_after:
  "exited code [] fds ret_addr s m' \<Longrightarrow> serial s = serial m @ es \<Longrightarrow> MOUNTS s = MOUNTS m \<Longrightarrow> RSP0 s = RSP0 m \<Longrightarrow>
    USER_KERNEL_RSP s = USER_KERNEL_RSP m \<Longrightarrow> (\<And>n. frames_ok n s = frames_ok n m) \<Longrightarrow> exited code es fds ret_addr m m'"
  by (simp add: exited_def)

section \<open>\<open>hello.elf\<close>\<close>

lemma hello_bytes:
  "hello_payload =
     [0x48, 0xc7, 0xc0, 1, 0, 0, 0] @ [0x48, 0xc7, 0xc7, 1, 0, 0, 0] @ [0x48, 0xbe, 0x31, 0, 0x40, 0, 0, 0, 0, 0]
     @ [0x48, 0xc7, 0xc2, 23, 0, 0, 0] @ [0xcd, 0x80] @ [0x48, 0xc7, 0xc0, 2, 0, 0, 0] @ [0x48, 0xc7, 0xc7, 0, 0, 0, 0]
     @ [0xcd, 0x80] @ hello_msg"
  by (simp add: hello_payload_def hello_code_def mov_rax_imm32_def mov_rdi_imm32_def mov_rdx_imm32_def mov_rsi_imm64_def
      INT80_def hello_msg_addr_def hello_code_len_def BASE_def hello_msg_def pack_I_def pack_Q_def be_bytes_numeral)

lemma hello_decode:
  assumes "load_bytes 0x400000 72 r = hello_payload"
  shows "code_at r 0x400000 [MovRax 1, MovRdi 1, MovRsi 0x400031, MovRdx 23] 0x40001f" "code_at r 0x40001f [Int80] 0x400021"
    "code_at r 0x400021 [MovRax 2, MovRdi 0] 0x40002f" "code_at r 0x40002f [Int80] 0x400031"
    "load_bytes 0x400031 23 r = hello_msg"
proof -
  note at = code_at_part [of "0x400000" hello_payload r, unfolded payload_lengths, OF assms]
  note bytes = hello_bytes hello_msg_def str_def decode_def imm32_def imm64_def le_val_def be_val_def
  have d: "decode (take 10 (drop 0 hello_payload)) = Some (MovRax 1, 7)" "decode (take 10 (drop 7 hello_payload)) = Some (MovRdi 1, 7)"
    "decode (take 10 (drop 14 hello_payload)) = Some (MovRsi 0x400031, 10)" "decode (take 10 (drop 24 hello_payload)) = Some (MovRdx 23, 7)"
    "decode (take 10 (drop 31 hello_payload)) = Some (Int80, 2)" "decode (take 10 (drop 33 hello_payload)) = Some (MovRax 2, 7)"
    "decode (take 10 (drop 40 hello_payload)) = Some (MovRdi 0, 7)" "decode (take 10 (drop 47 hello_payload)) = Some (Int80, 2)"
    by (simp_all add: bytes)
  show "code_at r 0x400000 [MovRax 1, MovRdi 1, MovRsi 0x400031, MovRdx 23] 0x40001f"
    using at [OF _ d(1)] at [OF _ d(2)] at [OF _ d(3)] at [OF _ d(4)] by simp
  show "code_at r 0x40001f [Int80] 0x400021" "code_at r 0x40002f [Int80] 0x400031"
    using at [OF _ d(5)] at [OF _ d(8)] by simp_all
  show "code_at r 0x400021 [MovRax 2, MovRdi 0] 0x40002f"
    using at [OF _ d(6)] at [OF _ d(7)] by simp
  show "load_bytes 0x400031 23 r = hello_msg"
    using load_bytes_part [of 49 23 72 "0x400000" r] assms by (simp add: bytes)
qed

lemma hello_exec:
  fixes m :: "('d, 'a) mach_scheme"
  assumes "m_rip m = 0x400000" and "load_bytes 0x400000 72 (ram m) = hello_payload"
    and "slot (FD_TABLE m) 1 = Some f" and "f_inode f = Console" and "unat (f_offset f) + 4096 < 2 ^ 64"
    and "trap_stack m \<inter> addrs 0x400000 72 = {}" and "trap_stack m \<inter> addrs (USER_KERNEL_RSP m) 8 = {}"
    and "load64 (USER_KERNEL_RSP m) (ram m) = ret_addr"
  shows "\<exists>m'. user_exec handler kernel_cs stub_ret scratch m = Some m' \<and>
    exited (ASigned 0) (map Raw hello_msg) ((FD_TABLE m)[1 := Some (f\<lparr>f_offset := f_offset f + 23\<rparr>)]) ret_addr m m'"
proof -
  let ?exec = "user_exec handler kernel_cs stub_ret scratch"
  let ?g = "(gpr m)\<lparr>f_rax := 1, f_rdi := 1, f_rsi := 0x400031, f_rdx := 23\<rparr>"
  note code = hello_decode [OF assms(2)]
  let ?m1 = "m\<lparr>m_rip := 0x40001f, gpr := ?g\<rparr>" and ?c1 = "m\<lparr>gpr := ?g, m_rip := 0x400021\<rparr>"
  have "?exec m = ?exec ?m1"
    using exec_movs_here [of m _ "0x40001f" handler kernel_cs stub_ret scratch, OF code(1) [folded assms(1)]] by simp
  moreover have "trap_stack ?c1 \<inter> addrs 0x400031 23 = {}"
    using assms(6) addrs_sub [of 49 23 72 "0x400000"] by (auto simp: trap_stack_def)
  then obtain r where r: "int80 handler kernel_cs stub_ret scratch ?c1 = Some (True, ?c1\<lparr>serial := serial m @ map Raw hello_msg,
      FD_TABLE := (FD_TABLE m)[1 := Some (f\<lparr>f_offset := f_offset f + 23\<rparr>)], ram := r, gpr := ?g\<lparr>f_rax := 23\<rparr>\<rparr>)"
    "\<forall>a. a \<notin> trap_stack ?c1 \<longrightarrow> r a = ram ?c1 a"
    using console_write_call [of ?c1 f hello_msg handler kernel_cs stub_ret scratch] assms(3-5) code(5)
    by (auto simp: word_le_nat_alt)
  let ?m2 = "?c1\<lparr>serial := serial m @ map Raw hello_msg,
      FD_TABLE := (FD_TABLE m)[1 := Some (f\<lparr>f_offset := f_offset f + 23\<rparr>)], ram := r, gpr := ?g\<lparr>f_rax := 23\<rparr>\<rparr>"
  have "?exec ?m1 = ?exec ?m2"
    by (rule exec_call(1)) (use r(1) code(2) in simp_all)
  moreover have same: "r a = ram m a" if "a \<notin> trap_stack m" for a
    using r(2) that by (simp add: trap_stack_def)
  then have "load_bytes 0x400000 72 r = load_bytes 0x400000 72 (ram m)"
    using assms(6) by (intro load_bytes_cong) auto
  then have code2: "code_at r 0x400021 [MovRax 2, MovRdi 0] 0x40002f" "code_at r 0x40002f [Int80] 0x400031"
    using hello_decode(3,4) [of r] assms(2) by simp_all
  let ?m3 = "?m2\<lparr>m_rip := 0x40002f, gpr := ?g\<lparr>f_rax := 2, f_rdi := 0\<rparr>\<rparr>"
  have "?exec ?m2 = ?exec ?m3"
    using exec_movs_here [of ?m2 "[MovRax 2, MovRdi 0]" "0x40002f" handler kernel_cs stub_ret scratch] code2(1) by simp
  moreover obtain q where q: "int80 handler kernel_cs stub_ret scratch (?m3\<lparr>m_rip := 0x400031\<rparr>) = Some (False, q)"
    "exited (ASigned 0) [] ((FD_TABLE m)[1 := Some (f\<lparr>f_offset := f_offset f + 23\<rparr>)]) (load64 (USER_KERNEL_RSP m) r)
      (?m3\<lparr>m_rip := 0x400031\<rparr>) q"
    by (rule exit_call [of "?m3\<lparr>m_rip := 0x400031\<rparr>" handler kernel_cs stub_ret scratch]) (use assms(7) in \<open>simp_all add: trap_stack_def\<close>)
  have "load64 (USER_KERNEL_RSP m) r = ret_addr"
    using load64_cong [of "USER_KERNEL_RSP m" r "ram m"] same assms(7,8) by auto
  then have "exited (ASigned 0) (map Raw hello_msg) ((FD_TABLE m)[1 := Some (f\<lparr>f_offset := f_offset f + 23\<rparr>)]) ret_addr m q"
    using exited_after [OF q(2), of m "map Raw hello_msg"] by (simp add: frames_ok_def)
  moreover have "?exec ?m3 = Some q"
    by (rule exec_call(2)) (use q(1) code2(2) in simp_all)
  ultimately show ?thesis
    by simp
qed

section \<open>\<open>vfs.elf\<close>\<close>

lemma vfs_bytes:
  "vfs_payload =
     [0x48, 0xc7, 0xc0, 3, 0, 0, 0] @ [0x48, 0xc7, 0xc7, 0x44, 0, 0x40, 0] @ [0x48, 0xc7, 0xc6, 0, 0, 0, 0] @ [0xcd, 0x80]
     @ [0x48, 0x89, 0xc7] @ [0x48, 0xc7, 0xc0, 1, 0, 0, 0] @ [0x48, 0xbe, 0x51, 0, 0x40, 0, 0, 0, 0, 0]
     @ [0x48, 0xc7, 0xc2, 28, 0, 0, 0] @ [0xcd, 0x80] @ [0x48, 0xc7, 0xc0, 2, 0, 0, 0] @ [0x48, 0xc7, 0xc7, 0, 0, 0, 0]
     @ [0xcd, 0x80] @ vfs_path @ vfs_msg"
  by (simp add: vfs_payload_def vfs_code_def mov_rax_imm32_def mov_rdi_imm32_def mov_rdx_imm32_def mov_rsi_imm64_def
      mov_rsi_imm32_def MOV_RDI_RAX_def INT80_def vfs_path_addr_def vfs_msg_addr_def vfs_code_len_def BASE_def vfs_path_def
      vfs_msg_def pack_I_def pack_Q_def be_bytes_numeral)

lemma vfs_decode:
  assumes "load_bytes 0x400000 109 r = vfs_payload"
  shows "code_at r 0x400000 [MovRax 3, MovRdi 0x400044, MovRsi 0] 0x400015" "code_at r 0x400015 [Int80] 0x400017"
    "code_at r 0x400017 [MovRdiRax, MovRax 1, MovRsi 0x400051, MovRdx 28] 0x400032" "code_at r 0x400032 [Int80] 0x400034"
    "code_at r 0x400034 [MovRax 2, MovRdi 0] 0x400042" "code_at r 0x400042 [Int80] 0x400044"
    "load_bytes 0x400044 13 r = vfs_path" "load_bytes 0x400051 28 r = vfs_msg"
proof -
  note at = code_at_part [of "0x400000" vfs_payload r, unfolded payload_lengths, OF assms]
  note bytes = vfs_bytes vfs_path_def vfs_msg_def str_def decode_def imm32_def imm64_def le_val_def be_val_def
  have d: "decode (take 10 (drop 0 vfs_payload)) = Some (MovRax 3, 7)" "decode (take 10 (drop 7 vfs_payload)) = Some (MovRdi 0x400044, 7)"
    "decode (take 10 (drop 14 vfs_payload)) = Some (MovRsi 0, 7)" "decode (take 10 (drop 21 vfs_payload)) = Some (Int80, 2)"
    "decode (take 10 (drop 23 vfs_payload)) = Some (MovRdiRax, 3)" "decode (take 10 (drop 26 vfs_payload)) = Some (MovRax 1, 7)"
    "decode (take 10 (drop 33 vfs_payload)) = Some (MovRsi 0x400051, 10)" "decode (take 10 (drop 43 vfs_payload)) = Some (MovRdx 28, 7)"
    "decode (take 10 (drop 50 vfs_payload)) = Some (Int80, 2)" "decode (take 10 (drop 52 vfs_payload)) = Some (MovRax 2, 7)"
    "decode (take 10 (drop 59 vfs_payload)) = Some (MovRdi 0, 7)" "decode (take 10 (drop 66 vfs_payload)) = Some (Int80, 2)"
    by (simp_all add: bytes)
  show "code_at r 0x400000 [MovRax 3, MovRdi 0x400044, MovRsi 0] 0x400015"
    using at [OF _ d(1)] at [OF _ d(2)] at [OF _ d(3)] by simp
  show "code_at r 0x400017 [MovRdiRax, MovRax 1, MovRsi 0x400051, MovRdx 28] 0x400032"
    using at [OF _ d(5)] at [OF _ d(6)] at [OF _ d(7)] at [OF _ d(8)] by simp
  show "code_at r 0x400034 [MovRax 2, MovRdi 0] 0x400042"
    using at [OF _ d(10)] at [OF _ d(11)] by simp
  show "code_at r 0x400015 [Int80] 0x400017" "code_at r 0x400032 [Int80] 0x400034" "code_at r 0x400042 [Int80] 0x400044"
    using at [OF _ d(4)] at [OF _ d(9)] at [OF _ d(12)] by simp_all
  show "load_bytes 0x400044 13 r = vfs_path" "load_bytes 0x400051 28 r = vfs_msg"
    using load_bytes_part [of 68 13 109 "0x400000" r] load_bytes_part [of 81 28 109 "0x400000" r] assms by (simp_all add: bytes)
qed

lemma vfs_keep:
  assumes "load_bytes 0x400000 109 (ram m) = vfs_payload" and "trap_stack m \<inter> addrs 0x400000 109 = {}"
    and "\<forall>a. a \<notin> trap_stack m \<longrightarrow> r a = ram m a"
  shows "load_bytes 0x400000 109 r = vfs_payload"
proof -
  have "load_bytes 0x400000 109 r = load_bytes 0x400000 109 (ram m)"
    using assms(2,3) by (intro load_bytes_cong) auto
  then show ?thesis
    using assms(1) by simp
qed

text \<open>The first system call, which opens the console.\<close>

lemma vfs_opens:
  fixes m :: "('d, 'a) mach_scheme"
  assumes "m_rip m = 0x400000" and "load_bytes 0x400000 109 (ram m) = vfs_payload"
    and "resolve (str ''/dev/console'') m = Inr Console"
    and "install \<lparr>f_inode = Console, f_offset = 0\<rparr> (FD_TABLE m) = Some (fds, fd)"
    and "trap_stack m \<inter> addrs 0x400000 109 = {}"
  obtains r g where "user_exec handler kernel_cs stub_ret scratch m = user_exec handler kernel_cs stub_ret scratch
      (m\<lparr>FD_TABLE := fds, ram := r, m_rip := 0x400017, gpr := g\<rparr>)"
    "f_rax g = word_of_nat fd" "\<forall>a. a \<notin> trap_stack m \<longrightarrow> r a = ram m a"
proof -
  let ?exec = "user_exec handler kernel_cs stub_ret scratch"
  note code = vfs_decode [OF assms(2)]
  have "trap_stack m \<inter> addrs 0x400044 13 = {}"
    using assms(5) addrs_sub [of 68 13 109 "0x400000"] by auto
  let ?g = "(gpr m)\<lparr>f_rax := 3, f_rdi := 0x400044, f_rsi := 0\<rparr>"
  let ?m = "m\<lparr>m_rip := 0x400015, gpr := ?g\<rparr>" and ?c = "m\<lparr>gpr := ?g, m_rip := 0x400017\<rparr>"
  have movs: "?exec m = ?exec ?m"
    using exec_movs_here [of m _ "0x400015" handler kernel_cs stub_ret scratch, OF code(1) [folded assms(1)]] by simp
  have "resolve (str ''/dev/console'') ?c = Inr Console"
    using assms(3) resolve_cong [of ?c m] by simp
  moreover have "0 \<notin> set (str ''/dev/console'')" "\<forall>b\<in>set (str ''/dev/console''). b < 0x80"
    by (simp_all add: str_def)
  moreover have "Suc (length (str ''/dev/console'')) = 13"
    by simp
  ultimately obtain r where r: "int80 handler kernel_cs stub_ret scratch ?c =
      Some (True, ?c\<lparr>serial := serial m @ [], FD_TABLE := fds, ram := r, gpr := ?g\<lparr>f_rax := word_of_nat fd\<rparr>\<rparr>)"
    "\<forall>a. a \<notin> trap_stack m \<longrightarrow> r a = ram m a"
    using open_call [of ?c "str ''/dev/console''" Console fds fd handler kernel_cs stub_ret scratch] assms(4) code(7)
      \<open>trap_stack m \<inter> addrs 0x400044 13 = {}\<close>
    by (auto simp: trap_stack_def vfs_path_def simp del: length_str)
  have "?exec ?m = ?exec (?c\<lparr>serial := serial m @ [], FD_TABLE := fds, ram := r, gpr := ?g\<lparr>f_rax := word_of_nat fd\<rparr>\<rparr>)"
    by (rule exec_call(1)) (use r(1) code(2) in simp_all)
  also have "?c\<lparr>serial := serial m @ [], FD_TABLE := fds, ram := r, gpr := ?g\<lparr>f_rax := word_of_nat fd\<rparr>\<rparr> =
      m\<lparr>FD_TABLE := fds, ram := r, m_rip := 0x400017, gpr := ?g\<lparr>f_rax := word_of_nat fd\<rparr>\<rparr>"
    by (cases m) simp
  finally show thesis
    using that [where r = r and g = "?g\<lparr>f_rax := word_of_nat fd\<rparr>"] movs r(2) by simp
qed

lemma vfs_exec:
  fixes m :: "('d, 'a) mach_scheme"
  assumes "m_rip m = 0x400000" and "load_bytes 0x400000 109 (ram m) = vfs_payload"
    and "resolve (str ''/dev/console'') m = Inr Console"
    and "install \<lparr>f_inode = Console, f_offset = 0\<rparr> (FD_TABLE m) = Some (fds, fd)" and "fd < MAX_FDS"
    and "trap_stack m \<inter> addrs 0x400000 109 = {}" and "trap_stack m \<inter> addrs (USER_KERNEL_RSP m) 8 = {}"
    and "load64 (USER_KERNEL_RSP m) (ram m) = ret_addr"
  shows "\<exists>m'. user_exec handler kernel_cs stub_ret scratch m = Some m' \<and>
    exited (ASigned 0) (map Raw vfs_msg) (fds[fd := Some \<lparr>f_inode = Console, f_offset = 28\<rparr>]) ret_addr m m'"
proof -
  let ?exec = "user_exec handler kernel_cs stub_ret scratch"
  obtain r1 g where r1: "?exec m = ?exec (m\<lparr>FD_TABLE := fds, ram := r1, m_rip := 0x400017, gpr := g\<rparr>)"
    "f_rax g = word_of_nat fd" "\<forall>a. a \<notin> trap_stack m \<longrightarrow> r1 a = ram m a"
    by (rule vfs_opens [OF assms(1-4,6)])
  note code1 = vfs_decode [OF vfs_keep [OF assms(2,6) r1(3)]]
  let ?m2 = "m\<lparr>FD_TABLE := fds, ram := r1, m_rip := 0x400017, gpr := g\<rparr>"
  let ?g = "g\<lparr>f_rdi := word_of_nat fd, f_rax := 1, f_rsi := 0x400051, f_rdx := 28\<rparr>"
  let ?m3 = "?m2\<lparr>m_rip := 0x400032, gpr := ?g\<rparr>" and ?c3 = "?m2\<lparr>gpr := ?g, m_rip := 0x400034\<rparr>"
  have e3: "?exec ?m2 = ?exec ?m3"
    using exec_movs_here [of ?m2 "[MovRdiRax, MovRax 1, MovRsi 0x400051, MovRdx 28]" "0x400032" handler kernel_cs stub_ret scratch]
      code1(3) r1(2) by simp
  have fd: "unat (word_of_nat fd :: u64) = fd"
    using assms(5) by (simp add: MAX_FDS_def unat_of_nat)
  have "trap_stack m \<inter> addrs 0x400051 28 = {}"
    using assms(6) addrs_sub [of 81 28 109 "0x400000"] by auto
  then obtain r2 where r2: "int80 handler kernel_cs stub_ret scratch ?c3 = Some (True, ?c3\<lparr>serial := serial m @ map Raw vfs_msg,
      FD_TABLE := fds[fd := Some \<lparr>f_inode = Console, f_offset = 28\<rparr>], ram := r2, gpr := ?g\<lparr>f_rax := 28\<rparr>\<rparr>)"
    "\<forall>a. a \<notin> trap_stack m \<longrightarrow> r2 a = r1 a"
    using console_write_call [of ?c3 "\<lparr>f_inode = Console, f_offset = 0\<rparr>" vfs_msg handler kernel_cs stub_ret scratch]
      fds.alloc_new [OF assms(4)] fd code1(8) by (auto simp: word_le_nat_alt trap_stack_def)
  let ?m4 = "?c3\<lparr>serial := serial m @ map Raw vfs_msg,
      FD_TABLE := fds[fd := Some \<lparr>f_inode = Console, f_offset = 28\<rparr>], ram := r2, gpr := ?g\<lparr>f_rax := 28\<rparr>\<rparr>"
  have e4: "?exec ?m3 = ?exec ?m4"
    by (rule exec_call(1)) (use r2(1) code1(4) in simp_all)
  have same: "\<forall>a. a \<notin> trap_stack m \<longrightarrow> r2 a = ram m a"
    using r1(3) r2(2) by simp
  note code2 = vfs_decode [OF vfs_keep [OF assms(2,6) same]]
  let ?m5 = "?m4\<lparr>m_rip := 0x400042, gpr := ?g\<lparr>f_rax := 2, f_rdi := 0\<rparr>\<rparr>"
  have e5: "?exec ?m4 = ?exec ?m5"
    using exec_movs_here [of ?m4 "[MovRax 2, MovRdi 0]" "0x400042" handler kernel_cs stub_ret scratch] code2(5) by simp
  obtain q where q: "int80 handler kernel_cs stub_ret scratch (?m5\<lparr>m_rip := 0x400044\<rparr>) = Some (False, q)"
    "exited (ASigned 0) [] (fds[fd := Some \<lparr>f_inode = Console, f_offset = 28\<rparr>]) (load64 (USER_KERNEL_RSP m) r2)
      (?m5\<lparr>m_rip := 0x400044\<rparr>) q"
    by (rule exit_call [of "?m5\<lparr>m_rip := 0x400044\<rparr>" handler kernel_cs stub_ret scratch]) (use assms(7) in \<open>simp_all add: trap_stack_def\<close>)
  have "load64 (USER_KERNEL_RSP m) r2 = ret_addr"
    using load64_cong [of "USER_KERNEL_RSP m" r2 "ram m"] same assms(7,8) by auto
  then have "exited (ASigned 0) (map Raw vfs_msg) (fds[fd := Some \<lparr>f_inode = Console, f_offset = 28\<rparr>]) ret_addr m q"
    using exited_after [OF q(2), of m "map Raw vfs_msg"] by (simp add: frames_ok_def)
  moreover have "?exec ?m5 = Some q"
    by (rule exec_call(2)) (use q(1) code2(6) in simp_all)
  ultimately show ?thesis
    using r1(1) e3 e4 e5 by simp
qed

section \<open>Both programs\<close>

text \<open>The stacks of the kernel are apart from the programs and from each other.\<close>

definition user_apart :: "('d, 'a) mach_scheme \<Rightarrow> bool" where
  "user_apart m \<longleftrightarrow> trap_stack m \<inter> addrs 0x400000 109 = {} \<and> addrs (m_rsp m - 48) 48 \<inter> addrs 0x400000 109 = {} \<and>
     trap_stack m \<inter> addrs (m_rsp m - 8) 8 = {}"

text \<open>What the console shows of a program that prints a message and exits.\<close>

definition program_log :: "byte list \<Rightarrow> sevent list" where
  "program_log msg =
     [Print (''[syscall] entering ring3: entry={:#x} stack={:#x}'' @ [CHR 0x0A]) [ANum 0x400000, ANum 0x500000]] @ map Raw msg
     @ [Print (''[kernel] user program exited (code={})'' @ [CHR 0x0A]) [ASigned 0],
        Print (''[syscall] back in ring0 from user mode'' @ [CHR 0x0A]) []]"

definition completes :: "byte list \<Rightarrow> open_file option list \<Rightarrow> u64 \<Rightarrow> ('d, 'a) mach_scheme \<Rightarrow> ('d, 'a) mach_scheme \<Rightarrow> bool" where
  "completes msg fds ret_addr m m' \<longleftrightarrow>
     serial m' = serial m @ program_log msg \<and> FD_TABLE m' = fds \<and> MOUNTS m' = MOUNTS m \<and> RSP0 m' = RSP0 m \<and>
     m_rsp m' = m_rsp m \<and> m_rip m' = ret_addr"

lemma apart_sub: "user_apart m \<Longrightarrow> n \<le> 109 \<Longrightarrow>
  trap_stack m \<inter> addrs 0x400000 n = {} \<and> addrs (m_rsp m - 48) 48 \<inter> addrs 0x400000 n = {} \<and> trap_stack m \<inter> addrs (m_rsp m - 8) 8 = {}"
  using addrs_mono [of n 109 "0x400000"] by (auto simp: user_apart_def)

lemma program_runs:
  fixes m :: "('d, 'a) mach_scheme"
  assumes "mapper_ok map_to" and "frames_ok (5 + n) m" and "unat k = length pl" and "pl \<noteq> []"
    and "addrs (m_rsp m - 48) 48 \<inter> addrs 0x400000 (length pl) = {}"
    and exec: "\<And>m0. FD_TABLE m0 = FD_TABLE m \<Longrightarrow> MOUNTS m0 = MOUNTS m \<Longrightarrow> trap_stack m0 = trap_stack m \<Longrightarrow>
      USER_KERNEL_RSP m0 = m_rsp m - 8 \<Longrightarrow> m_rip m0 = 0x400000 \<Longrightarrow> load_bytes 0x400000 (length pl) (ram m0) = pl \<Longrightarrow>
      load64 (USER_KERNEL_RSP m0) (ram m0) = ret_addr \<Longrightarrow>
      \<exists>m'. user m0 = Some m' \<and> exited (ASigned 0) (map Raw msg) fds ret_addr m0 m'"
  shows "\<exists>m'. run_user map_to var ret_addr user_cs user_ss user (elf_headers k @ pl) m = Some m' \<and>
    completes msg fds ret_addr m m' \<and> frames_ok n m'"
proof -
  obtain m0 where m0: "run_user map_to var ret_addr user_cs user_ss user (elf_headers k @ pl) m =
      map_option (println ''[syscall] back in ring0 from user mode'' []) (user m0)"
    "serial m0 = serial m @ [Print (''[syscall] entering ring3: entry={:#x} stack={:#x}'' @ [CHR 0x0A]) [ANum 0x400000, ANum 0x500000]]"
    "FD_TABLE m0 = FD_TABLE m" "MOUNTS m0 = MOUNTS m" "RSP0 m0 = RSP0 m" "USER_KERNEL_RSP m0 = m_rsp m - 8" "m_rip m0 = 0x400000"
    "load_bytes 0x400000 (length pl) (ram m0) = pl" "load64 (m_rsp m - 8) (ram m0) = ret_addr" "frames_ok n m0"
    by (rule program_starts [OF assms(1-5)])
  obtain m' where "user m0 = Some m'" "exited (ASigned 0) (map Raw msg) fds ret_addr m0 m'"
    using exec [of m0] m0 by (auto simp: trap_stack_def)
  then show ?thesis
    using m0 by (simp add: exited_def completes_def program_log_def)
qed

lemma payload_facts: "unat (72 :: byte) = length hello_payload" "hello_payload \<noteq> []"
  "unat (109 :: byte) = length vfs_payload" "vfs_payload \<noteq> []"
  using payload_lengths by auto

lemma hello_runs:
  fixes m :: "('d, 'a) mach_scheme"
  assumes "mapper_ok map_to" and "frames_ok (5 + n) m" and "user_apart m"
    and "slot (FD_TABLE m) 1 = Some f" and "f_inode f = Console" and "unat (f_offset f) + 4096 < 2 ^ 64"
  shows "\<exists>m'. run_user map_to var ret_addr user_cs user_ss (user_exec handler kernel_cs stub_ret scratch) hello_elf m = Some m' \<and>
    completes hello_msg ((FD_TABLE m)[1 := Some (f\<lparr>f_offset := f_offset f + 23\<rparr>)]) ret_addr m m' \<and> frames_ok n m'"
  unfolding elf_files
proof (rule program_runs [OF assms(1,2) payload_facts(1,2)]; (unfold payload_lengths)?)
  note apart = apart_sub [OF assms(3), of 72]
  show "addrs (m_rsp m - 48) 48 \<inter> addrs 0x400000 72 = {}"
    using apart by simp
  fix m0 :: "('d, 'a) mach_scheme"
  assume "FD_TABLE m0 = FD_TABLE m" "trap_stack m0 = trap_stack m" "USER_KERNEL_RSP m0 = m_rsp m - 8" "m_rip m0 = 0x400000"
    "load_bytes 0x400000 72 (ram m0) = hello_payload" "load64 (USER_KERNEL_RSP m0) (ram m0) = ret_addr"
  then show "\<exists>m'. user_exec handler kernel_cs stub_ret scratch m0 = Some m' \<and>
      exited (ASigned 0) (map Raw hello_msg) ((FD_TABLE m)[1 := Some (f\<lparr>f_offset := f_offset f + 23\<rparr>)]) ret_addr m0 m'"
    using hello_exec [of m0 f ret_addr handler kernel_cs stub_ret scratch] assms(4-6) apart by simp
qed

lemma vfs_runs:
  fixes m :: "('d, 'a) mach_scheme"
  assumes "mapper_ok map_to" and "frames_ok (5 + n) m" and "user_apart m"
    and "resolve (str ''/dev/console'') m = Inr Console"
    and "install \<lparr>f_inode = Console, f_offset = 0\<rparr> (FD_TABLE m) = Some (fds, fd)" and "fd < MAX_FDS"
  shows "\<exists>m'. run_user map_to var ret_addr user_cs user_ss (user_exec handler kernel_cs stub_ret scratch) vfs_elf m = Some m' \<and>
    completes vfs_msg (fds[fd := Some \<lparr>f_inode = Console, f_offset = 28\<rparr>]) ret_addr m m' \<and> frames_ok n m'"
  unfolding elf_files
proof (rule program_runs [OF assms(1,2) payload_facts(3,4)]; (unfold payload_lengths)?)
  note apart = apart_sub [OF assms(3), of 109]
  show "addrs (m_rsp m - 48) 48 \<inter> addrs 0x400000 109 = {}"
    using apart by simp
  fix m0 :: "('d, 'a) mach_scheme"
  assume "FD_TABLE m0 = FD_TABLE m" "MOUNTS m0 = MOUNTS m" "trap_stack m0 = trap_stack m" "USER_KERNEL_RSP m0 = m_rsp m - 8"
    "m_rip m0 = 0x400000" "load_bytes 0x400000 109 (ram m0) = vfs_payload" "load64 (USER_KERNEL_RSP m0) (ram m0) = ret_addr"
  then show "\<exists>m'. user_exec handler kernel_cs stub_ret scratch m0 = Some m' \<and>
      exited (ASigned 0) (map Raw vfs_msg) (fds[fd := Some \<lparr>f_inode = Console, f_offset = 28\<rparr>]) ret_addr m0 m'"
    using vfs_exec [of m0 fds fd ret_addr handler kernel_cs stub_ret scratch] assms(4-6) apart resolve_cong [of m0 m] by simp
qed

lemma embedded_run:
  assumes "mapper_ok map_to" and "frames_ok 10 m" and "user_apart m" and "MOUNTS m = boot_mounts root" and "boot_fds (FD_TABLE m)"
  shows "\<exists>m'. run_embedded map_to var after1 after2 user_cs user_ss (user_exec handler kernel_cs stub_ret scratch) hello_elf vfs_elf m = Some m' \<and>
    serial m' = serial m @ [Print (''[main] Phase 5: running hello.elf in ring3'' @ [CHR 0x0A]) []] @ program_log hello_msg
      @ [Print (''[main] Phase 6: running vfs.elf (open + write /dev/console) in ring3'' @ [CHR 0x0A]) []] @ program_log vfs_msg \<and>
    FD_TABLE m' = map (\<lambda>off. Some \<lparr>f_inode = Console, f_offset = off\<rparr>) [0, 23, 0, 28] \<and> m_rsp m' = m_rsp m \<and> m_rip m' = after2"
proof -
  let ?f = "\<lambda>off. Some \<lparr>f_inode = Console, f_offset = off\<rparr>"
  let ?m = "println ''[main] Phase 5: running hello.elf in ring3'' [] m"
  obtain t where fds: "FD_TABLE m = [?f 0, ?f 0, ?f 0] @ t" "t = [] \<or> t = [None]"
    using assms(5) by (auto simp: boot_fds_def numeral_3_eq_3)
  have m: "user_apart ?m" "frames_ok (5 + 5) ?m" "slot (FD_TABLE ?m) 1 = ?f 0"
    using assms(2,3) fds by (auto simp: user_apart_def slot_def)
  have "\<exists>m1. run_user map_to var after1 user_cs user_ss (user_exec handler kernel_cs stub_ret scratch) hello_elf ?m = Some m1 \<and>
      completes hello_msg ([?f 0, ?f 23, ?f 0] @ t) after1 ?m m1 \<and> frames_ok 5 m1"
    using hello_runs [OF assms(1) m(2,1,3), of var after1 user_cs user_ss handler kernel_cs stub_ret scratch] by (simp add: fds(1))
  then obtain m1 where m1: "run_user map_to var after1 user_cs user_ss (user_exec handler kernel_cs stub_ret scratch) hello_elf ?m = Some m1"
    "completes hello_msg ([?f 0, ?f 23, ?f 0] @ t) after1 ?m m1" "frames_ok 5 m1"
    by blast
  let ?n = "println ''[main] Phase 6: running vfs.elf (open + write /dev/console) in ring3'' [] m1"
  have n: "user_apart ?n" "frames_ok (5 + 0) ?n" "MOUNTS ?n = boot_mounts root" "FD_TABLE ?n = [?f 0, ?f 23, ?f 0] @ t"
    using m1(2,3) assms(3,4) by (simp_all add: completes_def user_apart_def trap_stack_def)
  have "install \<lparr>f_inode = Console, f_offset = 0\<rparr> (FD_TABLE ?n) = Some ([?f 0, ?f 23, ?f 0, ?f 0], 3)"
    unfolding n(4) using fds(2) by (auto simp: install_def MAX_FDS_def numeral_3_eq_3)
  then have "\<exists>m2. run_user map_to var after2 user_cs user_ss (user_exec handler kernel_cs stub_ret scratch) vfs_elf ?n = Some m2 \<and>
      completes vfs_msg [?f 0, ?f 23, ?f 0, ?f 28] after2 ?n m2"
    using vfs_runs [OF assms(1) n(2,1) resolve_console [OF n(3)], of _ 3 var after2 user_cs user_ss handler kernel_cs stub_ret scratch]
    by (auto simp: MAX_FDS_def numeral_3_eq_3)
  then obtain m2 where "run_user map_to var after2 user_cs user_ss (user_exec handler kernel_cs stub_ret scratch) vfs_elf ?n = Some m2"
    "completes vfs_msg [?f 0, ?f 23, ?f 0, ?f 28] after2 ?n m2"
    by blast
  with m1(1,2) show ?thesis
    by (simp add: run_embedded_def completes_def)
qed

text \<open>The embedded programs do what they were written for. In the state \<open>fs::init\<close> and the self test leave, with ten pages worth of free
  frames and kernel stacks apart from the programs, \<open>kernel_main\<close> runs \<open>hello.elf\<close> and then \<open>vfs.elf\<close>,
  the files of the generators, to their end: the machine code is loaded, entered in ring 3,
  executed instruction by instruction and comes back to the kernel, each program prints its
  message between the kernel's own lines, byte for byte, and the kernel continues behind the
  second call on the stack it had. The descriptor \<open>vfs.elf\<close> opened and did not close is still in
  the table.\<close>

theorem embedded_programs_run:
  assumes "mapper_ok map_to" and "frames_ok 10 m" and "user_apart m" and "MOUNTS m = boot_mounts root" and "boot_fds (FD_TABLE m)"
  shows "\<exists>m'. run_embedded map_to var after1 after2 user_cs user_ss (user_exec handler kernel_cs stub_ret scratch) hello_elf vfs_elf m = Some m' \<and>
    serial m' = serial m @ [Print (''[main] Phase 5: running hello.elf in ring3'' @ [CHR 0x0A]) []] @ program_log hello_msg
      @ [Print (''[main] Phase 6: running vfs.elf (open + write /dev/console) in ring3'' @ [CHR 0x0A]) []] @ program_log vfs_msg \<and>
    FD_TABLE m' = map (\<lambda>off. Some \<lparr>f_inode = Console, f_offset = off\<rparr>) [0, 23, 0, 28] \<and> m_rsp m' = m_rsp m \<and> m_rip m' = after2"
  using embedded_run [OF assms] by blast

text \<open>A machine with sixteen megabytes, its two kernel stacks at \<open>0x8000\<close> and \<open>0x9000\<close>.\<close>

definition boot_mach :: "unit mach" where
  "boot_mach = demo_mach\<lparr>FRAME_ALLOCATOR := ram_16m, MOUNTS := boot_mounts (node_dir (str ''/'')),
     FD_TABLE := replicate 3 (Some \<lparr>f_inode = Console, f_offset = 0\<rparr>)\<rparr>"

lemma boot_mach_ok: "frames_ok 10 boot_mach" "user_apart boot_mach" "serial boot_mach = []"
proof -
  have "READY demo_mach" "serial demo_mach = []"
    by (simp_all add: demo_mach_def kernel.defs demo_kernel_def)
  then show "frames_ok 10 boot_mach" "serial boot_mach = []"
    using ram_16m by (simp_all add: boot_mach_def frames_ok_def card_free_addrs)
  have stacks: "m_rsp boot_mach = 0x8000" "trap_stack boot_mach = addrs 0x8f58 168"
    by (simp_all add: boot_mach_def demo_mach_simps trap_stack_def)
  have "addrs 0x8f58 168 \<inter> addrs (0x400000 :: u64) 109 = {}" "addrs 0x7fd0 48 \<inter> addrs (0x400000 :: u64) 109 = {}"
    "addrs 0x8f58 168 \<inter> addrs (0x7ff8 :: u64) 8 = {}"
    using addrs_apart [of 0 168 "0x3f70a8" 109 "0x8f58"] addrs_apart [of 0 48 "0x3f8030" 109 "0x7fd0"]
      addrs_apart [of 0 8 "0xf60" 168 "0x7ff8"] by (simp_all add: Int_commute)
  then show "user_apart boot_mach"
    by (simp add: user_apart_def stacks)
qed

theorem embedded_programs_run_witness:
  "\<exists>m'. run_embedded demo_map_to 0x3000 0x2222 0x3333 0x23 0x1b (user_exec 0x1000 8 0x1010 demo_frame) hello_elf vfs_elf boot_mach = Some m' \<and>
     m_rip m' = 0x3333 \<and> filter (\<lambda>e. case e of Raw _ \<Rightarrow> True | _ \<Rightarrow> False) (serial m') =
       map Raw (str ''Hello from user ring3!'' @ [10] @ str ''Hello via VFS /dev/console!'' @ [10])"
proof -
  have "MOUNTS boot_mach = boot_mounts (node_dir (str ''/''))"
    "boot_fds (FD_TABLE boot_mach)"
    by (simp_all add: boot_mach_def boot_fds_def)
  from embedded_programs_run [OF demo_mapper_ok boot_mach_ok(1,2) this, of "0x3000" "0x2222" "0x3333" "0x23" "0x1b" "0x1000" 8 "0x1010" demo_frame]
  show ?thesis
    by (auto simp: boot_mach_ok program_log_def hello_msg_def vfs_msg_def)
qed

end
