(* ===== verification/Interrupts.thy ===== *)
theory Interrupts
  imports Scheduler_Properties
begin

text \<open>
  Interrupts and context switches together: where a suspended task continues, and when the timer
  interrupt can be taken again. The handlers are those of \<open>interrupts.rs\<close>, the operations those of
  \<open>process/scheduler.rs\<close> (theory \<open>Scheduler\<close>); this theory performs the switches they request.

  The interrupt controller delivers IRQ0 only while no IRQ0 is in service, and the service of IRQ0
  ends with the end-of-interrupt command that \<open>timer_interrupt_handler\<close> sends last, after
  \<open>process::tick\<close>. IRQ1, the keyboard, has lower priority, so it is held back too. A task that is
  preempted is suspended inside \<open>process::tick\<close>, before that command.
\<close>

section \<open>The processor with its interrupt controller\<close>

text \<open>Where a suspended context continues: a new task in the trampoline, a caller of \<open>schedule\<close>
  behind \<open>__switch\<close> with the interrupt flag it restores, a preempted task behind \<open>__switch\<close> in the
  timer interrupt handler.\<close>

datatype point = AtTrampoline | InCall bool | InHandler

record 'f cpu_state =
  sch :: "'f sched"
  in_service :: bool
  points :: "ctx_loc \<Rightarrow> point"

definition cpu_boot :: "'f cpu_state" where
  "cpu_boot = \<lparr>sch = sched_new\<lparr>int_flag := True\<rparr>, in_service = False, points = (\<lambda>_. AtTrampoline)\<rparr>"

definition end_of_interrupt :: "'f cpu_state \<Rightarrow> 'f cpu_state" where
  "end_of_interrupt m = m\<lparr>in_service := False\<rparr>"

text \<open>Return from an interrupt that was taken with interrupts enabled.\<close>

definition iret :: "'f cpu_state \<Rightarrow> 'f cpu_state" where
  "iret m = m\<lparr>sch := resume True (sch m)\<rparr>"

text \<open>Execution continues in a context, up to the code of the task.\<close>

definition arrive :: "ctx_loc \<Rightarrow> 'f cpu_state \<Rightarrow> 'f cpu_state option" where
  "arrive c m =
     (case points m c of
        AtTrampoline \<Rightarrow> do {
          (f, s) \<leftarrow> current_task_body (sch m);
          Some (m\<lparr>sch := s\<rparr>)
        }
      | InCall e \<Rightarrow> Some (m\<lparr>sch := resume e (sch m)\<rparr>)
      | InHandler \<Rightarrow> Some (iret (end_of_interrupt (m\<lparr>sch := resume False (sch m)\<rparr>))))"

text \<open>Perform the switch an operation asks for; the context left behind continues at \<open>p\<close>.\<close>

fun perform :: "point \<Rightarrow> switch_req \<Rightarrow> 'f cpu_state \<Rightarrow> 'f cpu_state option" where
  "perform p Stay m = Some m"
| "perform p (SwitchTo old new e) m = arrive new (m\<lparr>points := (points m)(old := p)\<rparr>)"
| "perform p IdleForever m = Some (m\<lparr>sch := resume True (sch m)\<rparr>)"

definition deliverable :: "'f cpu_state \<Rightarrow> bool" where
  "deliverable m \<longleftrightarrow> int_flag (sch m) \<and> \<not> in_service m"

definition timer_irq :: "'f cpu_state \<Rightarrow> 'f cpu_state option" where
  "timer_irq m = do {
     (r, s) \<leftarrow> timer_interrupt_handler (sch m);
     let m = m\<lparr>sch := s, in_service := True\<rparr>;
     (case r of
        Stay \<Rightarrow> Some (iret (end_of_interrupt m))
      | _ \<Rightarrow> perform InHandler r m)
   }"

text \<open>The calls of a running task that can give up the processor.\<close>

datatype kernel_call = YieldNow | SleepFor u64 | JoinTask u32 | ExitTask

fun kcall :: "kernel_call \<Rightarrow> 'f sched \<Rightarrow> (switch_req \<times> 'f sched) option" where
  "kcall YieldNow s = yield_now s"
| "kcall (SleepFor n) s = sleep n s"
| "kcall (JoinTask i) s = join i s"
| "kcall ExitTask s = exit_current s"

inductive cpu_step :: "u64 \<Rightarrow> 'f cpu_state \<Rightarrow> 'f cpu_state \<Rightarrow> bool" for tramp where
  cpu_init: "cpu_step tramp m (m\<lparr>sch := sched_init (sch m)\<rparr>)"
| cpu_spawn: "spawn tramp ptr f (sch m) = Some (i, s) \<Longrightarrow> find_slot i s = Some k \<Longrightarrow>
    cpu_step tramp m (m\<lparr>sch := s, points := (points m)(TaskCtx k := AtTrampoline)\<rparr>)"
| cpu_start: "current (sch m) = NO_TASK \<Longrightarrow> start (sch m) = Some (r, s) \<Longrightarrow>
    perform (InCall True) r (m\<lparr>sch := s\<rparr>) = Some m' \<Longrightarrow> cpu_step tramp m m'"
| cpu_call: "current (sch m) \<noteq> NO_TASK \<Longrightarrow> kcall c (sch m) = Some (r, s) \<Longrightarrow>
    perform (InCall (int_flag (sch m))) r (m\<lparr>sch := s\<rparr>) = Some m' \<Longrightarrow> cpu_step tramp m m'"
| cpu_timer: "deliverable m \<Longrightarrow> timer_irq m = Some m' \<Longrightarrow> cpu_step tramp m m'"

inductive cpu_reachable :: "u64 \<Rightarrow> 'f cpu_state \<Rightarrow> bool" for tramp where
  cpu_reach_boot: "cpu_reachable tramp cpu_boot"
| cpu_reach_step: "cpu_reachable tramp m \<Longrightarrow> cpu_step tramp m m' \<Longrightarrow> cpu_reachable tramp m'"

section \<open>The processor's steps are steps of the scheduler\<close>

lemma iret_sched: "sched_step tramp (sch m) (sch (iret m))"
  by (simp add: iret_def step_resume)

lemma end_of_interrupt_sch [simp]: "sch (end_of_interrupt m) = sch m" "points (end_of_interrupt m) = points m"
    "in_service (end_of_interrupt m) = False"
  by (simp_all add: end_of_interrupt_def)

lemma iret_simps [simp]: "points (iret m) = points m" "in_service (iret m) = in_service m"
    "slots (sch (iret m)) = slots (sch m)" "current (sch (iret m)) = current (sch m)"
    "TICKS (sch (iret m)) = TICKS (sch m)" "int_flag (sch (iret m))"
  by (simp_all add: iret_def resume_def)

lemma resume_simps [simp]: "resume False s = s" "slots (resume e s) = slots s" "current (resume e s) = current s"
    "TICKS (resume e s) = TICKS s"
  by (simp_all add: resume_def)

lemma arrive_sched:
  assumes "arrive c m = Some m'" and "current (sch m) \<noteq> NO_TASK"
  shows "sched_step tramp (sch m) (sch m')"
  using assms step_body [OF assms(2)] step_resume [of tramp "sch m"] iret_sched [of tramp "end_of_interrupt m"]
  by (auto simp: arrive_def bind_eq_Some_conv split: point.splits)

section \<open>What a switch does to the table\<close>

text \<open>An operation that asked for \<open>r\<close>: only the current slot can have been vacated, and the new
  current slot holds a running task.\<close>

definition switches :: "'f sched \<Rightarrow> switch_req \<Rightarrow> 'f sched \<Rightarrow> bool" where
  "switches s r s' \<longleftrightarrow>
     (\<forall>i. i \<noteq> current s \<longrightarrow> (slot (slots s') i = None \<longleftrightarrow> slot (slots s) i = None)) \<and>
     (case r of
        Stay \<Rightarrow> current s' = current s
      | SwitchTo old new e \<Rightarrow> new = TaskCtx (current s') \<and> current s' \<noteq> NO_TASK \<and>
          (\<exists>t. slot (slots s') (current s') = Some t \<and> state t = Running) \<and>
          (old = TaskCtx (current s) \<or> old = BootCtx \<and> slot (slots s') (current s) = None)
      | IdleForever \<Rightarrow> current s' = NO_TASK \<and> slot (slots s') (current s) = None)"

lemma switches_cong:
  assumes "switches s0 r s'" and "current s0 = current s"
    and "\<And>i. slot (slots s0) i = None \<longleftrightarrow> slot (slots s) i = None"
  shows "switches s r s'"
  using assms unfolding switches_def by (cases r) auto

lemma prep_switch_old:
  "prep_switch i s = Some ((old, new), s') \<Longrightarrow> old = (if current s = NO_TASK then BootCtx else TaskCtx (current s))"
  by (auto simp: prep_switch_def ctx_ptr_def bind_eq_Some_conv Let_def split: if_splits option.splits)

lemma inv_slot_NO_TASK: "sched_inv s \<Longrightarrow> slot (slots s) NO_TASK = None"
  by (simp add: sched_inv_def slot_NO_TASK)

lemma schedule_switches:
  assumes "sched_inv s" and "schedule s = Some (r, s')"
  shows "switches s r s' \<and> TICKS s' = TICKS s \<and> r \<noteq> IdleForever \<and>
    (\<forall>i. slot (slots s') i = None \<longleftrightarrow> slot (slots s) i = None) \<and>
    (\<forall>old new e. r = SwitchTo old new e \<longrightarrow> old = (if current s = NO_TASK then BootCtx else TaskCtx (current s)))"
  using assms(1)
proof (cases rule: schedule_cases)
  case (stay s1)
  then show ?thesis
    using demote_slots [OF assms(1), of False s1] assms(2) by (auto simp: switches_def)
next
  case (switch s1 i t old s2)
  then have i: "i < length (slots s1)" "i \<noteq> NO_TASK"
    using inv_slot_NO_TASK [of s1] by (auto dest: slot_SomeD)
  have "old = (if current s = NO_TASK then BootCtx else TaskCtx (current s))"
    using prep_switch_old [OF switch(7)] demote_slots [OF assms(1) switch(1)] by simp
  then show ?thesis
    using switch i demote_slots [OF assms(1) switch(1)] assms(2) inv_slot_NO_TASK [OF switch(10)] inv_slot_NO_TASK [OF assms(1)]
    by (auto simp: switches_def slot_simps)
qed

lemma block_current_live:
  assumes "block_current b s = Some s1"
  shows "current s1 = current s \<and> TICKS s1 = TICKS s \<and> (slot (slots s1) i = None \<longleftrightarrow> slot (slots s) i = None)"
  using assms by (auto simp: block_current_def bind_eq_Some_conv get_at_update dest: get_at_slot split: if_splits)

lemma blocked_schedule_switches:
  assumes "sched_inv s" and "current s \<noteq> NO_TASK" and "block_current b s = Some s1" and "schedule s1 = Some (r, s')"
    and "\<And>k. b = Join k \<Longrightarrow> find_slot k s \<noteq> None"
  shows "switches s r s' \<and> TICKS s' = TICKS s"
proof -
  have "\<exists>j u. slot (slots s) j = Some u \<and> task_id u = k" if "b = Join k" for k
    using assms(5) [OF that] find_slot_Some by fastforce
  then have "sched_inv s1"
    using block_current_inv [OF assms(1,2), of b] assms(3) by auto
  then show ?thesis
    using schedule_switches [OF _ assms(4)] switches_cong block_current_live [OF assms(3)] by metis
qed

lemma exit_switches:
  assumes "sched_inv s" and "slot (slots s) (current s) = Some t" and "exit_current s = Some (r, s')"
  shows "switches s r s' \<and> TICKS s' = TICKS s"
  using assms(1,2)
proof (cases rule: exit_current_cases)
  case idle
  then show ?thesis
    using assms(3) by (auto simp: switches_def slot_exit_slots)
next
  case (switch i u s2)
  have "current s \<noteq> NO_TASK"
    using assms(2) inv_slot_NO_TASK [OF assms(1)] by auto
  moreover have "i < length (exit_slots s (task_id t))"
    using switch(2) by (auto dest: slot_SomeD)
  moreover have "i \<noteq> current s"
    using switch(2) by (auto simp: slot_exit_slots)
  moreover have "i \<noteq> NO_TASK"
    using switch(2) inv_slot_NO_TASK [OF assms(1)] by (auto simp: slot_exit_slots split: if_splits)
  ultimately show ?thesis
    using switch assms(3) by (auto simp: switches_def slot_simps slot_exit_slots)
qed

lemma kcall_switches:
  assumes "sched_inv s" and "current s \<noteq> NO_TASK" and "kcall c s = Some (r, s')"
  shows "switches s r s' \<and> TICKS s' = TICKS s"
proof (cases "(r, s') = (Stay, s)")
  case True
  then show ?thesis
    by (simp add: switches_def)
next
  case False
  show ?thesis
  proof (cases c)
    case YieldNow
    with False assms show ?thesis
      using schedule_switches by (auto simp: yield_now_def split: if_splits)
  next
    case (SleepFor n)
    with False assms show ?thesis
      using blocked_schedule_switches [OF assms(1,2)] by (fastforce simp: sleep_def bind_eq_Some_conv split: if_splits)
  next
    case (JoinTask i)
    with False assms show ?thesis
      using blocked_schedule_switches [OF assms(1,2), of "Join i"]
      by (fastforce simp: join_def join_done_def bind_eq_Some_conv split: if_splits option.splits)
  next
    case ExitTask
    with assms show ?thesis
      using exit_switches run_ok_current by fastforce
  qed
qed

lemma start_switches:
  assumes "sched_inv s" and "current s = NO_TASK" and "start s = Some (r, s')"
  shows "switches s r s' \<and> TICKS s' = TICKS s"
proof (cases "next_ready s")
  case None
  then show ?thesis
    using assms inv_slot_NO_TASK [OF assms(1)] by (auto simp: start_def switches_def println_def print_def)
next
  case (Some i)
  then obtain t where t: "slot (slots s) i = Some t"
    by (rule next_ready_Some)
  then have "i < length (slots s)" "i \<noteq> NO_TASK"
    using inv_slot_NO_TASK [OF assms(1)] by (auto dest: slot_SomeD)
  with t Some assms show ?thesis
    using inv_slot_NO_TASK [OF assms(1)]
    by (auto simp: start_def prep_switch_def ctx_ptr_def switches_def slot_simps slot_get_at Let_def bind_eq_Some_conv
        split: if_splits)
qed

lemma charge_slice_live:
  assumes "charge_slice s = Some (p, s1)"
  shows "current s1 = current s \<and> (slot (slots s1) i = None \<longleftrightarrow> slot (slots s) i = None) \<and> (p \<longrightarrow> current s \<noteq> NO_TASK)"
proof (cases "slot (slots s) (current s)")
  case None
  then have "get_at (slots s) (current s) \<in> {None, Some None}"
    by (auto simp: get_at_def slot_def)
  then show ?thesis
    using assms by (auto simp: charge_slice_def split: if_splits)
next
  case (Some t)
  then show ?thesis
    using assms by (auto simp: charge_slice_def slot_get_at get_at_update [OF slot_get_at] split: if_splits)
qed

lemma timer_switches:
  assumes "sched_inv s" and "timer_interrupt_handler s = Some (r, s')"
  shows "switches s r s' \<and> r \<noteq> IdleForever \<and>
    (\<forall>old new e. r = SwitchTo old new e \<longrightarrow> current s \<noteq> NO_TASK \<and> old = TaskCtx (current s) \<and>
       slot (slots s') (current s) \<noteq> None)"
proof (cases "ACTIVE s")
  case False
  then show ?thesis
    using assms(2) by (auto simp: timer_interrupt_handler_def tick_def timer_tick_def switches_def)
next
  case True
  from assms(2) True assms(1) obtain p s1 where s1:
      "charge_slice (s\<lparr>int_flag := False, TICKS := TICKS s + 1,
         slots := map (map_option (wake_sleeper (TICKS s + 1))) (slots s)\<rparr>) = Some (p, s1)"
      "(if p then schedule s1 else Some (Stay, s1)) = Some (r, s')" "sched_inv s1"
    by (elim timer_unfold)
  have live: "current s1 = current s" "slot (slots s1) i = None \<longleftrightarrow> slot (slots s) i = None"
      "p \<longrightarrow> current s \<noteq> NO_TASK" for i
    using charge_slice_live [OF s1(1), of i] by (auto simp: slot_map)
  show ?thesis
  proof (cases p)
    case True
    with s1 have "schedule s1 = Some (r, s')"
      by simp
    from schedule_switches [OF s1(3) this] show ?thesis
      using True live switches_cong [of s1 r s' s] run_ok_current [OF assms(1)] by auto
  next
    case False
    with s1 live show ?thesis
      by (auto simp: switches_def)
  qed
qed

section \<open>Who holds the timer interrupt\<close>

text \<open>The tasks that are suspended inside the timer interrupt handler.\<close>

definition parked :: "'f cpu_state \<Rightarrow> nat set" where
  "parked m = {i. slot (slots (sch m)) i \<noteq> None \<and> i \<noteq> current (sch m) \<and> points m (TaskCtx i) = InHandler}"

definition irq_inv :: "'f cpu_state \<Rightarrow> bool" where
  "irq_inv m \<longleftrightarrow> (if in_service m then \<exists>i. parked m = {i} else parked m = {})"

lemma current_task_body_live:
  assumes "current_task_body s = Some (f, s')"
  shows "current s' = current s \<and> TICKS s' = TICKS s \<and>
    slot (slots s') i = (if i = current s then map_option (\<lambda>t. t\<lparr>func := None\<rparr>) (slot (slots s) i) else slot (slots s) i)"
proof -
  from assms obtain t where t: "slot (slots s) (current s) = Some t"
    by (auto simp: current_task_body_def bind_eq_Some_conv dest: get_at_slot)
  with assms show ?thesis
    by (auto simp: current_task_body_def take_func_def slot_get_at get_at_update [OF slot_get_at] Let_def split: option.splits)
qed

lemma arrive_effect:
  assumes "arrive c m = Some m'"
  shows "parked m' = parked m \<and> points m' = points m \<and> current (sch m') = current (sch m) \<and>
    TICKS (sch m') = TICKS (sch m) \<and> in_service m' = (in_service m \<and> points m c \<noteq> InHandler) \<and>
    (\<forall>i. i \<noteq> current (sch m) \<longrightarrow> slot (slots (sch m')) i = slot (slots (sch m)) i)"
proof (cases "points m c")
  case AtTrampoline
  with assms obtain f s where "current_task_body (sch m) = Some (f, s)" "m' = m\<lparr>sch := s\<rparr>"
    by (auto simp: arrive_def bind_eq_Some_conv)
  with AtTrampoline current_task_body_live [of "sch m" f s] show ?thesis
    by (auto simp: parked_def)
qed (use assms in \<open>auto simp: arrive_def parked_def\<close>)

text \<open>Leaving the current context and arriving in the next one.\<close>

lemma switch_parked:
  assumes "switches (sch m) (SwitchTo old new e) s" and "sch m1 = s" and "points m1 = (points m)(old := p)"
  shows "parked m1 = (parked m \<union> (if p = InHandler \<and> old = TaskCtx (current (sch m)) \<and> slot (slots s) (current (sch m)) \<noteq> None
    then {current (sch m)} else {})) - {current s}"
proof (intro set_eqI)
  fix i
  show "i \<in> parked m1 \<longleftrightarrow> i \<in> (parked m \<union> (if p = InHandler \<and> old = TaskCtx (current (sch m)) \<and>
      slot (slots s) (current (sch m)) \<noteq> None then {current (sch m)} else {})) - {current s}"
    using assms by (cases "i = current (sch m)") (auto simp: switches_def parked_def)
qed

lemma switch_point:
  assumes "switches (sch m) (SwitchTo old new e) s" and "((points m)(old := InCall b)) new = InHandler"
  shows "current s \<in> parked m"
  using assms by (cases "current s = current (sch m)") (auto simp: switches_def parked_def split: if_splits)

lemma perform_call:
  assumes inv: "irq_inv m" "slot (slots (sch m)) NO_TASK = None" and sw: "switches (sch m) r s" and perf: "perform (InCall e) r (m\<lparr>sch := s\<rparr>) = Some m'"
  shows "irq_inv m' \<and> TICKS (sch m') = TICKS s \<and> current (sch m') = current s \<and>
    (\<forall>i. i \<noteq> current s \<longrightarrow> slot (slots (sch m')) i = slot (slots s) i) \<and>
    (\<forall>i. i \<noteq> current (sch m) \<longrightarrow> points m' (TaskCtx i) = points m (TaskCtx i))"
proof (cases r)
  case Stay
  then have "parked (m\<lparr>sch := s\<rparr>) = parked m"
    using sw by (auto simp: switches_def parked_def)
  with Stay perf inv show ?thesis
    by (auto simp: irq_inv_def)
next
  case IdleForever
  have "i \<in> parked m' \<longleftrightarrow> i \<in> parked m" for i
    using sw perf IdleForever inv(2) by (cases "i = current (sch m)"; cases "i = NO_TASK") (auto simp: switches_def parked_def)
  then have "parked m' = parked m"
    by auto
  with IdleForever perf inv show ?thesis
    by (auto simp: irq_inv_def)
next
  case (SwitchTo old new b)
  let ?m = "m\<lparr>sch := s, points := (points m)(old := InCall e)\<rparr>"
  have "arrive new ?m = Some m'"
    using perf SwitchTo by simp
  note eff = arrive_effect [OF this]
  have "parked ?m = parked m - {current s}"
    using switch_parked [OF sw [unfolded SwitchTo], of ?m "InCall e"] by simp
  moreover have "current s \<in> parked m" if "points ?m new = InHandler"
    using switch_point [OF sw [unfolded SwitchTo], of e] that by simp
  moreover have "current s \<notin> parked m" if "points ?m new \<noteq> InHandler"
    using that sw SwitchTo by (auto simp: switches_def parked_def split: if_splits)
  ultimately have "irq_inv m'"
    using eff inv(1) by (cases "points ?m new = InHandler") (auto simp: irq_inv_def split: if_splits)
  then show ?thesis
    using eff sw SwitchTo by (auto simp: switches_def)
qed

lemma timer_irq_inv:
  assumes inv: "irq_inv m" "sched_inv (sch m)" and "\<not> in_service m" and irq: "timer_irq m = Some m'"
  shows "irq_inv m'"
proof -
  obtain r s where rs: "timer_interrupt_handler (sch m) = Some (r, s)"
    using irq by (auto simp: timer_irq_def bind_eq_Some_conv)
  note sw = timer_switches [OF inv(2) rs]
  have none: "parked m = {}"
    using inv assms(3) by (simp add: irq_inv_def)
  show ?thesis
  proof (cases r)
    case Stay
    then have m': "m' = iret (end_of_interrupt (m\<lparr>sch := s, in_service := True\<rparr>))"
      using irq rs by (simp add: timer_irq_def)
    have "parked m' = parked m"
      using sw Stay by (auto simp: switches_def parked_def m')
    with none show ?thesis
      by (simp add: irq_inv_def m')
  next
    case (SwitchTo old new b)
    let ?m = "m\<lparr>sch := s, in_service := True, points := (points m)(old := InHandler)\<rparr>"
    have arr: "arrive new ?m = Some m'"
      using irq rs SwitchTo by (simp add: timer_irq_def)
    have old: "old = TaskCtx (current (sch m))" "slot (slots s) (current (sch m)) \<noteq> None"
        and sw': "switches (sch m) (SwitchTo old new b) s"
      using sw SwitchTo by auto
    have "slot (slots (sch m)) (current s) \<noteq> None" if "current s \<noteq> current (sch m)"
      using sw' that by (auto simp: switches_def)
    then have live: "points m (TaskCtx (current s)) \<noteq> InHandler" if "current s \<noteq> current (sch m)"
      using none that unfolding parked_def by blast
    have "parked ?m = {current (sch m)} - {current s}"
      using switch_parked [OF sw', of ?m InHandler] none old by (simp del: fun_upd_apply)
    moreover have "points ?m new = InHandler \<longleftrightarrow> current s = current (sch m)"
      using sw' none old live by (cases "current s = current (sch m)") (auto simp: switches_def parked_def)
    ultimately show ?thesis
      using arrive_effect [OF arr] by (auto simp: irq_inv_def)
  qed (use sw in simp)
qed

lemma spawn_parked:
  assumes inv: "sched_inv (sch m)" and spawn: "spawn tramp ptr f (sch m) = Some (i, s)" and k: "find_slot i s = Some k"
  shows "parked (m\<lparr>sch := s, points := (points m)(TaskCtx k := AtTrampoline)\<rparr>) = parked m \<and> TICKS s = TICKS (sch m) \<and>
    current s = current (sch m)"
proof -
  from spawn obtain t where t: "i = next_id (sch m)" "slots s = fst (place t (slots (sch m)))" "task_id t = i"
      and s: "TICKS s = TICKS (sch m)" "current s = current (sch m)"
    unfolding spawn_def by (rule add_task_eq)
  define l where "l = snd (place t (slots (sch m)))"
  then have place: "Some (place t (slots (sch m))) = Some (slots s, l)"
    using t(2) by simp
  note new = tasks.alloc_slot [OF place] tasks.alloc_free [OF place]
  have "task_id u \<noteq> i" if "slot (slots (sch m)) j = Some u" for j u
    using inv t(1) that by (fastforce simp: sched_inv_def ids_ok_def)
  then have "k = l"
    using find_slot_Some [OF k] new by (auto split: if_splits)
  then show ?thesis
    using new s by (auto simp: parked_def)
qed

lemma perform_sched:
  assumes "perform p r m = Some m'" and "switches s0 r (sch m)"
  shows "sched_step tramp (sch m) (sch m') \<or> sch m' = sch m"
proof (cases r)
  case (SwitchTo old new e)
  with assms show ?thesis
    using arrive_sched [of new "m\<lparr>points := (points m)(old := p)\<rparr>" m' tramp] by (auto simp: switches_def)
qed (use assms in \<open>auto intro: step_resume\<close>)

lemma kcall_sched:
  "current s \<noteq> NO_TASK \<Longrightarrow> kcall c s = Some (r, s') \<Longrightarrow> sched_step tramp s s'"
  by (cases c) (auto intro: sched_step.intros)

definition cpu_inv :: "'f cpu_state \<Rightarrow> bool" where
  "cpu_inv m \<longleftrightarrow> sched_inv (sch m) \<and> irq_inv m"

lemma perform_inv:
  assumes "perform p r m = Some m'" and "switches s0 r (sch m)" and "sched_inv (sch m)"
  shows "sched_inv (sch m')"
  using perform_sched [OF assms(1,2), of 0] assms(3) sched_step_inv by metis

lemma timer_irq_sched:
  assumes "sched_inv (sch m)" and "timer_irq m = Some m'"
  shows "sched_inv (sch m')"
proof -
  obtain r s where rs: "timer_interrupt_handler (sch m) = Some (r, s)"
    using assms(2) by (auto simp: timer_irq_def bind_eq_Some_conv)
  moreover have "sched_inv s"
    using timer_inv [OF assms(1)] rs by auto
  moreover have "switches (sch m) r s"
    using timer_switches [OF assms(1) rs] by simp
  ultimately show ?thesis
    using assms(2) perform_inv [of InHandler r "m\<lparr>sch := s, in_service := True\<rparr>" m' "sch m"]
    by (cases r) (auto simp: timer_irq_def iret_def resume_def)
qed

lemma cpu_step_inv:
  assumes "cpu_step tramp m m'" and "cpu_inv m"
  shows "cpu_inv m'"
  using assms
proof (induction rule: cpu_step.induct)
  case (cpu_init m)
  have "parked (m\<lparr>sch := sched_init (sch m)\<rparr>) = parked m"
    by (simp add: parked_def sched_init_def)
  with cpu_init show ?case
    by (simp add: cpu_inv_def irq_inv_def) (simp add: sched_init_def)
next
  case (cpu_spawn ptr f m i s k)
  have "sched_inv s"
    using add_task_inv cpu_spawn by (auto simp: spawn_def cpu_inv_def)
  then show ?case
    using spawn_parked [OF _ cpu_spawn.hyps] cpu_spawn.prems by (simp add: cpu_inv_def irq_inv_def)
next
  case (cpu_start m r s m')
  then have sw: "switches (sch m) r s" and "sched_inv s" "slot (slots (sch m)) NO_TASK = None"
    using start_switches [of "sch m" r s] start_inv [of "sch m"] inv_slot_NO_TASK by (auto simp: cpu_inv_def)
  then show ?case
    using perform_call [OF _ _ sw cpu_start.hyps(3)] perform_inv [OF cpu_start.hyps(3), of "sch m"] cpu_start.prems
    by (simp add: cpu_inv_def)
next
  case (cpu_call m c r s m')
  then have sw: "switches (sch m) r s" and "sched_inv s" "slot (slots (sch m)) NO_TASK = None"
    using kcall_switches [of "sch m" c r s] kcall_sched [of "sch m" c r s 0] sched_step_inv inv_slot_NO_TASK
    by (auto simp: cpu_inv_def)
  then show ?case
    using perform_call [OF _ _ sw cpu_call.hyps(3)] perform_inv [OF cpu_call.hyps(3), of "sch m"] cpu_call.prems
    by (simp add: cpu_inv_def)
next
  case (cpu_timer m m')
  then show ?case
    using timer_irq_inv timer_irq_sched by (auto simp: cpu_inv_def deliverable_def)
qed

lemma cpu_reachable_inv: "cpu_reachable tramp m \<Longrightarrow> cpu_inv m"
proof (induction rule: cpu_reachable.induct)
  case cpu_reach_boot
  show ?case
    by (simp add: cpu_inv_def irq_inv_def parked_def cpu_boot_def sched_inv_new)
qed (rule cpu_step_inv)

text \<open>C8. The timer interrupt is held by the task it preempted. In every reachable state IRQ0 is in service
  exactly if one suspended task is stopped inside the timer interrupt handler, and there is never a second
  one: as long as a preempted task waits to be scheduled again, no timer or keyboard interrupt is delivered,
  and delivery resumes with that task.\<close>

theorem preempted_task_holds_timer:
  assumes "cpu_reachable tramp m"
  shows "(in_service m \<longleftrightarrow> parked m \<noteq> {}) \<and> (\<forall>i \<in> parked m. parked m = {i} \<and> \<not> deliverable m)"
  using cpu_reachable_inv [OF assms] by (auto simp: cpu_inv_def irq_inv_def deliverable_def split: if_splits)

section \<open>How the clock stops\<close>

definition stopped :: "nat \<Rightarrow> 'f task \<Rightarrow> 'f cpu_state \<Rightarrow> bool" where
  "stopped i t m \<longleftrightarrow> cpu_inv m \<and> i \<in> parked m \<and> slot (slots (sch m)) i = Some t \<and> state t = Blocked \<and>
     (\<exists>w. block t = Sleep w \<and> TICKS (sch m) < w)"

lemma stopped_slot:
  assumes "stopped i t m" and "sched_step tramp (sch m) s" and "TICKS s = TICKS (sch m)"
  shows "slot (slots s) i = Some t"
  using blocked_step [OF assms(2), of i t] assms by (auto simp: stopped_def cpu_inv_def parked_def)

lemma stopped_perform:
  assumes stop: "stopped i t m" and step: "sched_step tramp (sch m) s" and ticks: "TICKS s = TICKS (sch m)"
    and sw: "switches (sch m) r s" and perf: "perform (InCall e) r (m\<lparr>sch := s\<rparr>) = Some m'" and inv: "cpu_inv m'"
  shows "stopped i t m' \<and> TICKS (sch m') = TICKS (sch m)"
proof -
  have slot: "slot (slots s) i = Some t"
    by (rule stopped_slot [OF stop step ticks])
  have no: "slot (slots (sch m)) NO_TASK = None" "irq_inv m" "i \<noteq> current (sch m)"
    using stop inv_slot_NO_TASK by (auto simp: stopped_def cpu_inv_def parked_def)
  have "i \<noteq> current s"
    using slot sw no stop by (cases r) (auto simp: switches_def stopped_def)
  then show ?thesis
    using perform_call [OF no(2,1) sw perf] slot stop ticks inv no(3) by (auto simp: stopped_def parked_def)
qed

lemma stopped_step:
  assumes "cpu_step tramp m m'" and "stopped i t m"
  shows "stopped i t m' \<and> TICKS (sch m') = TICKS (sch m)"
proof -
  have inv: "cpu_inv m'" "sched_inv (sch m)"
    using cpu_step_inv [OF assms(1)] assms(2) by (auto simp: stopped_def cpu_inv_def)
  show ?thesis
    using assms(1)
  proof cases
    case cpu_init
    with inv assms(2) show ?thesis
      by (simp add: stopped_def parked_def sched_init_def)
  next
    case (cpu_spawn ptr f k s l)
    then have "slot (slots s) i = Some t"
      using stopped_slot [OF assms(2) step_spawn] spawn_parked [OF inv(2)] by blast
    with inv assms(2) show ?thesis
      using spawn_parked [OF inv(2) cpu_spawn(2,3)] cpu_spawn by (simp add: stopped_def)
  next
    case (cpu_start r s)
    then show ?thesis
      using stopped_perform [OF assms(2) step_start] start_switches [OF inv(2)] inv by blast
  next
    case (cpu_call c r s)
    then show ?thesis
      using stopped_perform [OF assms(2) kcall_sched] kcall_switches [OF inv(2)] inv by blast
  next
    case cpu_timer
    then show ?thesis
      using assms(2) by (auto simp: stopped_def cpu_inv_def irq_inv_def deliverable_def)
  qed
qed

text \<open>C9. The clock can stop for good. A task that is preempted while it is marked as sleeping until a
  later tick (a \<open>sleep\<close> returns at once, with the mark still set, when no other task is ready) holds the
  timer interrupt and is itself waiting for the timer: whatever the other tasks do from then on, the tick
  counter keeps its value, no timer or keyboard interrupt is delivered, and the task never runs again.\<close>

theorem clock_stops_forever:
  assumes "cpu_reachable tramp m" and "i \<in> parked m" and "slot (slots (sch m)) i = Some t" and "state t = Blocked"
    and "block t = Sleep w" and "TICKS (sch m) < w" and "(cpu_step tramp)\<^sup>*\<^sup>* m m'"
  shows "\<not> deliverable m' \<and> TICKS (sch m') = TICKS (sch m) \<and> slot (slots (sch m')) i = Some t \<and> current (sch m') \<noteq> i"
proof -
  have "stopped i t m"
    using assms cpu_reachable_inv [OF assms(1)] by (simp add: stopped_def)
  with assms(7) have "stopped i t m' \<and> TICKS (sch m') = TICKS (sch m)"
    by (induction rule: rtranclp_induct) (use stopped_step in metis)+
  moreover from this have "\<not> deliverable m'" "current (sch m') \<noteq> i"
    by (auto simp: stopped_def cpu_inv_def irq_inv_def deliverable_def split: if_splits) (auto simp: parked_def)
  ultimately show ?thesis
    by (simp add: stopped_def)
qed

text \<open>How it comes about: two tasks, the first one sleeps for three ticks, then the second one, alone,
  sleeps for a hundred.\<close>

lemma two_spawned:
  obtains x n k and t u :: "unit task" where
    "cpu_reachable tramp \<lparr>sch = \<lparr>serial = x, slots = [Some t, Some u], current = NO_TASK, next_id = n, cursor = 0,
       ACTIVE = True, TICKS = 0, int_flag = True, kmem = k\<rparr>, in_service = False, points = (\<lambda>_. AtTrampoline)\<rparr>"
    "state t = Ready" "state u = Ready" "slice_left t = 2" "slice_left u = 2" "func t = Some ()" "func u = Some ()"
proof -
  let ?M = "\<lambda>s. \<lparr>sch = s, in_service = False, points = (\<lambda>_. AtTrampoline)\<rparr>"
  let ?s0 = "sched_init ((sched_new :: unit sched)\<lparr>int_flag := True\<rparr>)"
  have reach: "cpu_reachable tramp (?M ?s0)"
    using cpu_reach_step [OF cpu_reach_boot cpu_init, of tramp] by (simp add: cpu_boot_def)
  have spawned: "cpu_reachable tramp (?M s')"
    if "cpu_reachable tramp (?M s)" "spawn tramp ptr () s = Some (i, s')" "find_slot i s' = Some k" for s s' ptr i k
    using cpu_reach_step [OF that(1) cpu_spawn [OF _ that(3)], of ptr "()"] that(2) by (simp add: fun_upd_idem)
  have init: "next_id ?s0 = 1" "slots ?s0 = []" "ACTIVE ?s0" "TICKS ?s0 = 0" "current ?s0 = NO_TASK" "cursor ?s0 = 0"
      "int_flag ?s0"
    by (simp_all add: sched_init_def sched_new_def)
  obtain s1 where s1: "spawn tramp 0x10000 () ?s0 = Some (next_id ?s0, s1)"
    using spawn_Some [of "0x10000" ?s0 tramp "()"] init by auto
  then obtain t where t: "unat (next_id s1) = 2" "slots s1 = [Some t]" "state t = Ready" "slice_left t = 2" "func t = Some ()"
      "ACTIVE s1" "TICKS s1 = 0" "current s1 = NO_TASK" "cursor s1 = 0" "int_flag s1" "task_id t = 1"
    unfolding spawn_def by (rule add_task_eq) (use init in \<open>auto simp: place_def DEFAULT_SLICE_def\<close>)
  obtain s2 where s2: "spawn tramp 0x20000 () s1 = Some (next_id s1, s2)"
    using spawn_Some [of "0x20000" s1 tramp "()"] t by auto
  then obtain u where u: "slots s2 = [Some t, Some u]" "state u = Ready" "slice_left u = 2" "func u = Some ()"
      "ACTIVE s2" "TICKS s2 = 0" "current s2 = NO_TASK" "cursor s2 = 0" "int_flag s2" "task_id u = next_id s1"
    unfolding spawn_def by (rule add_task_eq) (use t in \<open>auto simp: place_def DEFAULT_SLICE_def\<close>)
  have "next_id s1 \<noteq> 1"
    using t(1) by auto
  then have "find_slot (next_id ?s0) s1 = Some 0" "find_slot (next_id s1) s2 = Some 1"
    using t u init by (simp_all add: find_slot_def has_id_def)
  with s1 s2 reach have "cpu_reachable tramp (?M s2)"
    using spawned by blast
  with that [of "serial s2" t u "next_id s2" "kmem s2"] show thesis
    using t u by (cases s2) simp
qed

lemma next_ready_two:
  assumes "slots s = [a, b]"
  shows "next_ready s =
    (if even (cursor s) then if is_ready a then Some 0 else if is_ready b then Some 1 else None
     else if is_ready b then Some 1 else if is_ready a then Some 0 else None)"
proof -
  have m: "cursor s mod 2 = (if even (cursor s) then 0 else 1)" "(cursor s + 1) mod 2 = (if even (cursor s) then 1 else 0)"
    by presburger+
  have "map (\<lambda>i. (cursor s + i) mod 2) [0..<2] = [cursor s mod 2, (cursor s + 1) mod 2]"
    by (simp add: upt_rec)
  then have "map (\<lambda>i. (cursor s + i) mod 2) [0..<2] = (if even (cursor s) then [0, 1] else [1, 0])"
    unfolding m by simp
  then show ?thesis
    using assms by (simp add: next_ready_def numeral_2_eq_2 del: upt_Suc)
qed

lemmas run_simps = start_def next_ready_two is_ready_def prep_switch_def ctx_ptr_def get_at_def slot_Cons NO_TASK_def
  arrive_def current_task_body_def take_func_def sleep_def block_current_def schedule_def demote_current_def demote_def
  timer_irq_def timer_interrupt_handler_def timer_tick_def tick_def charge_slice_def wake_sleeper_def end_of_interrupt_def
  iret_def resume_def checked_add_def DEFAULT_SLICE_def deliverable_def word_le_nat_alt Let_def

lemma clock_stopped_reachable:
  "\<exists>(m :: unit cpu_state) t. cpu_reachable tramp m \<and> 1 \<in> parked m \<and> slot (slots (sch m)) 1 = Some t \<and> state t = Blocked \<and>
    block t = Sleep 100 \<and> TICKS (sch m) = 3"
proof -
  obtain x n k and t u :: "unit task" where reach:
    "cpu_reachable tramp \<lparr>sch = \<lparr>serial = x, slots = [Some t, Some u], current = NO_TASK, next_id = n, cursor = 0,
       ACTIVE = True, TICKS = 0, int_flag = True, kmem = k\<rparr>, in_service = False, points = (\<lambda>_. AtTrampoline)\<rparr>"
    and tu: "state t = Ready" "state u = Ready" "slice_left t = 2" "slice_left u = 2" "func t = Some ()" "func u = Some ()"
    by (rule two_spawned)
  let ?M = "\<lambda>sl cur cs tk b p. \<lparr>sch = \<lparr>serial = x, slots = sl, current = cur, next_id = n, cursor = cs,
       ACTIVE = True, TICKS = tk, int_flag = True, kmem = k\<rparr>, in_service = b, points = p\<rparr>"
  let ?p1 = "(\<lambda>_. AtTrampoline)(BootCtx := InCall True)"
  let ?p2 = "?p1(TaskCtx 0 := InCall True)"
  let ?A = "\<lambda>st b. Some (t\<lparr>state := st, block := b, func := None\<rparr>)"
  let ?B = "\<lambda>st b c. Some (u\<lparr>state := st, block := b, slice_left := c, func := None\<rparr>)"
  note step = cpu_reach_step [of tramp]
  have "cpu_reachable tramp (?M [?A Running (block t), Some u] 0 1 0 False ?p1)"
    by (rule step [OF reach cpu_start]) (use tu in \<open>simp add: run_simps\<close>)+
  then have "cpu_reachable tramp (?M [?A Blocked (Sleep 3), ?B Running (block u) 2] 1 2 0 False ?p2)"
    by (rule step [OF _ cpu_call [where c = "SleepFor 3"]]) (use tu in \<open>simp add: run_simps\<close>)+
  then have "cpu_reachable tramp (?M [?A Blocked (Sleep 3), ?B Blocked (Sleep 100) 2] 1 2 0 False ?p2)"
    by (rule step [OF _ cpu_call [where c = "SleepFor 100"]]) (use tu in \<open>simp add: run_simps\<close>)+
  then have "cpu_reachable tramp (?M [?A Blocked (Sleep 3), ?B Blocked (Sleep 100) 1] 1 2 1 False ?p2)"
    by (rule step [OF _ cpu_timer]) (simp add: run_simps)+
  then have "cpu_reachable tramp (?M [?A Blocked (Sleep 3), ?B Blocked (Sleep 100) 0] 1 2 2 False ?p2)"
    by (rule step [OF _ cpu_timer]) (simp add: run_simps)+
  then have "cpu_reachable tramp (?M [?A Running NotBlocked, ?B Blocked (Sleep 100) 2] 0 1 3 True (?p2(TaskCtx 1 := InHandler)))"
    by (rule step [OF _ cpu_timer]) (simp add: run_simps)+
  moreover have "1 \<in> parked (?M [?A Running NotBlocked, ?B Blocked (Sleep 100) 2] 0 1 3 True (?p2(TaskCtx 1 := InHandler)))"
    by (simp add: parked_def slot_Cons)
  ultimately show ?thesis
    by (intro exI conjI) (assumption | simp add: slot_Cons)+
qed

theorem clock_stops_forever_witness:
  "\<exists>(m :: unit cpu_state) t. cpu_reachable 0x401000 m \<and> 1 \<in> parked m \<and> slot (slots (sch m)) 1 = Some t \<and>
    (\<forall>m'. (cpu_step 0x401000)\<^sup>*\<^sup>* m m' \<longrightarrow> TICKS (sch m') = 3 \<and> \<not> deliverable m' \<and> slot (slots (sch m')) 1 = Some t)"
proof -
  obtain m :: "unit cpu_state" and t where m: "cpu_reachable 0x401000 m" "1 \<in> parked m" "slot (slots (sch m)) 1 = Some t"
      "state t = Blocked" "block t = Sleep 100" and ticks: "TICKS (sch m) = 3"
    using clock_stopped_reachable by blast
  have "TICKS (sch m) < 100"
    by (simp add: ticks word_less_nat_alt)
  then show ?thesis
    using clock_stops_forever [OF m] m ticks by metis
qed

theorem preempted_task_holds_timer_witness:
  "\<exists>m :: unit cpu_state. cpu_reachable 0x401000 m \<and> parked m = {1} \<and> in_service m \<and> \<not> deliverable m"
  using clock_stopped_reachable [of "0x401000"] preempted_task_holds_timer by blast

end
