(* ===== verification/Platform.thy ===== *)
theory Platform
  imports User_Run
begin

unbundle bit_operations_syntax

text \<open>
  The platform set-up of the boot: segments and task-state segment (\<open>gdt.rs\<close>), interrupt
  descriptors, interrupt controller and exception handlers (\<open>interrupts.rs\<close>), the interval timer
  (\<open>timer.rs\<close>) and the control register of \<open>syscall::init\<close>.

  The descriptor table type of the \<open>x86_64\<close> crate and the \<open>ChainedPics\<close> type of the \<open>pic8259\<close> crate
  are parameters: \<open>gdt_append\<close> with the empty table \<open>new\<close>, and the operations in \<open>pic_api\<close>. What the
  kernel asks for is kept as data: the gates of the interrupt descriptor table as requested from the
  crate, port writes as a log, and the registers that the privileged instructions load as fields of
  the machine. A handler that panics ends in the state in which \<open>main.rs\<close> halts (\<open>Inl\<close>), one that
  returns in \<open>Inr\<close>.
\<close>

section \<open>State\<close>

record tss =
  privilege_stack_table :: "u64 list"
  interrupt_stack_table :: "u64 list"

datatype descriptor = KernelCodeSegment | KernelDataSegment | UserDataSegment | UserCodeSegment | TssSegment tss

record selectors =
  sel_code :: u16
  sel_data :: u16
  sel_user_data :: u16
  sel_user_code :: u16
  sel_tss :: u16

datatype handler = BreakpointHandler | DoubleFaultHandler | PageFaultHandler | GeneralProtectionHandler
  | TimerInterruptHandler | KeyboardInterruptHandler | RawHandler u64

record gate =
  g_handler :: handler
  g_stack_index :: "u16 option"
  g_ring3 :: bool

record ('d, 'g, 'p) board = "'d mach" +
  GDTR :: "'g option"
  TR :: u16
  IDTR :: "(byte \<times> gate) list"
  PIC :: 'p
  port_log :: "(u16 \<times> byte) list"
  CR2 :: u64
  CR4 :: u64

section \<open>Segments and stacks\<close>

definition DOUBLE_FAULT_IST_INDEX :: u16 where "DOUBLE_FAULT_IST_INDEX = 0"
definition STACK_SIZE :: nat where "STACK_SIZE = 4096 * 5"
definition PRIV_STACK_SIZE :: nat where "PRIV_STACK_SIZE = 4096 * 4"

text \<open>The addresses of the two static stacks are the linker's.\<close>

definition TSS :: "u64 \<Rightarrow> u64 \<Rightarrow> tss option" where
  "TSS DOUBLE_FAULT_STACK SYSCALL_STACK = do {
     let t = \<lparr>privilege_stack_table = replicate 3 0, interrupt_stack_table = replicate 7 0\<rparr>;
     df \<leftarrow> virt_addr DOUBLE_FAULT_STACK;
     df \<leftarrow> checked_add df (word_of_nat STACK_SIZE);
     df \<leftarrow> virt_addr df;
     let t = t\<lparr>interrupt_stack_table := (interrupt_stack_table t)[unat DOUBLE_FAULT_IST_INDEX := df]\<rparr>;
     sc \<leftarrow> virt_addr SYSCALL_STACK;
     sc \<leftarrow> checked_add sc (word_of_nat PRIV_STACK_SIZE);
     sc \<leftarrow> virt_addr sc;
     Some (t\<lparr>privilege_stack_table := (privilege_stack_table t)[0 := sc]\<rparr>)
   }"

definition GDT :: "(descriptor \<Rightarrow> 'g \<Rightarrow> (u16 \<times> 'g) option) \<Rightarrow> 'g \<Rightarrow> tss \<Rightarrow> ('g \<times> selectors) option" where
  "GDT gdt_append new t = do {
     (code, g) \<leftarrow> gdt_append KernelCodeSegment new;
     (data, g) \<leftarrow> gdt_append KernelDataSegment g;
     (user_data, g) \<leftarrow> gdt_append UserDataSegment g;
     (user_code, g) \<leftarrow> gdt_append UserCodeSegment g;
     (ts, g) \<leftarrow> gdt_append (TssSegment t) g;
     Some (g, \<lparr>sel_code = code, sel_data = data, sel_user_data = user_data, sel_user_code = user_code, sel_tss = ts\<rparr>)
   }"

definition user_code_selector :: "selectors \<Rightarrow> u16" where
  "user_code_selector sel = sel_user_code sel OR 0x3"

definition user_data_selector :: "selectors \<Rightarrow> u16" where
  "user_data_selector sel = sel_user_data sel OR 0x3"

definition kernel_code_selector :: "selectors \<Rightarrow> u16" where
  "kernel_code_selector sel = sel_code sel"

definition gdt_init ::
  "(descriptor \<Rightarrow> 'g \<Rightarrow> (u16 \<times> 'g) option) \<Rightarrow> 'g \<Rightarrow> u64 \<Rightarrow> u64 \<Rightarrow> ('d, 'g, 'p) board \<Rightarrow>
     (selectors \<times> ('d, 'g, 'p) board) option" where
  "gdt_init gdt_append new DOUBLE_FAULT_STACK SYSCALL_STACK b = do {
     t \<leftarrow> TSS DOUBLE_FAULT_STACK SYSCALL_STACK;
     (g, sel) \<leftarrow> GDT gdt_append new t;
     let b = b\<lparr>GDTR := Some g\<rparr>;
     let b = b\<lparr>m_cs := ucast (sel_code sel)\<rparr>;
     let b = b\<lparr>m_ss := ucast (sel_data sel)\<rparr>;
     let b = b\<lparr>TR := sel_tss sel, RSP0 := privilege_stack_table t ! 0\<rparr>;
     Some (sel, println ''[gdt] GDT + TSS loaded (user CS={:#x} SS={:#x}, RSP0 ready)''
       [ANum (unat (user_code_selector sel)), ANum (unat (user_data_selector sel))] b)
   }"

section \<open>Interrupt descriptors and controller\<close>

definition PIC_1_OFFSET :: byte where "PIC_1_OFFSET = 32"
definition PIC_2_OFFSET :: byte where "PIC_2_OFFSET = 40"
definition TIMER_INTERRUPT_INDEX :: byte where "TIMER_INTERRUPT_INDEX = PIC_1_OFFSET"
definition KEYBOARD_INTERRUPT_INDEX :: byte where "KEYBOARD_INTERRUPT_INDEX = PIC_1_OFFSET + 1"

record 'p pic_api =
  initialize :: "'p \<Rightarrow> 'p"
  read_masks :: "'p \<Rightarrow> byte \<times> byte"
  write_masks :: "byte \<Rightarrow> byte \<Rightarrow> 'p \<Rightarrow> 'p"
  notify_end_of_interrupt :: "byte \<Rightarrow> 'p \<Rightarrow> 'p"

definition set_handler_fn :: "handler \<Rightarrow> gate" where
  "set_handler_fn h = \<lparr>g_handler = h, g_stack_index = None, g_ring3 = False\<rparr>"

text \<open>The gates, in the order in which the code sets them.\<close>

definition IDT :: "u64 \<Rightarrow> (byte \<times> gate) list option" where
  "IDT entry_addr = do {
     e \<leftarrow> virt_addr entry_addr;
     Some [(3, set_handler_fn BreakpointHandler),
       (8, (set_handler_fn DoubleFaultHandler)\<lparr>g_stack_index := Some DOUBLE_FAULT_IST_INDEX\<rparr>),
       (14, set_handler_fn PageFaultHandler),
       (13, set_handler_fn GeneralProtectionHandler),
       (TIMER_INTERRUPT_INDEX, set_handler_fn TimerInterruptHandler),
       (KEYBOARD_INTERRUPT_INDEX, set_handler_fn KeyboardInterruptHandler),
       (0x80, (set_handler_fn (RawHandler e))\<lparr>g_ring3 := True\<rparr>)]
   }"

definition interrupts_init ::
  "'p pic_api \<Rightarrow> u64 \<Rightarrow> ('d, 'g, 'p) board \<Rightarrow> ('d, 'g, 'p) board option" where
  "interrupts_init api entry_addr b = do {
     idt \<leftarrow> IDT entry_addr;
     let b = b\<lparr>IDTR := idt\<rparr>;
     let pics = initialize api (PIC b);
     let masks = read_masks api pics;
     let pics = write_masks api (fst masks AND NOT 0x03) (snd masks) pics;
     let b = b\<lparr>m_rflags := m_rflags b OR 0x200, PIC := pics\<rparr>;
     Some (println ''[int] IDT loaded, PIC remapped, interrupts enabled'' [] b)
   }"

section \<open>Exceptions\<close>

record stack_frame =
  instruction_pointer :: u64
  code_segment :: u64
  cpu_flags :: u64
  stack_pointer :: u64
  stack_segment :: u64

definition frame_arg :: "stack_frame \<Rightarrow> fmt_arg" where
  "frame_arg f = AExt ''InterruptStackFrame'' (map (\<lambda>v. ANum (unat v))
     [instruction_pointer f, code_segment f, cpu_flags f, stack_pointer f, stack_segment f])"

text \<open>The panic handler: report and halt.\<close>

definition panic_handler :: "string \<Rightarrow> fmt_arg list \<Rightarrow> 'a console_scheme \<Rightarrow> 'a console_scheme" where
  "panic_handler msg args s =
     println ''{}'' [AExt ''PanicInfo'' (AStr (str msg) # args)] (println ([CHR 0x0A] @ ''!!! KERNEL PANIC !!!'') [] s)"

definition breakpoint_handler :: "stack_frame \<Rightarrow> 'a console_scheme \<Rightarrow> 'a console_scheme" where
  "breakpoint_handler f s = println ''[int] BREAKPOINT (int3) hit: {:#?}'' [frame_arg f] s"

definition double_fault_handler :: "stack_frame \<Rightarrow> u64 \<Rightarrow> 'a console_scheme \<Rightarrow> 'a console_scheme" where
  "double_fault_handler f error_code s =
     panic_handler ''[int] DOUBLE FAULT: {:#?} error_code={error_code:#x}'' [frame_arg f, ANum (unat error_code)] s"

definition general_protection_handler :: "stack_frame \<Rightarrow> u64 \<Rightarrow> 'a console_scheme \<Rightarrow> 'a console_scheme" where
  "general_protection_handler f error_code s =
     panic_handler ''general protection fault'' []
       (println ''[int] GENERAL PROTECTION FAULT err={error_code:#x}: {:#?}'' [ANum (unat error_code), frame_arg f] s)"

definition page_fault_handler :: "stack_frame \<Rightarrow> u64 \<Rightarrow> ('d, 'g, 'p) board \<Rightarrow> ('d, 'g, 'p) board" where
  "page_fault_handler f error_code b =
     panic_handler ''page fault'' []
       (println (''[int] PAGE FAULT at {:#x} error={:?}'' @ [CHR 0x0A] @ ''{:#?}'')
          [ANum (unat (CR2 b)), AExt ''PageFaultErrorCode'' [ANum (unat error_code)], frame_arg f] b)"

definition keyboard_irq_handler ::
  "'p pic_api \<Rightarrow> (byte \<Rightarrow> 'd \<Rightarrow> 'e option \<times> 'd) \<Rightarrow> ('e \<Rightarrow> 'd \<Rightarrow> decoded_key option \<times> 'd) \<Rightarrow> byte \<Rightarrow>
     ('d, 'g, 'p) board \<Rightarrow> ('d, 'g, 'p) board" where
  "keyboard_irq_handler api add_byte process_keyevent port60 b =
     (let b = keyboard_interrupt_handler add_byte process_keyevent port60 b
      in b\<lparr>PIC := notify_end_of_interrupt api KEYBOARD_INTERRUPT_INDEX (PIC b)\<rparr>)"

text \<open>An exception raised in the kernel, through its gate; \<open>None\<close> for a vector without an exception handler.\<close>

definition raise_exception ::
  "byte \<Rightarrow> stack_frame \<Rightarrow> u64 \<Rightarrow> ('d, 'g, 'p) board \<Rightarrow> (('d, 'g, 'p) board + ('d, 'g, 'p) board) option" where
  "raise_exception vector f error_code b =
     (case map_of (IDTR b) vector of
        None \<Rightarrow> None
      | Some g \<Rightarrow>
          (case g_handler g of
             BreakpointHandler \<Rightarrow> Some (Inr (breakpoint_handler f b))
           | DoubleFaultHandler \<Rightarrow> Some (Inl (double_fault_handler f error_code b))
           | GeneralProtectionHandler \<Rightarrow> Some (Inl (general_protection_handler f error_code b))
           | PageFaultHandler \<Rightarrow> Some (Inl (page_fault_handler f error_code b))
           | _ \<Rightarrow> None))"

section \<open>Timer and control register\<close>

definition PIT_CHANNEL0 :: u16 where "PIT_CHANNEL0 = 0x40"
definition PIT_COMMAND :: u16 where "PIT_COMMAND = 0x43"
definition PIT_BASE_FREQUENCY :: u64 where "PIT_BASE_FREQUENCY = 1193182"

definition timer_init :: "('d, 'g, 'p) board \<Rightarrow> ('d, 'g, 'p) board" where
  "timer_init b =
     (let divisor = ucast (PIT_BASE_FREQUENCY div HZ) :: u16;
          b = b\<lparr>port_log := port_log b @
                [(PIT_COMMAND, 0x36), (PIT_CHANNEL0, ucast divisor), (PIT_CHANNEL0, ucast (drop_bit 8 divisor))]\<rparr>
      in println ''[timer] PIT channel 0 programmed to {} Hz (divisor={})'' [ANum (unat HZ), ANum (unat divisor)] b)"

definition syscall_init :: "('d, 'g, 'p) board \<Rightarrow> ('d, 'g, 'p) board" where
  "syscall_init b =
     println ''[syscall] int 0x80 gate installed, SMAP disabled'' [] (b\<lparr>CR4 := CR4 b AND NOT (push_bit 21 1)\<rparr>)"

section \<open>The privilege boundary\<close>

text \<open>What the crate documents of its descriptor table: eight entries of which the first is the null
  descriptor, a task-state segment takes two, and the selector is the index with the requested
  privilege level in the low bits (left zero by older versions).\<close>

fun entries_of :: "descriptor \<Rightarrow> nat" where
  "entries_of (TssSegment t) = 2"
| "entries_of d = 1"

fun dpl :: "descriptor \<Rightarrow> u16" where
  "dpl UserDataSegment = 3"
| "dpl UserCodeSegment = 3"
| "dpl d = 0"

definition gdt_ok :: "(descriptor \<Rightarrow> 'g \<Rightarrow> (u16 \<times> 'g) option) \<Rightarrow> ('g \<Rightarrow> nat) \<Rightarrow> 'g \<Rightarrow> bool" where
  "gdt_ok gdt_append entries new \<longleftrightarrow> entries new = 1 \<and>
     (\<forall>d g. entries g + entries_of d \<le> 8 \<longrightarrow>
        (\<exists>rpl g'. gdt_append d g = Some (word_of_nat (8 * entries g) OR rpl, g') \<and> entries g' = entries g + entries_of d \<and> rpl \<in> {0, dpl d}))"

lemma gdt_ok_append:
  assumes "gdt_ok gdt_append entries new" and "entries g = n" and "n + entries_of d \<le> 8"
  obtains rpl g' where "gdt_append d g = Some (word_of_nat (8 * n) OR rpl, g')" "entries g' = n + entries_of d" "rpl \<in> {0, dpl d}"
  using assms unfolding gdt_ok_def by metis

lemma GDT_selectors:
  assumes "gdt_ok gdt_append entries new"
  obtains g sel where "GDT gdt_append new t = Some (g, sel)" "sel_code sel = 0x08" "sel_data sel = 0x10"
    "user_data_selector sel = 0x1b" "user_code_selector sel = 0x23" "sel_tss sel = 0x28"
proof -
  note ap = gdt_ok_append [OF assms]
  have "entries new = 1"
    using assms by (simp add: gdt_ok_def)
  then obtain r1 g1 where 1: "gdt_append KernelCodeSegment new = Some (word_of_nat (8 * 1) OR r1, g1)" "entries g1 = 2" "r1 = 0"
    by (rule ap [of new 1 KernelCodeSegment]) auto
  obtain r2 g2 where 2: "gdt_append KernelDataSegment g1 = Some (word_of_nat (8 * 2) OR r2, g2)" "entries g2 = 3" "r2 = 0"
    by (rule ap [OF 1(2), of KernelDataSegment]) auto
  obtain r3 g3 where 3: "gdt_append UserDataSegment g2 = Some (word_of_nat (8 * 3) OR r3, g3)" "entries g3 = 4" "r3 \<in> {0, 3}"
    by (rule ap [OF 2(2), of UserDataSegment]) auto
  obtain r4 g4 where 4: "gdt_append UserCodeSegment g3 = Some (word_of_nat (8 * 4) OR r4, g4)" "entries g4 = 5" "r4 \<in> {0, 3}"
    by (rule ap [OF 3(2), of UserCodeSegment]) auto
  obtain r5 g5 where 5: "gdt_append (TssSegment t) g4 = Some (word_of_nat (8 * 5) OR r5, g5)" "r5 = 0"
    by (rule ap [OF 4(2), of "TssSegment t"]) auto
  show thesis
    by (rule that [of g5 "\<lparr>sel_code = word_of_nat (8 * 1) OR r1, sel_data = word_of_nat (8 * 2) OR r2,
          sel_user_data = word_of_nat (8 * 3) OR r3, sel_user_code = word_of_nat (8 * 4) OR r4, sel_tss = word_of_nat (8 * 5) OR r5\<rparr>"])
      (use 1 2 3 4 5 in \<open>auto simp: GDT_def user_data_selector_def user_code_selector_def\<close>)
qed

lemma TSS_stacks:
  assumes "unat df + STACK_SIZE < 2 ^ 47" and "unat sc + PRIV_STACK_SIZE < 2 ^ 47"
  shows "TSS df sc = Some \<lparr>privilege_stack_table = [sc + 16384, 0, 0],
    interrupt_stack_table = [df + 20480, 0, 0, 0, 0, 0, 0]\<rparr>"
proof -
  have "unat (df + 20480) = unat df + 20480" "unat (sc + 16384) = unat sc + 16384"
    using assms by (simp_all add: STACK_SIZE_def PRIV_STACK_SIZE_def unat_word_ariths)
  moreover have "replicate 3 (0 :: u64) = [0, 0, 0]" "replicate 7 (0 :: u64) = [0, 0, 0, 0, 0, 0, 0]"
    by (simp_all add: numeral_eq_Suc)
  ultimately show ?thesis
    using assms
    by (simp add: TSS_def virt_addr_def checked_add_def STACK_SIZE_def PRIV_STACK_SIZE_def DOUBLE_FAULT_IST_INDEX_def Let_def)
qed

lemma trap_stack_inside:
  assumes "RSP0 m = sc + 16384" and "unat sc + 16384 < 2 ^ 47"
  shows "trap_stack m \<subseteq> addrs sc 16384"
proof -
  define k where "k = (unat sc + 16384) div 16 * 16 - 168 - unat sc"
  have k: "k + 168 \<le> 16384" "unat sc + k + 168 = (unat sc + 16384) div 16 * 16"
    by (simp_all add: k_def)
  define top where "top = (sc + 16384) AND NOT 15"
  have "unat top = unat sc + k + 168"
    using assms(2) unfolding k(2) by (simp add: top_def align_down unat_word_ariths)
  moreover have "top = word_of_nat (unat top)"
    by simp
  ultimately have "(sc + 16384) AND NOT 15 = word_of_nat (unat sc + k + 168)"
    by (simp only: top_def)
  then have "((sc + 16384) AND NOT 15) - 168 = sc + word_of_nat k"
    by simp
  then show ?thesis
    using addrs_sub [of k 168 16384 sc] k(1) by (simp add: trap_stack_def assms(1))
qed

lemma gdt_init_state:
  fixes b :: "('d, 'g, 'p) board"
  assumes "gdt_ok gdt_append entries new" and "unat df + STACK_SIZE < 2 ^ 47" and "unat sc + PRIV_STACK_SIZE < 2 ^ 47"
  obtains sel g x y where "gdt_init gdt_append new df sc b = Some (sel, b\<lparr>serial := serial b @ [Print x y], m_cs := 0x08, m_ss := 0x10,
      RSP0 := sc + 16384, GDTR := Some g, TR := 0x28\<rparr>)"
    "kernel_code_selector sel = 0x08" "user_data_selector sel = 0x1b" "user_code_selector sel = 0x23"
proof -
  obtain g sel where sel: "GDT gdt_append new \<lparr>privilege_stack_table = [sc + 16384, 0, 0],
      interrupt_stack_table = [df + 20480, 0, 0, 0, 0, 0, 0]\<rparr> = Some (g, sel)" "sel_code sel = 0x08" "sel_data sel = 0x10"
    "user_data_selector sel = 0x1b" "user_code_selector sel = 0x23" "sel_tss sel = 0x28"
    by (rule GDT_selectors [OF assms(1)])
  show thesis
    by (rule that [where sel = sel and g = g and x = "''[gdt] GDT + TSS loaded (user CS={:#x} SS={:#x}, RSP0 ready)'' @ [CHR 0x0A]"
          and y = "[ANum 0x23, ANum 0x1b]"])
      (cases b; use sel TSS_stacks [OF assms(2,3)] in
        \<open>simp add: gdt_init_def kernel_code_selector_def println_def print_def Let_def\<close>)+
qed

lemma IDT_gates:
  assumes "IDT entry = Some idt"
  shows "distinct (map fst idt)" "map_of idt v = Some g \<Longrightarrow> g_ring3 g \<longleftrightarrow> v = 0x80"
    "map_of idt 0x80 = Some \<lparr>g_handler = RawHandler entry, g_stack_index = None, g_ring3 = True\<rparr>"
    "map_of idt 3 = Some \<lparr>g_handler = BreakpointHandler, g_stack_index = None, g_ring3 = False\<rparr>"
    "map_of idt 8 = Some \<lparr>g_handler = DoubleFaultHandler, g_stack_index = Some 0, g_ring3 = False\<rparr>"
  using assms
  by (auto simp: IDT_def bind_eq_Some_conv virt_addr_def set_handler_fn_def TIMER_INTERRUPT_INDEX_def KEYBOARD_INTERRUPT_INDEX_def
      PIC_1_OFFSET_def DOUBLE_FAULT_IST_INDEX_def split: if_splits)

lemma interrupts_init_state:
  fixes b :: "('d, 'g, 'p) board"
  assumes "unat entry < 2 ^ 47"
  obtains idt pics x y where "IDT entry = Some idt" "interrupts_init api entry b =
      Some (b\<lparr>serial := serial b @ [Print x y], m_rflags := m_rflags b OR 0x200, IDTR := idt, PIC := pics\<rparr>)"
proof -
  obtain idt where idt: "IDT entry = Some idt"
    using assms by (auto simp: IDT_def virt_addr_def)
  let ?p = "initialize api (PIC b)"
  show thesis
    by (rule that [OF idt, where x = "''[int] IDT loaded, PIC remapped, interrupts enabled'' @ [CHR 0x0A]" and y = "[]"
          and pics = "write_masks api (fst (read_masks api ?p) AND NOT 0x03) (snd (read_masks api ?p)) ?p"])
      (cases b, simp add: interrupts_init_def idt println_def print_def Let_def)
qed


text \<open>A table that is the list of its entries.\<close>

definition list_append :: "descriptor \<Rightarrow> descriptor list \<Rightarrow> (u16 \<times> descriptor list) option" where
  "list_append d g =
     (if length g + entries_of d \<le> 8 then Some (word_of_nat (8 * length g) OR dpl d, g @ replicate (entries_of d) d) else None)"

lemma list_gdt_ok: "gdt_ok list_append length [KernelCodeSegment]"
  by (simp add: gdt_ok_def list_append_def) blast

definition demo_board :: "(unit, descriptor list, byte \<times> byte) board" where
  "demo_board = mach.extend boot_mach
     (board.fields None 0 [] (0xff, 0xff) [] 0 0)"

definition demo_pics :: "(byte \<times> byte) pic_api" where
  "demo_pics = \<lparr>initialize = id, read_masks = id, write_masks = (\<lambda>a b _. (a, b)), notify_end_of_interrupt = (\<lambda>_ p. p)\<rparr>"


end
