(* ===== verification/Boot.thy ===== *)
theory Boot
  imports Platform Interrupts
begin

text \<open>
  \<open>kernel_main\<close> of \<open>main.rs\<close>: the initialisation of every component in the order of the code, the self
  tests, the two user programs, and the hand-over to the scheduler.

  What surrounds the kernel is the record \<open>environment\<close>: the crates, the addresses the linker and the
  allocator choose, the device, the embedded files, and the execution of a user program. \<open>k_grab\<close> and
  \<open>k_release\<close> are what the byte allocator does to its counters for the two vectors of the heap test.
  The scheduler's state is threaded beside the machine; timer interrupts during the boot only count
  ticks, as no task is current yet, and are not represented. A panic is \<open>None\<close>.
\<close>

record ('d, 'e, 'g, 'p) environment =
  k_gdt_append :: "descriptor \<Rightarrow> 'g \<Rightarrow> (u16 \<times> 'g) option"
  k_gdt_new :: 'g
  k_df_stack :: u64
  k_sc_stack :: u64
  k_entry :: u64
  k_pics :: "'p pic_api"
  k_map_to :: map_to_fn
  k_grab :: "('d, 'g, 'p) board \<Rightarrow> ('d, 'g, 'p) board"
  k_release :: "('d, 'g, 'p) board \<Rightarrow> ('d, 'g, 'p) board"
  k_int3_frame :: stack_frame
  k_initrd :: "byte list"
  k_var :: u64
  k_after1 :: u64
  k_after2 :: u64
  k_user :: "('d, 'g, 'p) board \<Rightarrow> ('d, 'g, 'p) board option"
  k_user_elf :: "byte list"
  k_vfs_elf :: "byte list"
  k_dev :: device
  k_add_byte :: "byte \<Rightarrow> 'd \<Rightarrow> 'e option \<times> 'd"
  k_process :: "'e \<Rightarrow> 'd \<Rightarrow> decoded_key option \<times> 'd"
  k_trampoline :: u64
  k_stacks :: "u64 \<times> u64 \<times> u64 \<times> u64"

text \<open>The bodies of the tasks that \<open>phase4_demo\<close> spawns.\<close>

datatype demo_body = ClockTask | ManagerTask | ArpTask | ShellTask | WorkerTask string | StressTask

text \<open>What these bodies do, as the calls they make for what they observe: the ticks they read, the
  identifiers \<open>spawn\<close> returned, the figures of the allocators.\<close>

datatype task_call = Say string "fmt_arg list" | CallYield | CallSleep u64 | CallSpawn demo_body | CallJoin u32

text \<open>The clock task, over the ticks it reads: its calls and whether it has finished.\<close>

fun clock_task :: "u64 list \<Rightarrow> u64 \<Rightarrow> nat \<Rightarrow> (task_call list \<times> bool) option" where
  "clock_task ts prev reported =
     (if reported < 3 then
        (case ts of
           [] \<Rightarrow> Some ([], False)
         | t # ts \<Rightarrow> do {
             d \<leftarrow> checked_sub t prev;
             if HZ \<le> d then do {
               (cs, fin) \<leftarrow> clock_task ts t (reported + 1);
               Some (Say ''tick={t}'' [ANum (unat t)] # CallYield # cs, fin)
             } else do {
               (cs, fin) \<leftarrow> clock_task ts prev reported;
               Some (CallYield # cs, fin)
             }
           })
      else Some ([Say ''[clock] done'' []], True))"

declare clock_task.simps [simp del]

definition worker :: "string \<Rightarrow> (nat \<Rightarrow> u64) \<Rightarrow> task_call list" where
  "worker name ticks_at =
     concat (map (\<lambda>i. [Say ''[{name}] iter {i} (tick={})'' [AStr (str name), ANum i, ANum (unat (ticks_at i))], CallSleep 3]) [1..<6])
     @ [Say ''[{name}] finished'' [AStr (str name)]]"

definition stress_body :: "task_call list" where
  "stress_body = [CallYield]"

definition one_round :: "u32 list \<Rightarrow> task_call list" where
  "one_round ids = map (\<lambda>_. CallSpawn StressTask) [0..<32] @ map CallJoin ids @ [CallSleep 2]"

definition stress_test :: "u32 list \<Rightarrow> nat \<times> nat \<Rightarrow> u32 list \<Rightarrow> nat \<times> nat \<Rightarrow> task_call list" where
  "stress_test ids1 r1 ids2 r2 =
     (let (heap1, frames1) = r1; (heap2, frames2) = r2;
          ok = heap2 \<le> heap1 + 1024 \<and> frames2 = frames1
      in one_round ids1 @ one_round ids2 @
         [Say ''[stress] round1 heap={} frames={} | round2 heap={} frames={} ({})''
            [ANum heap1, ANum frames1, ANum heap2, ANum frames2, AStr (str (if ok then ''stable'' else ''LEAK?''))]])"

definition manager_task :: "u32 \<times> u32 \<times> u32 \<Rightarrow> nat \<Rightarrow> task_call list \<Rightarrow> task_call list" where
  "manager_task ids alive stress =
     (case ids of (a, b, c) \<Rightarrow>
        [CallSpawn (WorkerTask ''t1''), CallSpawn (WorkerTask ''t2''), CallSpawn (WorkerTask ''t3''), CallJoin a, CallJoin b, CallJoin c,
         Say ''[manager] joined all workers; alive={}'' [ANum alive]]
        @ stress @ [Say ''[manager] Phase 4 demo complete'' []])"

definition heap_self_test ::
  "(('d, 'a) kernel_scheme \<Rightarrow> ('d, 'a) kernel_scheme) \<Rightarrow> (('d, 'a) kernel_scheme \<Rightarrow> ('d, 'a) kernel_scheme) \<Rightarrow>
     ('d, 'a) kernel_scheme \<Rightarrow> ('d, 'a) kernel_scheme" where
  "heap_self_test grab release s =
     (let s = grab s;
          data = (replicate 4096 (0 :: byte))[4095 := 0xAB];
          v = map (\<lambda>i. i * i) [0..<100]
      in release (println ''[mem-test] heap used={} KiB free={} KiB; data[4095]={:#x} v[99]={}''
           [ANum (used_bytes s div 1024), ANum (free_bytes s div 1024), ANum (unat (data ! 4095)), ANum (v ! 99)] s))"

definition phase7_setup :: "device \<Rightarrow> map_to_fn \<Rightarrow> 'a e1000_scheme \<Rightarrow> 'a e1000_scheme option" where
  "phase7_setup dev map_to s = e1000_init dev map_to (println ''[main] Phase 7: initializing e1000 NIC'' [] s)"

definition phase4_demo :: "u64 \<Rightarrow> u64 \<times> u64 \<times> u64 \<times> u64 \<Rightarrow> demo_body sched \<Rightarrow> (switch_req \<times> demo_body sched) option" where
  "phase4_demo tramp ptrs q =
     (case ptrs of (p1, p2, p3, p4) \<Rightarrow> do {
        (_, q) \<leftarrow> spawn tramp p1 ClockTask q;
        (_, q) \<leftarrow> spawn tramp p2 ManagerTask q;
        (_, q) \<leftarrow> spawn tramp p3 ArpTask q;
        (_, q) \<leftarrow> spawn tramp p4 ShellTask q;
        start q
      })"

text \<open>\<open>kernel_main\<close> up to the end of the second user program.\<close>

definition kernel_boot ::
  "('d, 'e, 'g, 'p) environment \<Rightarrow> boot_info \<Rightarrow> u64 \<Rightarrow> ('d, 'g, 'p) board \<Rightarrow> ('d, 'g, 'p) board option" where
  "kernel_boot env boot boot_ptr b = do {
     let b = println ''Hello SimpleLinux!'' [] b;
     let b = println ''Boot info at {:p}'' [ANum (unat boot_ptr)] b;
     (sel, b) \<leftarrow> gdt_init (k_gdt_append env) (k_gdt_new env) (k_df_stack env) (k_sc_stack env) b;
     b \<leftarrow> interrupts_init (k_pics env) (k_entry env) b;
     b \<leftarrow> memory_init (k_map_to env) boot b;
     b \<leftarrow> memory_self_test b;
     let b = heap_self_test (k_grab env) (k_release env) b;
     let b = println ''[main] triggering a breakpoint exception on purpose...'' [] b;
     r \<leftarrow> raise_exception 3 (k_int3_frame env) 0 b;
     b \<leftarrow> (case r of Inl _ \<Rightarrow> None | Inr b \<Rightarrow> Some b);
     let b = println ''[main] returned from int3'' [] b;
     let b = syscall_init (timer_init b);
     b \<leftarrow> fs_init (k_initrd env) b;
     b \<leftarrow> phase6_self_test b;
     run_embedded (k_map_to env) (k_var env) (k_after1 env) (k_after2 env) (user_code_selector sel) (user_data_selector sel)
       (k_user env) (k_user_elf env) (k_vfs_elf env) b
   }"

definition kernel_main ::
  "('d, 'e, 'g, 'p) environment \<Rightarrow> boot_info \<Rightarrow> u64 \<Rightarrow> ('d, 'g, 'p) board \<Rightarrow> demo_body sched \<Rightarrow>
     (switch_req \<times> demo_body sched \<times> ('d, 'g, 'p) board) option" where
  "kernel_main env boot boot_ptr b q = do {
     b \<leftarrow> kernel_boot env boot boot_ptr b;
     let q = sched_init q;
     b \<leftarrow> phase7_setup (k_dev env) (k_map_to env) b;
     b \<leftarrow> phase7_demo (k_add_byte env) (k_process env) b;
     b \<leftarrow> phase8_setup b;
     let b = println ''[main] spawning Phase 4 demo tasks and starting scheduler'' [] b;
     (r, q) \<leftarrow> phase4_demo (k_trampoline env) (k_stacks env) q;
     Some (r, q, b)
   }"

section \<open>The demo tasks and the hand-over\<close>

text \<open>The clock task never panics on the ticks of a monotonic clock.\<close>

lemma clock_task_ok:
  assumes "sorted (map unat (prev # ts))"
  shows "clock_task ts prev reported \<noteq> None"
  using assms
proof (induction ts arbitrary: prev reported)
  case Nil
  then show ?case
    by (subst clock_task.simps) auto
next
  case (Cons t ts)
  then have le: "unat prev \<le> unat t"
    by simp
  then obtain d where "checked_sub t prev = Some d"
    by (simp add: checked_sub_def word_le_nat_alt)
  moreover have "clock_task ts t (reported + 1) \<noteq> None" "clock_task ts prev reported \<noteq> None"
    using Cons.IH [of t "reported + 1"] Cons.IH [of prev reported] Cons.prems by auto
  ultimately show ?case
    by (subst clock_task.simps) auto
qed

lemma spawn_end:
  assumes "unat ptr + 16384 + 15 < 2 ^ 64" and "unat (next_id s) + 1 < 2 ^ 32" and "None \<notin> set (slots s)"
  obtains s' t where "spawn tramp ptr f s = Some (next_id s, s')" "slots s' = slots s @ [Some t]" "func t = Some f" "state t = Ready"
    "unat (next_id s') = unat (next_id s) + 1" "current s' = current s" "cursor s' = cursor s"
proof -
  obtain s' where s': "spawn tramp ptr f s = Some (next_id s, s')"
    using spawn_Some [OF assms(1,2)] by blast
  then obtain t where t: "unat (next_id s') = unat (next_id s) + 1" "slots s' = fst (place t (slots s))" "func t = Some f"
      "state t = Ready" "current s' = current s" "cursor s' = cursor s"
    unfolding spawn_def by (rule add_task_eq)
  have "position Option.is_none (slots s) = None"
    using assms(3) by (auto simp: position_None_iff Option.is_none_def) (metis not_None_eq)
  then show thesis
    by (intro that [OF s']) (use t in \<open>auto simp: place_def\<close>)
qed

text \<open>With four stacks from the allocator, the boot ends by entering the clock task; the four tasks are in
  the table.\<close>

lemma phase4_handover:
  assumes "\<forall>p \<in> {p1, p2, p3, p4}. unat p + 16384 + 15 < 2 ^ 64"
  shows "\<exists>q t. phase4_demo tramp (p1, p2, p3, p4) (sched_init sched_new) = Some (SwitchTo BootCtx (TaskCtx 0) True, q) \<and>
    task_count q = 4 \<and> current q = 0 \<and> slot (slots q) 0 = Some t \<and> func t = Some ClockTask \<and> state t = Running"
proof -
  let ?s0 = "sched_init sched_new :: demo_body sched"
  have s0: "unat (next_id ?s0) = 1" "slots ?s0 = []" "current ?s0 = NO_TASK" "cursor ?s0 = 0"
    by (simp_all add: sched_init_def sched_new_def)
  obtain s1 t1 where 1: "spawn tramp p1 ClockTask ?s0 = Some (next_id ?s0, s1)" "slots s1 = slots ?s0 @ [Some t1]" "func t1 = Some ClockTask"
      "state t1 = Ready" "unat (next_id s1) = unat (next_id ?s0) + 1" "current s1 = current ?s0" "cursor s1 = cursor ?s0"
    by (rule spawn_end [of p1 ?s0]) (use assms s0 in auto)
  obtain s2 t2 where 2: "spawn tramp p2 ManagerTask s1 = Some (next_id s1, s2)" "slots s2 = slots s1 @ [Some t2]"
      "unat (next_id s2) = unat (next_id s1) + 1" "current s2 = current s1" "cursor s2 = cursor s1"
    by (rule spawn_end [of p2 s1]) (use assms s0 1 in auto)
  obtain s3 t3 where 3: "spawn tramp p3 ArpTask s2 = Some (next_id s2, s3)" "slots s3 = slots s2 @ [Some t3]"
      "unat (next_id s3) = unat (next_id s2) + 1" "current s3 = current s2" "cursor s3 = cursor s2"
    by (rule spawn_end [of p3 s2]) (use assms s0 1 2 in auto)
  obtain s4 t4 where 4: "spawn tramp p4 ShellTask s3 = Some (next_id s3, s4)" "slots s4 = slots s3 @ [Some t4]"
      "current s4 = current s3" "cursor s4 = cursor s3"
    by (rule spawn_end [of p4 s3]) (use assms s0 1 2 3 in auto)
  have s4: "slots s4 = [Some t1, Some t2, Some t3, Some t4]" "current s4 = NO_TASK" "cursor s4 = 0"
    using s0 1 2 3 4 by simp_all
  let ?q = "s4\<lparr>int_flag := False, slots := [Some (t1\<lparr>state := Running\<rparr>), Some t2, Some t3, Some t4], current := 0, cursor := 1\<rparr>"
  have "next_ready s4 = Some 0"
    using s4 1(4) by (simp add: next_ready_def upt_rec is_ready_def)
  then have "start s4 = Some (SwitchTo BootCtx (TaskCtx 0) True, ?q)"
    using s4 by (simp add: start_def prep_switch_def ctx_ptr_def get_at_def slot_Cons NO_TASK_def)
  then have "phase4_demo tramp (p1, p2, p3, p4) ?s0 = Some (SwitchTo BootCtx (TaskCtx 0) True, ?q)"
    using 1(1) 2(1) 3(1) 4(1) by (simp add: phase4_demo_def)
  then show ?thesis
    using 1(3) by (intro exI [of _ ?q] exI [of _ "t1\<lparr>state := Running\<rparr>"]) (simp add: task_count_def live_def slot_Cons)
qed

section \<open>The way to the first user program\<close>

definition quiet_log :: "sevent list \<Rightarrow> bool" where
  "quiet_log log \<longleftrightarrow> (\<forall>b. Raw b \<notin> set log)"

text \<open>What the stages before the file system keep, and what they only print.\<close>

definition staged :: "('d, 'g, 'p) board \<Rightarrow> ('d, 'g, 'p) board \<Rightarrow> bool" where
  "staged b b' \<longleftrightarrow> (\<exists>log. serial b' = serial b @ log \<and> quiet_log log) \<and>
     MOUNTS b' = MOUNTS b \<and> FD_TABLE b' = FD_TABLE b \<and> m_rsp b' = m_rsp b"

lemma staged_trans: "staged a b \<Longrightarrow> staged b c \<Longrightarrow> staged a c"
  unfolding staged_def quiet_log_def by (metis Un_iff append.assoc set_append)

lemma stagedI:
  assumes "serial b' = serial b @ [Print x y]" and "MOUNTS b' = MOUNTS b" and "FD_TABLE b' = FD_TABLE b" and "m_rsp b' = m_rsp b"
  shows "staged b b'"
  using assms unfolding staged_def quiet_log_def by auto

lemma println_board [simp]:
  fixes b :: "('d, 'g, 'p) board"
  shows "m_rsp (println x y b) = m_rsp b" "RSP0 (println x y b) = RSP0 b" "IDTR (println x y b) = IDTR b"
    "page_table (println x y b) = page_table b" "READY (println x y b) = READY b"
  by (simp_all add: println_def print_def)

lemma staged_println: "staged b (println x y b)"
  by (rule stagedI) simp_all

text \<open>Segments and interrupts.\<close>

lemma platform_stage:
  fixes b :: "('d, 'g, 'p) board"
  assumes "gdt_ok gdt_append entries new" and "unat df + STACK_SIZE < 2 ^ 47" and "unat sc + PRIV_STACK_SIZE < 2 ^ 47"
    and "unat entry < 2 ^ 47"
  obtains sel b1 b2 where "gdt_init gdt_append new df sc b = Some (sel, b1)" "interrupts_init api entry b1 = Some b2"
    "staged b b2" "RSP0 b2 = sc + 16384" "FRAME_ALLOCATOR b2 = FRAME_ALLOCATOR b" "page_table b2 = page_table b"
    "map_of (IDTR b2) 3 = Some \<lparr>g_handler = BreakpointHandler, g_stack_index = None, g_ring3 = False\<rparr>"
proof -
  obtain sel g x y where sel: "gdt_init gdt_append new df sc b = Some (sel, b\<lparr>serial := serial b @ [Print x y], m_cs := 0x08, m_ss := 0x10,
      RSP0 := sc + 16384, GDTR := Some g, TR := 0x28\<rparr>)"
    by (rule gdt_init_state [OF assms(1-3)])
  let ?b = "b\<lparr>serial := serial b @ [Print x y], m_cs := 0x08, m_ss := 0x10, RSP0 := sc + 16384, GDTR := Some g, TR := 0x28\<rparr>"
  obtain idt pics x' y' where idt: "IDT entry = Some idt" and init: "interrupts_init api entry ?b =
      Some (?b\<lparr>serial := serial ?b @ [Print x' y'], m_rflags := m_rflags ?b OR 0x200, IDTR := idt, PIC := pics\<rparr>)"
    by (rule interrupts_init_state [OF assms(4)])
  have "staged b ?b"
    by (rule stagedI) simp_all
  moreover have "staged ?b (?b\<lparr>serial := serial ?b @ [Print x' y'], m_rflags := m_rflags ?b OR 0x200, IDTR := idt, PIC := pics\<rparr>)"
    by (rule stagedI) simp_all
  ultimately have "staged b (?b\<lparr>serial := serial ?b @ [Print x' y'], m_rflags := m_rflags ?b OR 0x200, IDTR := idt, PIC := pics\<rparr>)"
    by (rule staged_trans)
  then show thesis
    by (rule that [OF sel init]) (simp_all add: IDT_gates(4) [OF idt])
qed

text \<open>Memory: the heap, the frame test and the heap test.\<close>

lemma memory_stage:
  fixes b :: "('d, 'g, 'p) board"
  assumes "mapper_ok map_to" and "pmm_inv (FRAME_ALLOCATOR b)" and "physical_memory_offset boot = Some off"
    and "checked_add (kernel_addr boot) (kernel_len boot) = Some ke"
    and "2064 \<le> free_count (seed_frames (memory_regions boot) (kernel_addr boot) ke (FRAME_ALLOCATOR b))"
    and "\<forall>i<256. page_table b (heap_page i) = None"
    and heap: "\<And>s. \<exists>u f. grab s = s\<lparr>heap_used := u, heap_free := f\<rparr>" "\<And>s. \<exists>u f. release s = s\<lparr>heap_used := u, heap_free := f\<rparr>"
  obtains b1 b2 where "memory_init map_to boot b = Some b1" "memory_self_test b1 = Some b2"
    "staged b (heap_self_test grab release b2)" "frames_ok 10 (heap_self_test grab release b2)"
    "RSP0 (heap_self_test grab release b2) = RSP0 b" "IDTR (heap_self_test grab release b2) = IDTR b"
proof -
  obtain a pt x y where init: "memory_init map_to boot b = Some (b\<lparr>serial := serial b @ [Print x y,
        Print (''[heap] {} KiB kernel heap mapped at {:#x}'' @ [CHR 0x0A]) [ANum (HEAP_SIZE div 1024), ANum (unat HEAP_START)]],
      FRAME_ALLOCATOR := a, READY := True, PHYS_OFFSET := off, page_table := pt, heap_region := Some (HEAP_START, HEAP_SIZE)\<rparr>)"
    and a: "pmm_inv a" "free_count (seed_frames (memory_regions boot) (kernel_addr boot) ke (FRAME_ALLOCATOR b)) \<le> free_count a + 1024"
    by (rule memory_init_state [OF assms(1-4) _ assms(6)]) (use assms(5) in simp)
  let ?b1 = "b\<lparr>serial := serial b @ [Print x y,
        Print (''[heap] {} KiB kernel heap mapped at {:#x}'' @ [CHR 0x0A]) [ANum (HEAP_SIZE div 1024), ANum (unat HEAP_START)]],
      FRAME_ALLOCATOR := a, READY := True, PHYS_OFFSET := off, page_table := pt, heap_region := Some (HEAP_START, HEAP_SIZE)\<rparr>"
  obtain c x' y' where test: "memory_self_test ?b1 = Some (println x' y' (?b1\<lparr>FRAME_ALLOCATOR := c\<rparr>))"
      and c: "pmm_inv c" "free_addrs c = free_addrs a"
    by (rule memory_self_test_state [of ?b1]) (use a assms(5) in auto)
  let ?b2 = "println x' y' (?b1\<lparr>FRAME_ALLOCATOR := c\<rparr>)"
  have count: "40 \<le> card (free_addrs c)"
    using a assms(5) c by (simp add: free_count_card card_free_addrs)
  obtain u f where grab: "grab ?b2 = ?b2\<lparr>heap_used := u, heap_free := f\<rparr>"
    using heap(1) by blast
  obtain u' f' x'' y'' where heap2: "heap_self_test grab release ?b2 = (println x'' y'' (?b2\<lparr>heap_used := u, heap_free := f\<rparr>))\<lparr>heap_used := u', heap_free := f'\<rparr>"
    using heap(2) unfolding heap_self_test_def Let_def grab by blast
  show thesis
  proof (rule that [OF init test])
    show "staged b (heap_self_test grab release ?b2)"
      unfolding heap2 staged_def quiet_log_def by simp
    show "frames_ok 10 (heap_self_test grab release ?b2)"
      unfolding heap2 using c count by (simp add: frames_ok_def)
  qed (simp_all only: heap2, simp_all)
qed

text \<open>The breakpoint, the timer and the system call gate.\<close>

lemma late_stage:
  fixes b :: "('d, 'g, 'p) board" and f :: stack_frame
  assumes "map_of (IDTR b) 3 = Some \<lparr>g_handler = BreakpointHandler, g_stack_index = None, g_ring3 = False\<rparr>"
  defines "b1 \<equiv> println ''[main] triggering a breakpoint exception on purpose...'' [] b"
  defines "b2 \<equiv> syscall_init (timer_init (println ''[main] returned from int3'' [] (breakpoint_handler f b1)))"
  shows "raise_exception 3 f 0 b1 = Some (Inr (breakpoint_handler f b1))" "staged b b2"
    "FRAME_ALLOCATOR b2 = FRAME_ALLOCATOR b" "READY b2 = READY b" "RSP0 b2 = RSP0 b"
proof -
  show "raise_exception 3 f 0 b1 = Some (Inr (breakpoint_handler f b1))"
    using assms(1) by (simp add: raise_exception_def b1_def)
  show "staged b b2"
    unfolding staged_def quiet_log_def
    by (simp add: b2_def b1_def breakpoint_handler_def syscall_init_def timer_init_def Let_def)
qed (simp_all add: b2_def b1_def breakpoint_handler_def syscall_init_def timer_init_def Let_def)

text \<open>The file system and its self test.\<close>

lemma fs_stage:
  fixes b :: "('d, 'g, 'p) board"
  assumes "MOUNTS b = []" and "FD_TABLE b = []"
  obtains b1 b2 root where "fs_init tar b = Some b1" "phase6_self_test b1 = Some b2" "MOUNTS b2 = boot_mounts root"
    "boot_fds (FD_TABLE b2)" "\<exists>log. serial b2 = serial b @ log \<and> quiet_log log" "FRAME_ALLOCATOR b2 = FRAME_ALLOCATOR b"
    "READY b2 = READY b" "m_rsp b2 = m_rsp b" "RSP0 b2 = RSP0 b"
proof -
  obtain b1 root where b1: "fs_init tar b = Some b1" "FD_TABLE b1 = replicate 3 (Some \<lparr>f_inode = Console, f_offset = 0\<rparr>)"
      "MOUNTS b1 = boot_mounts root"
      "\<exists>log. (\<forall>x. Raw x \<notin> set log) \<and> b1 = b\<lparr>serial := serial b @ log, MOUNTS := MOUNTS b1, FD_TABLE := FD_TABLE b1\<rparr>"
    by (rule fs_init_state [OF assms])
  obtain l1 M F where l1: "\<forall>x. Raw x \<notin> set l1" "b1 = b\<lparr>serial := serial b @ l1, MOUNTS := M, FD_TABLE := F\<rparr>"
    using b1(4) by blast
  have "boot_fds (FD_TABLE b1)"
    using b1(2) by (simp add: boot_fds_def)
  then obtain b2 where b2: "phase6_self_test b1 = Some b2" "reports b1 b2"
    by (rule phase6_reports [OF b1(3)])
  obtain l2 t where l2: "b2 = b1\<lparr>serial := serial b1 @ l2, FD_TABLE := t\<rparr>" "boot_fds t" "\<forall>x. Raw x \<notin> set l2"
    using b2(2) unfolding reports_def by blast
  have "serial b2 = serial b @ (l1 @ l2)" "quiet_log (l1 @ l2)"
    using l1 l2 by (auto simp: quiet_log_def)
  then show thesis
    by (intro that [OF b1(1) b2(1)]) (use b1(3) l1(2) l2 in \<open>auto\<close>)
qed

fun raw_output :: "sevent list \<Rightarrow> byte list" where
  "raw_output [] = []"
| "raw_output (Raw b # l) = b # raw_output l"
| "raw_output (Print x y # l) = raw_output l"

lemma raw_output_append [simp]: "raw_output (l @ l') = raw_output l @ raw_output l'"
  by (induction l rule: raw_output.induct) simp_all

lemma raw_output_map_Raw [simp]: "raw_output (map Raw bs) = bs"
  by (induction bs) simp_all

lemma raw_output_quiet: "quiet_log l \<Longrightarrow> raw_output l = []"
proof (induction l)
  case (Cons e l)
  then show ?case
    by (cases e) (auto simp: quiet_log_def)
qed simp

text \<open>The assumptions about a machine that is switched on: the crates and the allocator behave as documented,
  the linker's addresses are canonical, the firmware's memory map leaves enough free frames for the heap, the
  self test and the programs, the heap range is unmapped, nothing is mounted or open, and the two kernel
  stacks and the user programs' area are apart.\<close>

definition bootable :: "('d, 'e, 'g, 'p) environment \<Rightarrow> ('g \<Rightarrow> nat) \<Rightarrow> boot_info \<Rightarrow> ('d, 'g, 'p) board \<Rightarrow> bool" where
  "bootable env entries boot b \<longleftrightarrow>
     gdt_ok (k_gdt_append env) entries (k_gdt_new env) \<and> mapper_ok (k_map_to env) \<and>
     (\<forall>s. \<exists>u f. k_grab env s = s\<lparr>heap_used := u, heap_free := f\<rparr>) \<and> (\<forall>s. \<exists>u f. k_release env s = s\<lparr>heap_used := u, heap_free := f\<rparr>) \<and>
     unat (k_df_stack env) + STACK_SIZE < 2 ^ 47 \<and> unat (k_sc_stack env) + PRIV_STACK_SIZE < 2 ^ 47 \<and> unat (k_entry env) < 2 ^ 47 \<and>
     pmm_inv (FRAME_ALLOCATOR b) \<and> physical_memory_offset boot \<noteq> None \<and>
     (case checked_add (kernel_addr boot) (kernel_len boot) of
        None \<Rightarrow> False
      | Some ke \<Rightarrow> 2064 \<le> free_count (seed_frames (memory_regions boot) (kernel_addr boot) ke (FRAME_ALLOCATOR b))) \<and>
     (\<forall>i<256. page_table b (heap_page i) = None) \<and> MOUNTS b = [] \<and> FD_TABLE b = [] \<and>
     addrs (k_sc_stack env) PRIV_STACK_SIZE \<inter> addrs 0x400000 109 = {} \<and> addrs (m_rsp b - 48) 48 \<inter> addrs 0x400000 109 = {} \<and>
     addrs (k_sc_stack env) PRIV_STACK_SIZE \<inter> addrs (m_rsp b - 8) 8 = {}"

lemma boot_before_programs:
  fixes b :: "('d, 'g, 'p) board"
  assumes "bootable env entries boot b"
  obtains b' sel root where "kernel_boot env boot boot_ptr b = run_embedded (k_map_to env) (k_var env) (k_after1 env) (k_after2 env)
      (user_code_selector sel) (user_data_selector sel) (k_user env) (k_user_elf env) (k_vfs_elf env) b'"
    "MOUNTS b' = boot_mounts root" "boot_fds (FD_TABLE b')" "\<exists>log. serial b' = serial b @ log \<and> quiet_log log"
    "frames_ok 10 b'" "m_rsp b' = m_rsp b" "RSP0 b' = k_sc_stack env + 16384"
proof -
  note B = assms [unfolded bootable_def]
  obtain off ke where off: "physical_memory_offset boot = Some off" and ke: "checked_add (kernel_addr boot) (kernel_len boot) = Some ke"
      "2064 \<le> free_count (seed_frames (memory_regions boot) (kernel_addr boot) ke (FRAME_ALLOCATOR b))"
    using B by (auto split: option.splits)
  define b0 where "b0 = println ''Boot info at {:p}'' [ANum (unat boot_ptr)] (println ''Hello SimpleLinux!'' [] b)"
  have b0: "staged b b0" "FRAME_ALLOCATOR b0 = FRAME_ALLOCATOR b" "page_table b0 = page_table b"
    unfolding b0_def using staged_trans [OF staged_println staged_println] by auto
  obtain sel b1 b2 where pl: "gdt_init (k_gdt_append env) (k_gdt_new env) (k_df_stack env) (k_sc_stack env) b0 = Some (sel, b1)"
      "interrupts_init (k_pics env) (k_entry env) b1 = Some b2" "staged b0 b2" "RSP0 b2 = k_sc_stack env + 16384"
      "FRAME_ALLOCATOR b2 = FRAME_ALLOCATOR b0" "page_table b2 = page_table b0"
      "map_of (IDTR b2) 3 = Some \<lparr>g_handler = BreakpointHandler, g_stack_index = None, g_ring3 = False\<rparr>"
    by (rule platform_stage [of "k_gdt_append env" entries "k_gdt_new env"]) (use B in auto)
  let ?h = "heap_self_test (k_grab env) (k_release env)"
  obtain b3 b4 where mem: "memory_init (k_map_to env) boot b2 = Some b3" "memory_self_test b3 = Some b4" "staged b2 (?h b4)"
      "frames_ok 10 (?h b4)" "RSP0 (?h b4) = RSP0 b2" "IDTR (?h b4) = IDTR b2"
    by (rule memory_stage [of "k_map_to env" b2 boot off ke "k_grab env" "k_release env"]) (use B off ke pl(5,6) b0(2,3) in auto)
  note late = late_stage [of "?h b4" "k_int3_frame env", unfolded mem(6), OF pl(7)]
  let ?i = "println ''[main] triggering a breakpoint exception on purpose...'' [] (?h b4)"
  let ?b5 = "syscall_init (timer_init (println ''[main] returned from int3'' [] (breakpoint_handler (k_int3_frame env) ?i)))"
  have st: "staged b ?b5"
    by (rule staged_trans [OF b0(1) staged_trans [OF pl(3) staged_trans [OF mem(3) late(2)]]])
  then have "MOUNTS ?b5 = []" "FD_TABLE ?b5 = []"
    using B by (auto simp: staged_def)
  then obtain b6 b7 root where fs: "fs_init (k_initrd env) ?b5 = Some b6" "phase6_self_test b6 = Some b7" "MOUNTS b7 = boot_mounts root"
      "boot_fds (FD_TABLE b7)" "\<exists>log. serial b7 = serial ?b5 @ log \<and> quiet_log log" "FRAME_ALLOCATOR b7 = FRAME_ALLOCATOR ?b5"
      "READY b7 = READY ?b5" "m_rsp b7 = m_rsp ?b5" "RSP0 b7 = RSP0 ?b5"
    by (rule fs_stage)
  show thesis
  proof (rule that [of sel b7 root])
    show "kernel_boot env boot boot_ptr b = run_embedded (k_map_to env) (k_var env) (k_after1 env) (k_after2 env)
      (user_code_selector sel) (user_data_selector sel) (k_user env) (k_user_elf env) (k_vfs_elf env) b7"
      using pl(1,2) mem(1,2) late(1) fs(1,2) by (simp add: kernel_boot_def b0_def Let_def)
    show "\<exists>log. serial b7 = serial b @ log \<and> quiet_log log"
      using st fs(5) by (fastforce simp: staged_def quiet_log_def)
    show "frames_ok 10 b7"
      using mem(4) late(3,4) fs(6,7) by (simp add: frames_ok_def)
    show "m_rsp b7 = m_rsp b" "RSP0 b7 = k_sc_stack env + 16384"
      using st fs(8,9) late(5) mem(5) pl(4) by (simp_all add: staged_def)
  qed (use fs in auto)
qed


section \<open>A machine that can be booted\<close>

definition demo_boot_info :: boot_info where
  "demo_boot_info = \<lparr>physical_memory_offset = Some 0, kernel_addr = 0x100000, kernel_len = 0x10000,
     memory_regions = [\<lparr>region_start = 0x100000, region_end = 0x2000000, region_type = Usable\<rparr>]\<rparr>"

definition power_on :: "(unit, descriptor list, byte \<times> byte) board" where
  "power_on = demo_board\<lparr>FRAME_ALLOCATOR := bitmap_new, page_table := Map.empty, MOUNTS := [], FD_TABLE := []\<rparr>"

definition demo_environment :: "(unit, byte, descriptor list, byte \<times> byte) environment" where
  "demo_environment = \<lparr>k_gdt_append = list_append, k_gdt_new = [KernelCodeSegment], k_df_stack = 0x20000, k_sc_stack = 0x30000,
     k_entry = 0x10000, k_pics = demo_pics, k_map_to = demo_map_to, k_grab = id, k_release = id,
     k_int3_frame = \<lparr>instruction_pointer = 0x11000, code_segment = 8, cpu_flags = 0x202, stack_pointer = 0x8000, stack_segment = 0x10\<rparr>,
     k_initrd = [], k_var = 0x3000, k_after1 = 0x12000, k_after2 = 0x12010, k_user = user_exec 0x10000 0x08 0x10040 demo_frame,
     k_user_elf = hello_elf, k_vfs_elf = vfs_elf, k_dev = (\<lambda>_. 0xffffffff), k_add_byte = (\<lambda>c d. (Some c, d)),
     k_process = (\<lambda>c d. (Some (Unicode (unat c)), d)), k_trampoline = 0x13000, k_stacks = (0x40000, 0x50000, 0x60000, 0x70000)\<rparr>"

lemma demo_frames:
  "2064 \<le> free_count (seed_frames (memory_regions demo_boot_info) (kernel_addr demo_boot_info) 0x110000 bitmap_new)"
proof -
  let ?a = "seed_frames (memory_regions demo_boot_info) (kernel_addr demo_boot_info) 0x110000 bitmap_new"
  have "free_frames ?a = {256..<8192} - {256..<272} - range_frames (0, word_of_nat PAGE_SIZE)" and inv: "pmm_inv ?a"
    by (simp_all add: seed_frames_def demo_boot_info_def mark_region_def mark_free_range_spec mark_used_range_spec
        free_frames_new range_frames_interval div_ceil_def)
  moreover have "range_frames (0, word_of_nat PAGE_SIZE) = {0}"
    by (auto simp: range_frames_interval PAGE_SIZE_def div_ceil_def)
  ultimately have "free_frames ?a = {272..<8192}"
    by auto
  then show ?thesis
    using inv by (simp add: free_count_card)
qed

lemma demo_bootable: "bootable demo_environment length demo_boot_info power_on"
proof -
  have rsp: "m_rsp power_on = 0x8000"
    by (simp add: power_on_def demo_board_def mach.defs boot_mach_def demo_mach_simps)
  have apart: "addrs (0x30000 :: u64) 16384 \<inter> addrs 0x400000 109 = {}" "addrs (0x7fd0 :: u64) 48 \<inter> addrs 0x400000 109 = {}"
    "addrs (0x30000 :: u64) 16384 \<inter> addrs 0x7ff8 8 = {}"
    using addrs_apart [of 0 16384 "0x3d0000" 109 "0x30000"] addrs_apart [of 0 48 "0x3f8030" 109 "0x7fd0"]
      addrs_apart [of 0 8 "0x28008" 16384 "0x7ff8"] by (simp_all add: Int_commute)
  have ke: "checked_add (kernel_addr demo_boot_info) (kernel_len demo_boot_info) = Some 0x110000"
      "physical_memory_offset demo_boot_info = Some 0"
    by (simp_all add: demo_boot_info_def checked_add_def)
  have b: "FRAME_ALLOCATOR power_on = bitmap_new" "page_table power_on = Map.empty" "MOUNTS power_on = []" "FD_TABLE power_on = []"
    by (simp_all add: power_on_def)
  have env: "k_gdt_append demo_environment = list_append" "k_gdt_new demo_environment = [KernelCodeSegment]"
      "k_map_to demo_environment = demo_map_to" "k_grab demo_environment = id" "k_release demo_environment = id"
      "k_df_stack demo_environment = 0x20000" "k_sc_stack demo_environment = 0x30000" "k_entry demo_environment = 0x10000"
    by (simp_all add: demo_environment_def)
  have heap: "\<exists>u f. id s = s\<lparr>heap_used := u, heap_free := f\<rparr>" for s :: "(unit, descriptor list, byte \<times> byte) board"
    by (intro exI [of _ "heap_used s"] exI [of _ "heap_free s"]) simp
  show ?thesis
    unfolding bootable_def env b ke option.case rsp STACK_SIZE_def PRIV_STACK_SIZE_def
    by (intro conjI allI impI list_gdt_ok demo_mapper_ok pmm_inv_new demo_frames heap refl) (use apart in simp_all)
qed


end
