(* ===== verification/Locks.thy ===== *)
theory Locks
  imports Interrupts
begin

text \<open>
  Spin locks. The other theories treat the critical section of a lock as one step; this one looks
  inside. Every operation is represented by its locking trace: the locks it takes and releases and
  the changes of the interrupt flag, in the order of the code, with what varies from call to call
  (how often the byte allocator is entered, which branch is taken) as parameters. The locks are those
  of the \<open>spin\<close> crate and the one inside the heap allocator crate: taking a lock that is held waits
  until it is released.

  Three questions are answered. Which operations can be caught by an interrupt handler that waits for
  a lock the interrupted code holds? Can tasks block each other for good by taking locks in different
  orders? And what happens to a task that waits for a lock whose holder was preempted?
\<close>

section \<open>Locking traces\<close>

datatype lock =
    FD_TABLE_lock | MOUNTS_lock | SOCKETS_lock | KEYBOARD_lock | SCHEDULER_lock | NIC_lock | CACHE_lock
  | SERIAL1_lock | WRITER_lock | FRAME_ALLOCATOR_lock | PIC_lock | ALLOCATOR_lock | children_lock

datatype act = Lock lock | Unlock lock | Cli | Sti

definition with_lock :: "lock \<Rightarrow> act list \<Rightarrow> act list" where
  "with_lock l body = Lock l # body @ [Unlock l]"

text \<open>\<open>n\<close> entries into the byte allocator.\<close>

definition heap_calls :: "nat \<Rightarrow> act list" where
  "heap_calls n = concat (replicate n (with_lock ALLOCATOR_lock []))"

definition print_trace :: "act list" where
  "print_trace = with_lock SERIAL1_lock []"

definition vga_init_trace :: "act list" where
  "vga_init_trace = with_lock WRITER_lock []"

subsection \<open>Scheduler\<close>

definition spawn_trace :: "nat \<Rightarrow> act list" where
  "spawn_trace n = with_lock SCHEDULER_lock (heap_calls n)"

definition start_trace :: "bool \<Rightarrow> act list" where
  "start_trace found =
     with_lock SCHEDULER_lock []
     @ (if found then Cli # with_lock SCHEDULER_lock [] else print_trace @ [Sti])"

definition schedule_trace :: "bool \<Rightarrow> act list" where
  "schedule_trace was_enabled = Cli # with_lock SCHEDULER_lock [] @ (if was_enabled then [Sti] else [])"

definition sleep_trace :: "act list" where
  "sleep_trace = with_lock SCHEDULER_lock [] @ schedule_trace True"

definition join_trace :: "bool \<Rightarrow> act list" where
  "join_trace done = with_lock SCHEDULER_lock [] @ (if done then [] else with_lock SCHEDULER_lock [] @ schedule_trace True)"

definition exit_trace :: "nat \<Rightarrow> act list" where
  "exit_trace n = Cli # with_lock SCHEDULER_lock (heap_calls n)"

definition body_trace :: "act list" where
  "body_trace = with_lock SCHEDULER_lock [] @ [Sti]"

definition tick_trace :: "bool \<Rightarrow> act list" where
  "tick_trace preempt = with_lock SCHEDULER_lock [] @ (if preempt then schedule_trace False else [])"

definition snapshot_trace :: "nat \<Rightarrow> act list" where
  "snapshot_trace n = with_lock SCHEDULER_lock (heap_calls n)"

subsection \<open>Keyboard and interrupt handlers\<close>

definition scancode_trace :: "nat \<Rightarrow> act list" where
  "scancode_trace n = with_lock KEYBOARD_lock (heap_calls n)"

definition read_key_trace :: "act list" where
  "read_key_trace = with_lock KEYBOARD_lock []"

definition timer_handler_trace :: "bool \<Rightarrow> act list" where
  "timer_handler_trace preempt = tick_trace preempt @ with_lock PIC_lock []"

text \<open>A key that makes the queue grow enters the byte allocator.\<close>

definition keyboard_handler_trace :: "nat \<Rightarrow> act list" where
  "keyboard_handler_trace n = scancode_trace n @ with_lock PIC_lock []"

text \<open>The handlers, once the scheduler is active; before that the timer handler takes no lock of the scheduler.\<close>

definition handlers :: "act list set" where
  "handlers = range timer_handler_trace \<union> range keyboard_handler_trace"

text \<open>\<open>interrupts::init\<close>, from the first lock on.\<close>

definition pic_init_trace :: "act list" where
  "pic_init_trace = with_lock PIC_lock [] @ [Sti] @ print_trace"

subsection \<open>Memory, files, sockets and the network card\<close>

definition map_trace :: "act list" where
  "map_trace = with_lock FRAME_ALLOCATOR_lock [] @ with_lock FRAME_ALLOCATOR_lock []"

definition mount_trace :: "nat \<Rightarrow> act list" where
  "mount_trace n = print_trace @ with_lock MOUNTS_lock (heap_calls n)"

definition resolve_trace :: "act list" where
  "resolve_trace = with_lock MOUNTS_lock []"

text \<open>Every directory of the initial ramdisk has a lock of its own; the code holds one of them at a time.\<close>

definition node_trace :: "nat \<Rightarrow> act list" where
  "node_trace n = with_lock children_lock (heap_calls n)"

definition close_trace :: "nat \<Rightarrow> act list" where
  "close_trace n = with_lock FD_TABLE_lock (heap_calls n)"

definition install_trace :: "nat \<Rightarrow> act list" where
  "install_trace n = with_lock FD_TABLE_lock (heap_calls n)"

text \<open>\<open>fs::read\<close> and \<open>fs::write\<close> hold the descriptor table while the inode works; \<open>body\<close> is its trace.\<close>

definition fd_trace :: "act list \<Rightarrow> act list" where
  "fd_trace body = with_lock FD_TABLE_lock body"

definition kbd_read_trace :: "nat \<Rightarrow> act list" where
  "kbd_read_trace n = concat (replicate n read_key_trace)"

definition meminfo_trace :: "nat \<Rightarrow> act list" where
  "meminfo_trace n = with_lock FRAME_ALLOCATOR_lock [] @ heap_calls (3 + n)"

text \<open>\<open>socket\<close>, \<open>bind\<close>, \<open>connect\<close>, \<open>close\<close> and \<open>info\<close>.\<close>

definition sock_table_trace :: "nat \<Rightarrow> act list" where
  "sock_table_trace n = with_lock SOCKETS_lock (heap_calls n)"

definition recv_trace :: "nat \<Rightarrow> act list" where
  "recv_trace n = with_lock SOCKETS_lock (heap_calls n)"

definition deliver_trace :: "nat \<Rightarrow> bool \<Rightarrow> act list" where
  "deliver_trace n delivered = with_lock SOCKETS_lock (heap_calls n @ (if delivered then print_trace else []))"

definition lookup_trace :: "act list" where
  "lookup_trace = with_lock CACHE_lock []"

definition cache_trace :: "nat \<Rightarrow> act list" where
  "cache_trace n = with_lock CACHE_lock (heap_calls n)"

definition nic_trace :: "act list" where
  "nic_trace = with_lock NIC_lock []"

definition rx_debug_trace :: "act list" where
  "rx_debug_trace = with_lock NIC_lock (print_trace @ print_trace)"

definition transmit_trace :: "nat \<Rightarrow> act list" where
  "transmit_trace n = with_lock NIC_lock [] @ heap_calls n @ with_lock NIC_lock []"

definition poll_trace :: "nat \<Rightarrow> act list" where
  "poll_trace n = with_lock NIC_lock (heap_calls n)"

text \<open>The write of a connected socket: peer, protocol and port, then the datagram, the packet and the frame.\<close>

definition sock_write_trace :: "nat \<Rightarrow> bool \<Rightarrow> nat \<Rightarrow> nat \<Rightarrow> act list" where
  "sock_write_trace n miss k d =
     concat (replicate 3 (with_lock SOCKETS_lock []))
     @ heap_calls n @ lookup_trace @ (if miss then lookup_trace else []) @ transmit_trace k @ heap_calls d"

subsection \<open>The operations\<close>

datatype kernel_op =
    Spawn nat | Start bool | Yield | SleepOp | JoinOp bool | ExitOp nat | TaskCount | Snapshot nat
  | Inject nat | ReadKey | HeapCall | PrintOp | AllocFrame | Mount nat | Install nat
  | ReadStored | ReadKbd nat | ReadMeminfo nat | WriteConsole | SockRead nat
  | SockWrite nat bool nat nat | Deliver nat bool | ArpLookup | Poll nat
  | VgaInit | MapPage | Resolve | NodeOp nat | CloseFd nat | SockIndex | SockTable nat | CacheOp nat | NicOp | RxDebug

fun trace :: "kernel_op \<Rightarrow> act list" where
  "trace (Spawn n) = spawn_trace n"
| "trace (Start b) = start_trace b"
| "trace Yield = schedule_trace True"
| "trace SleepOp = sleep_trace"
| "trace (JoinOp b) = join_trace b"
| "trace (ExitOp n) = exit_trace n"
| "trace TaskCount = snapshot_trace 0"
| "trace (Snapshot n) = snapshot_trace n"
| "trace (Inject n) = scancode_trace n"
| "trace ReadKey = read_key_trace"
| "trace HeapCall = heap_calls 1"
| "trace PrintOp = print_trace"
| "trace AllocFrame = with_lock FRAME_ALLOCATOR_lock []"
| "trace (Mount n) = mount_trace n"
| "trace (Install n) = install_trace n"
| "trace ReadStored = fd_trace []"
| "trace (ReadKbd n) = fd_trace (kbd_read_trace n)"
| "trace (ReadMeminfo n) = fd_trace (meminfo_trace n)"
| "trace WriteConsole = fd_trace (with_lock SERIAL1_lock [])"
| "trace (SockRead n) = fd_trace (recv_trace n)"
| "trace (SockWrite n m k d) = fd_trace (sock_write_trace n m k d)"
| "trace (Deliver n b) = deliver_trace n b"
| "trace ArpLookup = lookup_trace"
| "trace (Poll n) = poll_trace n"
| "trace VgaInit = vga_init_trace"
| "trace MapPage = map_trace"
| "trace Resolve = resolve_trace"
| "trace (NodeOp n) = node_trace n"
| "trace (CloseFd n) = close_trace n"
| "trace SockIndex = fd_trace []"
| "trace (SockTable n) = sock_table_trace n"
| "trace (CacheOp n) = cache_trace n"
| "trace NicOp = nic_trace"
| "trace RxDebug = rx_debug_trace"

lemmas op_trace_defs = spawn_trace_def start_trace_def schedule_trace_def sleep_trace_def join_trace_def exit_trace_def
  snapshot_trace_def scancode_trace_def read_key_trace_def print_trace_def vga_init_trace_def mount_trace_def resolve_trace_def
  node_trace_def close_trace_def install_trace_def fd_trace_def meminfo_trace_def map_trace_def sock_table_trace_def
  recv_trace_def deliver_trace_def lookup_trace_def cache_trace_def nic_trace_def rx_debug_trace_def transmit_trace_def
  poll_trace_def sock_write_trace_def

section \<open>One processor with interrupts\<close>

text \<open>The interrupt flag, the locks held by the running code and the code it interrupted, what is left
  of the trace, and the interrupted traces with the flag to restore.\<close>

type_synonym core = "bool \<times> lock set \<times> act list \<times> (act list \<times> bool) list"

fun do_act :: "act \<Rightarrow> bool \<times> lock set \<Rightarrow> (bool \<times> lock set) option" where
  "do_act (Lock l) (f, H) = (if l \<in> H then None else Some (f, insert l H))"
| "do_act (Unlock l) (f, H) = Some (f, H - {l})"
| "do_act Cli (f, H) = Some (False, H)"
| "do_act Sti (f, H) = Some (True, H)"

inductive core_step :: "core \<Rightarrow> core \<Rightarrow> bool" where
  core_act: "do_act a (f, H) = Some (f', H') \<Longrightarrow> core_step (f, H, a # tr, st) (f', H', tr, st)"
| core_irq: "h \<in> handlers \<Longrightarrow> core_step (True, H, tr, st) (False, H, h, (tr, True) # st)"
| core_iret: "core_step (f, H, [], (tr, e) # st) (e, H, tr, st)"

inductive_cases core_stepE: "core_step (f, H, tr, st) c"

text \<open>Waiting for a lock that only the waiting code itself, or code it interrupted, could release.\<close>

fun spins :: "core \<Rightarrow> bool" where
  "spins (f, H, Lock l # tr, st) \<longleftrightarrow> l \<in> H"
| "spins _ \<longleftrightarrow> False"

lemma spins_iff: "spins (f, H, tr, st) \<longleftrightarrow> (\<exists>l r. tr = Lock l # r \<and> l \<in> H)"
  by (cases "(f, H, tr, st)" rule: spins.cases) auto

lemma spinning_handler_stuck: "spins (False, H, tr, st) \<Longrightarrow> \<not> core_step (False, H, tr, st) c"
  by (auto simp: spins_iff elim: core_stepE)

definition handler_locks :: "lock set" where
  "handler_locks = {SCHEDULER_lock, KEYBOARD_lock, PIC_lock, ALLOCATOR_lock}"

text \<open>The discipline: no lock is taken twice, and no lock of a handler is held with interrupts enabled.\<close>

fun irq_safe :: "bool \<Rightarrow> lock set \<Rightarrow> act list \<Rightarrow> bool" where
  "irq_safe f H [] \<longleftrightarrow> (f \<longrightarrow> H \<inter> handler_locks = {})"
| "irq_safe f H (a # tr) \<longleftrightarrow> (f \<longrightarrow> H \<inter> handler_locks = {}) \<and>
     (case do_act a (f, H) of None \<Rightarrow> False | Some (f', H') \<Rightarrow> irq_safe f' H' tr)"

subsection \<open>Breaking the discipline is fatal\<close>

lemmas trace_defs = with_lock_def heap_calls_def print_trace_def schedule_trace_def tick_trace_def scancode_trace_def
  timer_handler_trace_def keyboard_handler_trace_def

lemma core_acts: "do_act a (f, H) = Some (f', H') \<Longrightarrow> core_step\<^sup>*\<^sup>* (f', H', tr, st) c \<Longrightarrow> core_step\<^sup>*\<^sup>* (f, H, a # tr, st) c"
  by (meson converse_rtranclp_into_rtranclp core_act)

lemma timer_spins:
  assumes "SCHEDULER_lock \<in> H \<or> PIC_lock \<in> H"
  shows "\<exists>c. core_step\<^sup>*\<^sup>* (False, H, timer_handler_trace False, st) c \<and> spins c"
proof (cases "SCHEDULER_lock \<in> H")
  case True
  then show ?thesis
    by (intro exI [of _ "(False, H, timer_handler_trace False, st)"]) (simp add: trace_defs)
next
  case False
  have "core_step\<^sup>*\<^sup>* (False, H, timer_handler_trace False, st) (False, H, with_lock PIC_lock [], st)"
  proof -
    have "timer_handler_trace False = Lock SCHEDULER_lock # Unlock SCHEDULER_lock # with_lock PIC_lock []"
      by (simp add: trace_defs)
    moreover have "do_act (Unlock SCHEDULER_lock) (False, insert SCHEDULER_lock H) = Some (False, H)"
      using False by auto
    ultimately show ?thesis
      using False core_acts [of "Lock SCHEDULER_lock" False H] core_acts [of "Unlock SCHEDULER_lock" False] by simp
  qed
  then show ?thesis
    using False assms by (intro exI [of _ "(False, H, with_lock PIC_lock [], st)"]) (simp add: with_lock_def)
qed

lemma keyboard_spins:
  assumes "KEYBOARD_lock \<in> H \<or> ALLOCATOR_lock \<in> H"
  shows "\<exists>c. core_step\<^sup>*\<^sup>* (False, H, keyboard_handler_trace 1, st) c \<and> spins c"
proof (cases "KEYBOARD_lock \<in> H")
  case True
  then show ?thesis
    by (intro exI [of _ "(False, H, keyboard_handler_trace 1, st)"]) (simp add: trace_defs)
next
  case False
  let ?c = "(False, insert KEYBOARD_lock H, tl (keyboard_handler_trace 1), st)"
  have "core_step\<^sup>*\<^sup>* (False, H, keyboard_handler_trace 1, st) ?c"
    using False core_acts [of "Lock KEYBOARD_lock" False H] by (simp add: trace_defs)
  then show ?thesis
    using False assms by (intro exI [of _ ?c]) (simp add: trace_defs)
qed

lemma irq_spins:
  assumes "H \<inter> handler_locks \<noteq> {}"
  shows "\<exists>c. core_step\<^sup>*\<^sup>* (True, H, tr, st) c \<and> spins c"
proof -
  have step: "core_step\<^sup>*\<^sup>* (True, H, tr, st) c" if "h \<in> handlers" "core_step\<^sup>*\<^sup>* (False, H, h, (tr, True) # st) c" for h c
    using converse_rtranclp_into_rtranclp [OF core_irq [OF that(1)] that(2)] .
  have "(SCHEDULER_lock \<in> H \<or> PIC_lock \<in> H) \<or> (KEYBOARD_lock \<in> H \<or> ALLOCATOR_lock \<in> H)"
    using assms by (auto simp: handler_locks_def)
  moreover have "timer_handler_trace False \<in> handlers" "keyboard_handler_trace 1 \<in> handlers"
    by (simp_all add: handlers_def)
  ultimately show ?thesis
    using step timer_spins [of H "(tr, True) # st"] keyboard_spins [of H "(tr, True) # st"] by meson
qed

lemma unsafe_spins:
  "\<not> irq_safe f H tr \<Longrightarrow> \<exists>c. core_step\<^sup>*\<^sup>* (f, H, tr, []) c \<and> spins c"
proof (induction f H tr rule: irq_safe.induct)
  case (1 f H)
  then show ?case
    using irq_spins by auto
next
  case (2 f H a tr)
  show ?case
  proof (cases "f \<and> H \<inter> handler_locks \<noteq> {}")
    case True
    then show ?thesis
      using irq_spins by auto
  next
    case ok: False
    show ?thesis
    proof (cases "do_act a (f, H)")
      case None
      then have "spins (f, H, a # tr, [])"
        by (cases a) (auto split: if_splits)
      then show ?thesis by blast
    next
      case (Some fH)
      then show ?thesis
        using 2 ok core_acts [of a f H] by (cases fH) fastforce
    qed
  qed
qed

subsection \<open>Keeping it is enough\<close>

fun held_after :: "lock set \<Rightarrow> act list \<Rightarrow> lock set" where
  "held_after H [] = H"
| "held_after H (Lock l # tr) = held_after (insert l H) tr"
| "held_after H (Unlock l # tr) = held_after (H - {l}) tr"
| "held_after H (_ # tr) = held_after H tr"

lemma held_after_append: "held_after H (a @ b) = held_after (held_after H a) b"
  by (induction H a rule: held_after.induct) simp_all

text \<open>A trace that never enables interrupts and can run on top of any held locks outside \<open>L\<close>.\<close>

definition runs_above :: "lock set \<Rightarrow> act list \<Rightarrow> bool" where
  "runs_above L tr \<longleftrightarrow> Sti \<notin> set tr \<and> (\<forall>H. H \<inter> L = {} \<longrightarrow> held_after H tr = H \<and> (\<forall>r. irq_safe False H (tr @ r) = irq_safe False H r))"

lemma runs_above_Nil: "runs_above L []"
  by (simp add: runs_above_def)

lemma runs_above_append: "runs_above L a \<Longrightarrow> runs_above L b \<Longrightarrow> runs_above L (a @ b)"
  by (simp add: runs_above_def held_after_append)

lemma runs_above_Cli: "runs_above L a \<Longrightarrow> runs_above L (Cli # a)"
  by (simp add: runs_above_def)

lemma runs_above_with_lock:
  assumes "runs_above L body" and "l \<notin> L"
  shows "runs_above (insert l L) (with_lock l body)"
proof -
  have "held_after H (with_lock l body) = H \<and> (\<forall>r. irq_safe False H (with_lock l body @ r) = irq_safe False H r)"
    if "H \<inter> insert l L = {}" for H
  proof -
    have "insert l H \<inter> L = {}" "insert l H - {l} = H" "l \<notin> H"
      using that assms(2) by auto
    then show ?thesis
      using assms(1) by (simp add: runs_above_def with_lock_def held_after_append)
  qed
  then show ?thesis
    using assms(1) by (simp add: runs_above_def with_lock_def)
qed

lemma runs_above_mono: "runs_above L tr \<Longrightarrow> L \<subseteq> M \<Longrightarrow> runs_above M tr"
  unfolding runs_above_def by blast

lemma runs_above_heap: "runs_above {ALLOCATOR_lock} (heap_calls n)"
  by (induction n) (simp_all add: heap_calls_def runs_above_Nil runs_above_append runs_above_with_lock)

lemma handler_runs_above:
  assumes "h \<in> handlers"
  shows "runs_above handler_locks h"
proof -
  have locks: "runs_above handler_locks (with_lock l [])" if "l \<in> handler_locks" for l
    using runs_above_mono [OF runs_above_with_lock [OF runs_above_Nil, of l "{}"]] that by simp
  have "runs_above handler_locks (with_lock KEYBOARD_lock (heap_calls n))" for n
    by (rule runs_above_mono [OF runs_above_with_lock [OF runs_above_heap]]) (simp_all add: handler_locks_def)
  then show ?thesis
    using assms locks
    by (auto simp: handlers_def timer_handler_trace_def tick_trace_def schedule_trace_def keyboard_handler_trace_def
        scancode_trace_def handler_locks_def intro!: runs_above_append runs_above_Cli runs_above_Nil)
qed

text \<open>Either the operation itself is running, or one handler on top of it.\<close>

fun core_inv :: "core \<Rightarrow> bool" where
  "core_inv (f, H, tr, []) \<longleftrightarrow> irq_safe f H tr"
| "core_inv (f, H, tr, [(tr0, e)]) \<longleftrightarrow>
     \<not> f \<and> e \<and> Sti \<notin> set tr \<and> irq_safe False H tr \<and> irq_safe True (held_after H tr) tr0"
| "core_inv _ \<longleftrightarrow> False"

lemma irq_safe_now: "irq_safe True H tr \<Longrightarrow> H \<inter> handler_locks = {}"
  by (cases tr) auto

lemma core_inv_act:
  assumes "core_inv (f, H, a # tr, st)" and "do_act a (f, H) = Some (f', H')"
  shows "core_inv (f', H', tr, st)"
  using assms by (cases "(f, H, a # tr, st)" rule: core_inv.cases; cases a) (auto split: if_splits)

lemma core_inv_irq:
  assumes "core_inv (True, H, tr, st)" and "h \<in> handlers"
  shows "core_inv (False, H, h, (tr, True) # st)"
proof -
  have st: "st = []" and "irq_safe True H tr"
    using assms(1) by (cases "(True, H, tr, st)" rule: core_inv.cases; simp)+
  moreover have "held_after H h = H \<and> irq_safe False H (h @ []) = irq_safe False H []" "Sti \<notin> set h"
    using handler_runs_above [OF assms(2)] irq_safe_now [OF \<open>irq_safe True H tr\<close>] unfolding runs_above_def by blast+
  ultimately show ?thesis
    by simp
qed

lemma core_step_inv: "core_step c c' \<Longrightarrow> core_inv c \<Longrightarrow> core_inv c'"
proof (induction rule: core_step.induct)
  case (core_iret f H tr e st)
  then show ?case
    by (cases st) auto
qed (auto intro: core_inv_act core_inv_irq)

lemma core_inv_not_spins: "core_inv c \<Longrightarrow> \<not> spins c"
  by (cases c rule: core_inv.cases) (auto simp: spins_iff)

lemma safe_never_spins:
  assumes "core_step\<^sup>*\<^sup>* (f, {}, tr, []) c" and "irq_safe f {} tr"
  shows "\<not> spins c"
proof -
  have "core_inv c"
    using assms by (induction rule: rtranclp_induct) (auto intro: core_step_inv)
  then show ?thesis
    by (rule core_inv_not_spins)
qed

subsection \<open>The operations, one by one\<close>

text \<open>The operations that an interrupt cannot catch: those that take no lock of a handler, or take it
  with interrupts disabled. Whether an operation that may enter the byte allocator is among them
  depends on whether it does.\<close>

fun interruptible :: "kernel_op \<Rightarrow> bool" where
  "interruptible Yield \<longleftrightarrow> True"
| "interruptible (ExitOp n) \<longleftrightarrow> True"
| "interruptible PrintOp \<longleftrightarrow> True"
| "interruptible AllocFrame \<longleftrightarrow> True"
| "interruptible ReadStored \<longleftrightarrow> True"
| "interruptible WriteConsole \<longleftrightarrow> True"
| "interruptible ArpLookup \<longleftrightarrow> True"
| "interruptible VgaInit \<longleftrightarrow> True"
| "interruptible MapPage \<longleftrightarrow> True"
| "interruptible Resolve \<longleftrightarrow> True"
| "interruptible SockIndex \<longleftrightarrow> True"
| "interruptible NicOp \<longleftrightarrow> True"
| "interruptible RxDebug \<longleftrightarrow> True"
| "interruptible (NodeOp n) \<longleftrightarrow> n = 0"
| "interruptible (CloseFd n) \<longleftrightarrow> n = 0"
| "interruptible (SockTable n) \<longleftrightarrow> n = 0"
| "interruptible (CacheOp n) \<longleftrightarrow> n = 0"
| "interruptible (Mount n) \<longleftrightarrow> n = 0"
| "interruptible (Install n) \<longleftrightarrow> n = 0"
| "interruptible (ReadKbd n) \<longleftrightarrow> n = 0"
| "interruptible (SockRead n) \<longleftrightarrow> n = 0"
| "interruptible (SockWrite n m k d) \<longleftrightarrow> n = 0 \<and> k = 0 \<and> d = 0"
| "interruptible (Deliver n b) \<longleftrightarrow> n = 0"
| "interruptible (Poll n) \<longleftrightarrow> n = 0"
| "interruptible _ \<longleftrightarrow> False"

lemma irq_safe_heap:
  "irq_safe True H (heap_calls n @ r) \<longleftrightarrow> n = 0 \<and> irq_safe True H r"
  "ALLOCATOR_lock \<notin> H \<Longrightarrow> irq_safe False H (heap_calls n @ r) \<longleftrightarrow> irq_safe False H r"
proof -
  show "irq_safe True H (heap_calls n @ r) \<longleftrightarrow> n = 0 \<and> irq_safe True H r"
    by (cases n) (auto simp: heap_calls_def with_lock_def handler_locks_def)
  show "irq_safe False H (heap_calls n @ r) \<longleftrightarrow> irq_safe False H r" if "ALLOCATOR_lock \<notin> H"
    using runs_above_heap [of n] that unfolding runs_above_def by simp
qed

lemma irq_safe_keys: "irq_safe True H (kbd_read_trace n @ r) \<longleftrightarrow> n = 0 \<and> irq_safe True H r"
  by (cases n) (auto simp: kbd_read_trace_def read_key_trace_def with_lock_def handler_locks_def)

lemma irq_safe_trace: "irq_safe True {} (trace op) \<longleftrightarrow> interruptible op"
proof (cases op)
  case HeapCall
  then show ?thesis
    using irq_safe_heap(1) [of "{}" 1 "[]"] by simp
qed (auto simp: op_trace_defs with_lock_def irq_safe_heap irq_safe_keys handler_locks_def numeral_3_eq_3)

text \<open>C11. Interrupts and locks: an operation started with interrupts enabled and no lock held can end up waiting for
  ever for a lock that is held by the code underneath, exactly if it is not one of the interruptible ones. So \<open>spawn\<close>,
  \<open>start\<close>, \<open>sleep\<close>, \<open>join\<close>, \<open>task_count\<close>, \<open>snapshot\<close>, \<open>inject\<close>, \<open>read_key\<close>, every use of the heap, and whatever
  uses the heap or reads keys under another lock can be deadlocked by one interrupt; \<open>schedule\<close>, \<open>exit_current\<close>,
  printing and the frame allocator cannot, however many interrupts arrive.\<close>

theorem interrupt_deadlock_iff:
  "(\<exists>c. core_step\<^sup>*\<^sup>* (True, {}, trace op, []) c \<and> spins c) \<longleftrightarrow> \<not> interruptible op"
  using unsafe_spins [of True "{}" "trace op"] safe_never_spins [of True "trace op"] irq_safe_trace [of op] by blast

text \<open>The entry of a task and the initialisation of the interrupts run with interrupts disabled until they enable them; they
  are safe too.\<close>

lemma entry_never_spins:
  assumes "tr = body_trace \<or> tr = pic_init_trace" and "core_step\<^sup>*\<^sup>* (False, {}, tr, []) c"
  shows "\<not> spins c"
proof -
  have "irq_safe False {} tr"
    using assms(1) by (auto simp: body_trace_def pic_init_trace_def print_trace_def with_lock_def handler_locks_def)
  then show ?thesis
    by (rule safe_never_spins [OF assms(2)])
qed

section \<open>Tasks\<close>

text \<open>Tasks that run their traces interleaved: the owner of each lock, and what is left of each task.\<close>

type_synonym tasks = "(lock \<rightharpoonup> nat) \<times> act list list"

fun task_act :: "nat \<Rightarrow> act \<Rightarrow> (lock \<rightharpoonup> nat) \<Rightarrow> (lock \<rightharpoonup> nat) option" where
  "task_act i (Lock l) w = (if w l = None then Some (w(l \<mapsto> i)) else None)"
| "task_act i (Unlock l) w = Some (w(l := None))"
| "task_act i _ w = Some w"

inductive task_step :: "tasks \<Rightarrow> tasks \<Rightarrow> bool" where
  task_acts: "i < length cs \<Longrightarrow> cs ! i = a # r \<Longrightarrow> task_act i a w = Some w' \<Longrightarrow> task_step (w, cs) (w', cs[i := r])"

subsection \<open>The order of the locks\<close>

fun rank :: "lock \<Rightarrow> nat" where
  "rank FD_TABLE_lock = 0"
| "rank MOUNTS_lock = 1"
| "rank SOCKETS_lock = 2"
| "rank KEYBOARD_lock = 3"
| "rank SCHEDULER_lock = 4"
| "rank NIC_lock = 5"
| "rank CACHE_lock = 6"
| "rank SERIAL1_lock = 7"
| "rank WRITER_lock = 7"
| "rank children_lock = 2"
| "rank FRAME_ALLOCATOR_lock = 8"
| "rank PIC_lock = 9"
| "rank ALLOCATOR_lock = 10"

text \<open>A trace that, from the locks \<open>H\<close>, takes locks in ascending order and releases all of them.\<close>

fun ordered :: "lock set \<Rightarrow> act list \<Rightarrow> bool" where
  "ordered H [] \<longleftrightarrow> H = {}"
| "ordered H (Lock l # tr) \<longleftrightarrow> (\<forall>h\<in>H. rank h < rank l) \<and> ordered (insert l H) tr"
| "ordered H (Unlock l # tr) \<longleftrightarrow> l \<in> H \<and> ordered (H - {l}) tr"
| "ordered H (_ # tr) \<longleftrightarrow> ordered H tr"

text \<open>A trace that keeps the order above any locks of rank below \<open>k\<close>, and leaves them as they are.\<close>

definition keeps_order :: "nat \<Rightarrow> act list \<Rightarrow> bool" where
  "keeps_order k tr \<longleftrightarrow> (\<forall>H r. (\<forall>h\<in>H. rank h < k) \<longrightarrow> ordered H (tr @ r) = ordered H r)"

lemma keeps_order_Nil [simp]: "keeps_order k []"
  by (simp add: keeps_order_def)

lemma keeps_order_append: "keeps_order k a \<Longrightarrow> keeps_order k b \<Longrightarrow> keeps_order k (a @ b)"
  by (simp add: keeps_order_def)

lemma keeps_order_flag [simp]: "keeps_order k (Cli # tr) \<longleftrightarrow> keeps_order k tr" "keeps_order k (Sti # tr) \<longleftrightarrow> keeps_order k tr"
  by (simp_all add: keeps_order_def)

lemma keeps_order_with_lock:
  assumes "keeps_order (Suc (rank l)) body" and "k \<le> rank l"
  shows "keeps_order k (with_lock l body)"
  unfolding keeps_order_def
proof (intro allI impI)
  fix H r
  assume H: "\<forall>h\<in>H. rank h < k"
  then have "\<forall>h\<in>insert l H. rank h < Suc (rank l)" "insert l H - {l} = H" "\<forall>h\<in>H. rank h < rank l"
    using assms(2) by fastforce+
  then show "ordered H (with_lock l body @ r) = ordered H r"
    using assms(1) by (simp add: keeps_order_def with_lock_def)
qed

lemma keeps_order_repeat: "keeps_order k tr \<Longrightarrow> keeps_order k (concat (replicate n tr))"
  by (induction n) (simp_all add: keeps_order_append)

lemma keeps_order_heap: "k \<le> 10 \<Longrightarrow> keeps_order k (heap_calls n)"
  unfolding heap_calls_def by (intro keeps_order_repeat keeps_order_with_lock) simp_all

lemma trace_keeps_order: "keeps_order 0 (trace op)"
  by (cases op) (auto simp: op_trace_defs kbd_read_trace_def
      intro!: keeps_order_append keeps_order_with_lock keeps_order_repeat keeps_order_heap)

lemma program_ordered: "ordered {} (concat (map trace ops))"
proof -
  have "keeps_order 0 (concat (map trace ops))"
    by (induction ops) (simp_all add: keeps_order_append trace_keeps_order)
  from this [unfolded keeps_order_def, rule_format, of "{}" "[]"] show ?thesis
    by simp
qed

subsection \<open>No circular waiting\<close>

definition owned :: "nat \<Rightarrow> (lock \<rightharpoonup> nat) \<Rightarrow> lock set" where
  "owned i w = {l. w l = Some i}"

definition tasks_inv :: "tasks \<Rightarrow> bool" where
  "tasks_inv s \<longleftrightarrow> (\<forall>i<length (snd s). ordered (owned i (fst s)) (snd s ! i)) \<and> (\<forall>l i. fst s l = Some i \<longrightarrow> i < length (snd s))"

lemma owned_lock: "w l = None \<Longrightarrow> owned j (w(l \<mapsto> i)) = (if j = i then insert l (owned j w) else owned j w)"
  by (auto simp: owned_def)

lemma owned_unlock: "owned j (w(l := None)) = owned j w - {l}"
  by (auto simp: owned_def)

lemma task_step_inv:
  assumes "task_step s s'" and "tasks_inv s"
  shows "tasks_inv s'"
  using assms
proof (induction rule: task_step.induct)
  case (task_acts i cs a r w w')
  have ord: "ordered (owned i w) (a # r)" "\<And>j. j < length cs \<Longrightarrow> ordered (owned j w) (cs ! j)"
    and bound: "\<And>l j. w l = Some j \<Longrightarrow> j < length cs"
    using task_acts by (auto simp: tasks_inv_def)
  have "ordered (owned j w') (cs[i := r] ! j)" if "j < length cs" for j
  proof (cases a)
    case (Lock l)
    then show ?thesis
      using task_acts(3) ord that by (auto simp: owned_lock nth_list_update split: if_splits)
  next
    case (Unlock l)
    then have "l \<in> owned i w"
      using ord(1) by simp
    then have "j \<noteq> i \<Longrightarrow> owned j w - {l} = owned j w"
      by (auto simp: owned_def)
    then show ?thesis
      using task_acts(3) ord that Unlock by (cases "j = i") (auto simp: owned_unlock)
  qed (use task_acts(3) ord that in \<open>(cases "j = i"; auto)+\<close>)
  moreover have "j < length cs" if "w' l = Some j" for l j
    using that task_acts(1,3) bound by (cases a) (auto split: if_splits)
  ultimately show ?case
    by (simp add: tasks_inv_def)
qed

text \<open>Among the waiting tasks, the one that waits for the lock of highest rank waits for a task that can go on.\<close>

lemma waiting_owner:
  assumes "tasks_inv (w, cs)" and "i < length cs" and "cs ! i \<noteq> []" and "\<nexists>s'. task_step (w, cs) s'"
  obtains l r j where "cs ! i = Lock l # r" "w l = Some j" "j < length cs" "cs ! j \<noteq> []"
proof -
  from assms(3) obtain a r where a: "cs ! i = a # r"
    by (cases "cs ! i") auto
  have "task_act i a w = None"
    using assms(2,4) a task_acts [of i cs a r w] by (cases "task_act i a w") auto
  then obtain l j where l: "a = Lock l" "w l = Some j"
    by (cases a) (auto split: if_splits)
  moreover have "j < length cs" "ordered (owned j w) (cs ! j)" "l \<in> owned j w"
    using assms(1) l(2) by (auto simp: tasks_inv_def owned_def)
  moreover from this have "cs ! j \<noteq> []"
    by auto
  ultimately show ?thesis
    using that a by blast
qed

lemma tasks_progress:
  assumes "tasks_inv (w, cs)" and "i < length cs" and "cs ! i \<noteq> []"
  shows "\<exists>s'. task_step (w, cs) s'"
proof (rule ccontr)
  assume stuck: "\<nexists>s'. task_step (w, cs) s'"
  have "False" if "i < length cs" "cs ! i = Lock l # r" "10 - rank l = n" for i l r n
    using that
  proof (induction n arbitrary: i l r rule: less_induct)
    case (less n)
    obtain j where j: "w l = Some j" "j < length cs" "cs ! j \<noteq> []"
      using waiting_owner [OF assms(1) less.prems(1) _ stuck] less.prems(2) by auto
    obtain l' r' where l': "cs ! j = Lock l' # r'"
      using waiting_owner [OF assms(1) j(2,3) stuck] by metis
    have "ordered (owned j w) (cs ! j)" "l \<in> owned j w"
      using assms(1) j(1,2) by (auto simp: tasks_inv_def owned_def)
    then have "rank l < rank l'"
      using l' by auto
    moreover have "rank l' \<le> 10"
      by (cases l') simp_all
    ultimately show False
      using less.IH [OF _ j(2) l' refl] less.prems(3) by linarith
  qed
  then show False
    using waiting_owner [OF assms stuck] assms(2) by metis
qed

definition finished :: "tasks \<Rightarrow> bool" where
  "finished s \<longleftrightarrow> fst s = Map.empty \<and> (\<forall>c\<in>set (snd s). c = [])"

lemma task_step_shrinks:
  assumes "task_step s s'"
  shows "sum_list (map length (snd s')) < sum_list (map length (snd s))"
  using assms
proof (induction rule: task_step.induct)
  case (task_acts i cs a r w w')
  have "sum_list (map length (cs[i := r])) + length (cs ! i) = sum_list (map length cs) + length r"
    using task_acts(1) elem_le_sum_list [of i "map length cs"] by (simp add: map_update sum_list_update)
  then show ?case
    using task_acts(2) by simp
qed

lemma tasks_complete: "tasks_inv s \<Longrightarrow> \<exists>s'. task_step\<^sup>*\<^sup>* s s' \<and> finished s'"
proof (induction "sum_list (map length (snd s))" arbitrary: s rule: less_induct)
  case less
  obtain w cs where s: "s = (w, cs)"
    by (cases s)
  show ?case
  proof (cases "\<exists>i<length cs. cs ! i \<noteq> []")
    case True
    then obtain s' where "task_step s s'"
      using tasks_progress less.prems s by blast
    then show ?thesis
      using less.hyps [OF task_step_shrinks task_step_inv] less.prems by (meson converse_rtranclp_into_rtranclp)
  next
    case False
    then have empty: "\<And>i. i < length cs \<Longrightarrow> owned i w = {}"
      using less.prems by (auto simp: tasks_inv_def s)
    have "w l = None" for l
    proof (cases "w l")
      case (Some i)
      then have "i < length cs" "l \<in> owned i w"
        using less.prems by (auto simp: tasks_inv_def s owned_def)
      then show ?thesis
        using empty by blast
    qed
    then have "finished s"
      using False by (auto simp: finished_def s in_set_conv_nth)
    then show ?thesis
      by blast
  qed
qed



section \<open>Waiting for a preempted task\<close>

text \<open>The processor while the running task waits for lock \<open>l\<close>: it tests the lock again, takes it when it is free, or a
  timer interrupt arrives.\<close>

inductive spin_step :: "lock \<Rightarrow> 'f cpu_state \<times> (lock \<rightharpoonup> nat) \<Rightarrow> 'f cpu_state \<times> (lock \<rightharpoonup> nat) \<Rightarrow> bool" for l where
  spin_again: "w l \<noteq> None \<Longrightarrow> spin_step l (m, w) (m, w)"
| spin_take: "w l = None \<Longrightarrow> spin_step l (m, w) (m, w(l \<mapsto> current (sch m)))"
| spin_timer: "deliverable m \<Longrightarrow> timer_irq m = Some m' \<Longrightarrow> spin_step l (m, w) (m', w)"

inductive_cases spin_stepE: "spin_step l (m, w) x"

lemma parked_not_deliverable: "cpu_reachable tramp m \<Longrightarrow> i \<in> parked m \<Longrightarrow> \<not> deliverable m"
  using cpu_reachable_inv [of tramp m] by (auto simp: cpu_inv_def irq_inv_def deliverable_def split: if_splits)

text \<open>C13. A task that waits for a lock whose holder was preempted waits for ever. The preempted holder is stopped inside
  the timer interrupt handler, before the end of the interrupt is signalled, so no timer interrupt comes to take the
  processor away from the waiting task: nothing changes any more. The freedom to change to any task at any
  point, on which the order of the locks relies, is not there.\<close>

theorem waiting_for_preempted_owner:
  assumes "cpu_reachable tramp m" and "i \<in> parked m" and "w l = Some i" and "(spin_step l)\<^sup>*\<^sup>* (m, w) x"
  shows "x = (m, w)"
  using assms(4)
proof (induction rule: rtranclp_induct)
  case (step y z)
  then show ?case
    using parked_not_deliverable [OF assms(1,2)] assms(3) by (auto elim: spin_stepE)
qed simp

theorem waiting_for_preempted_owner_witness:
  "\<exists>m :: unit cpu_state. cpu_reachable 0x401000 m \<and> 1 \<in> parked m \<and> current (sch m) \<noteq> 1 \<and>
     (\<forall>x. (spin_step FD_TABLE_lock)\<^sup>*\<^sup>* (m, [FD_TABLE_lock \<mapsto> 1]) x \<longrightarrow> x = (m, [FD_TABLE_lock \<mapsto> 1]))"
proof -
  obtain m :: "unit cpu_state" where m: "cpu_reachable 0x401000 m" "1 \<in> parked m"
    using clock_stopped_reachable by blast
  then have "current (sch m) \<noteq> 1"
    by (auto simp: parked_def)
  with m show ?thesis
    using waiting_for_preempted_owner [OF m, of "[FD_TABLE_lock \<mapsto> 1]" FD_TABLE_lock] by auto
qed

end
