(* ===== verification/Resources.thy ===== *)
theory Resources
  imports Composition Elf_Properties
begin

text \<open>
  Bounds on what a user program can make the kernel use: how far a write to a socket reaches into memory,
  how many descriptors and how many sockets a sequence of system calls can hold.
\<close>

section \<open>The transmit buffer\<close>

lemma udp_frame:
  assumes "length data \<le> 65507"
  obtains hdr where "length hdr = 42" "udp_send sport dst dport data s = e1000_send (hdr @ data) s"
proof -
  obtain c where c: "udp_datagram sport dst dport data =
      Some (be16 sport @ be16 dport @ be16 (word_of_nat (8 + length data)) @ be16 c @ data)"
    by (rule udp_datagram_built [of data sport dst dport]) (use assms in auto)
  let ?u = "be16 sport @ be16 dport @ be16 (word_of_nat (8 + length data)) @ be16 c"
  obtain h where h: "length h = 20"
    "ip_send dst PROTO_UDP (?u @ data) s = e1000_send (eth_frame (next_hop_mac dst s) (our_mac s) ETHERTYPE_IP (h @ ?u @ data)) s"
    by (rule ip_send_built [of "?u @ data" PROTO_UDP dst s]) (use assms in auto)
  let ?hdr = "eth_frame (next_hop_mac dst s) (our_mac s) ETHERTYPE_IP (h @ ?u)"
  have "eth_frame (next_hop_mac dst s) (our_mac s) ETHERTYPE_IP (h @ ?u @ data) = ?hdr @ data"
    by (simp add: eth_frame_def)
  then show thesis
    using that [of ?hdr] c h by (simp add: udp_send_def eth_frame_parts)
qed

lemma addrs_subset_iff:
  assumes "n \<le> 2 ^ 64" and "m \<le> 2 ^ 64"
  shows "addrs a n \<subseteq> addrs a m \<longleftrightarrow> n \<le> m"
proof
  assume sub: "addrs a n \<subseteq> addrs a m"
  show "n \<le> m"
  proof (rule ccontr)
    assume "\<not> n \<le> m"
    then have "a + word_of_nat m \<in> addrs a n"
      by (auto simp: addrs_def)
    with sub obtain i where "i < m" "(word_of_nat m :: u64) = word_of_nat i"
      by (auto simp: addrs_def)
    moreover have "m < 2 ^ 64"
      using \<open>\<not> n \<le> m\<close> assms(1) by simp
    ultimately show False
      using word_of_nat_eq_iff [where 'a = 64, of m i] by (simp add: take_bit_eq_mod)
  qed
qed (rule addrs_mono)

lemma load_store_tail:
  assumes "length hdr + length data \<le> 2 ^ 64"
  shows "load_bytes (a + word_of_nat (length hdr)) (length data) (store_bytes a (hdr @ data) m) = data"
  unfolding store_bytes_append using assms by (intro load_store) simp

text \<open>C14. How far a write to a socket reaches: the kernel copies the 42 bytes of headers and the program's data, at most 4096
  bytes, to the transmit buffer, and changes no other memory. The buffer is one page of 4096 bytes, and the copy
  stays within it exactly for writes of at most 4054 bytes: a longer one, which the call accepts and
  reports as complete, puts the last of the program's bytes into the memory behind the buffer.\<close>

theorem udp_write_footprint:
  assumes "sock_fd fd i x s" and "s_proto x = PROTO_UDP" and "peer x = Some (ip, port)" and "drv_ok s" and "NIC s = Some n"
  shows "\<exists>s'. sys_write fd buf len s = Some (min len 4096, s') \<and>
    load_bytes (tx_buf n + 42) (unat (min len 4096)) (ram s') = load_bytes buf (unat (min len 4096)) (ram s) \<and>
    (\<forall>a. a \<notin> addrs (tx_buf n) (42 + unat (min len 4096)) \<longrightarrow> ram s' a = ram s a) \<and>
    (addrs (tx_buf n) (42 + unat (min len 4096)) \<subseteq> addrs (tx_buf n) 4096 \<longleftrightarrow> len \<le> 4054)"
proof -
  let ?n = "unat (min len 4096)"
  let ?data = "load_bytes buf ?n (ram s)"
  have len: "length ?data = ?n" "?n \<le> 4096"
    using unat_min_4096(1) [of len] by simp_all
  obtain hdr where hdr: "length hdr = 42" "udp_send (local_port x) ip port ?data s = e1000_send (hdr @ ?data) s"
    by (rule udp_frame [of ?data "local_port x" ip port s]) (use len in auto)
  obtain s' where s': "sys_write fd buf len s = Some (min len 4096, s')" "driver_of s' = driver_of (after_send (hdr @ ?data) s)"
    using sys_write_socket [OF assms(1-4) _ hdr(2)] assms(5) by auto
  then have ram: "ram s' = store_bytes (tx_buf n) (hdr @ ?data) (ram s)"
    using assms(5) by (simp add: driver_of_def after_send_def)
  have "load_bytes (tx_buf n + 42) ?n (ram s') = ?data"
    using load_store_tail [of hdr ?data "tx_buf n" "ram s"] hdr(1) len unfolding ram by simp
  moreover have "ram s' a = ram s a" if "a \<notin> addrs (tx_buf n) (42 + ?n)" for a
    using store_bytes_other [of a "tx_buf n" "hdr @ ?data" "ram s"] that hdr(1) len(1) unfolding ram by simp
  moreover have "addrs (tx_buf n) (42 + ?n) \<subseteq> addrs (tx_buf n) 4096 \<longleftrightarrow> len \<le> 4054"
    using addrs_subset_iff [of "42 + ?n" 4096 "tx_buf n"] len(2) by (auto simp: min_def word_le_nat_alt)
  ultimately show ?thesis
    using s'(1) by blast
qed

theorem udp_write_footprint_witness:
  "\<exists>fd a1 a2 s'. sys_socket 17 demo_kernel = (fd, a1) \<and> sys_connect fd 0x0a00020f 9999 a1 = (0, a2) \<and>
     sys_write fd 0x5000 4096 a2 = Some (4096, s') \<and>
     load_bytes (tx_buf demo_nic + 42) 4096 (ram s') = load_bytes 0x5000 4096 (ram a2) \<and>
     \<not> addrs (tx_buf demo_nic) 4138 \<subseteq> addrs (tx_buf demo_nic) 4096"
proof -
  have "live (FD_TABLE demo_kernel) < MAX_FDS"
    by (simp add: demo_kernel_def MAX_FDS_def live_def)
  then obtain fd i a1 where a1: "sys_socket 17 demo_kernel = (fd, a1)" "driver_of a1 = driver_of demo_kernel"
      "sock_fd fd i \<lparr>s_proto = PROTO_UDP, local_port = 0, peer = None, rx = []\<rparr> a1"
    by (rule udp_socket [OF demo_kernel_ok(1)])
  obtain a2 where a2: "sys_connect fd 0x0a00020f 9999 a1 = (0, a2)" "driver_of a2 = driver_of a1"
      "sock_fd fd i \<lparr>s_proto = PROTO_UDP, local_port = 0, peer = Some (ip_of_word 0x0a00020f, ucast (9999 :: u64)), rx = []\<rparr> a2"
    by (rule sys_connect_socket [OF a1(3), of "0x0a00020f" 9999]) simp
  have "drv_ok a2" "NIC a2 = Some demo_nic"
    using a1(2) a2(2) demo_kernel_ok(3) by (simp_all add: driver_of_def drv_ok_def demo_kernel_def)
  from udp_write_footprint [OF a2(3) _ _ this, of "ip_of_word 0x0a00020f" "ucast (9999 :: u64)" "0x5000" 4096]
  show ?thesis
    using a1(1) a2(1) by auto
qed

section \<open>Descriptors and sockets\<close>

lemma dom_update_slot: "dom (slot (update_slot i f t)) = dom (slot t)"
  by (auto simp: slot_update_slot split: if_splits)

lemma live_update_slot [simp]: "live (update_slot i f t) = live t"
  by (simp add: live_card dom_update_slot)

text \<open>What a system call other than \<open>socket\<close> keeps: the number of sockets, and the bound on the descriptor table.\<close>

definition holds :: "('d, 'a) kernel_scheme \<Rightarrow> ('d, 'a) kernel_scheme \<Rightarrow> bool" where
  "holds s s' \<longleftrightarrow> live (SOCKETS s') = live (SOCKETS s) \<and> (fds_ok s \<longrightarrow> fds_ok s')"

lemma holds_refl [simp]: "holds s s"
  by (simp add: holds_def)

lemma e1000_send_sockets:
  fixes s :: "('d, 'a) kernel_scheme"
  assumes "e1000_send f s = Some (b, s')"
  shows "SOCKETS s' = SOCKETS s \<and> FD_TABLE s' = FD_TABLE s"
  using assms by (auto simp: e1000_send_def write_reg_def bind_eq_Some_conv split: option.splits)

lemma sendto_sockets:
  fixes s :: "('d, 'a) kernel_scheme"
  assumes "sendto i dst port data s = Some (r, s')"
  shows "SOCKETS s' = SOCKETS s \<and> FD_TABLE s' = FD_TABLE s"
  using assms
  by (auto simp: sendto_def udp_send_def ip_send_def transmit_ethernet_def Let_def bind_eq_Some_conv split: if_splits dest!: e1000_send_sockets)

lemma inode_write_holds:
  assumes "inode_write i off data s = Some (r, s')"
  shows "SOCKETS s' = SOCKETS s \<and> FD_TABLE s' = FD_TABLE s"
  using assms
proof (cases i)
  case (SocketInode j)
  then show ?thesis
    using assms sendto_sockets by (fastforce split: option.splits)
qed (auto simp: write_bytes_eq)

lemma inode_read_live:
  assumes "inode_read i off cap s = (r, s')"
  shows "live (SOCKETS s') = live (SOCKETS s) \<and> FD_TABLE s' = FD_TABLE s"
  using assms
  by (cases i) (auto simp: kbd_read_eq recvfrom_def Let_def split: option.splits list.splits prod.splits)

lemma fs_read_holds: "fs_read fd cap s = Some (r, s') \<Longrightarrow> holds s s'"
  by (auto simp: fs_read_def holds_def fds_ok_def bind_eq_Some_conv split: option.splits prod.splits sum.splits dest!: inode_read_live)

lemma fs_write_holds:
  assumes "fs_write fd data s = Some (r, s')"
  shows "holds s s'"
proof (cases "slot (FD_TABLE s) fd")
  case (Some f)
  then obtain q t where "inode_write (f_inode f) (f_offset f) data s = Some (q, t)"
    using assms by (auto simp: fs_write_def bind_eq_Some_conv)
  with assms Some inode_write_holds [OF this] show ?thesis
    by (cases q) (auto simp: fs_write_def holds_def fds_ok_def bind_eq_Some_conv)
qed (use assms in \<open>simp add: fs_write_def\<close>)

lemma sys_read_holds:
  assumes "sys_read fd buf len s = Some (v, s')"
  shows "holds s s'"
proof -
  obtain r t where "fs_read (unat fd) (unat (min len 4096)) s = Some (r, t)"
    using assms by (auto simp: sys_read_def bind_eq_Some_conv)
  with assms fs_read_holds [OF this] show ?thesis
    by (cases r) (auto simp: sys_read_def holds_def fds_ok_def)
qed

lemma sys_write_holds:
  assumes "sys_write fd buf len s = Some (v, s')"
  shows "holds s s'"
proof -
  obtain r t where "fs_write (unat fd) (load_bytes buf (unat (min len 4096)) (ram s)) s = Some (r, t)"
    using assms by (auto simp: sys_write_def bind_eq_Some_conv)
  with assms fs_write_holds [OF this] show ?thesis
    by (cases r) (auto simp: sys_write_def)
qed

lemma sys_open_holds: "holds s (snd (sys_open p s))"
  by (auto simp: sys_open_def fs_open_def holds_def fds_ok_def split: option.splits sum.splits dest!: install_bound)

lemma sys_simple_holds: "holds s (snd (sys_close fd s))" "holds s (snd (sys_bind fd p s))" "holds s (snd (sys_connect fd ip p s))"
  by (auto simp: sys_close_def fs_close_def sys_bind_def sock_bind_def sys_connect_def sock_connect_def holds_def fds_ok_def
      split: option.splits)

lemma sys_socket_counts: "live (SOCKETS (snd (sys_socket p s))) = Suc (live (SOCKETS s)) \<and> (fds_ok s \<longrightarrow> fds_ok (snd (sys_socket p s)))"
proof -
  let ?x = "\<lparr>s_proto = ucast p, local_port = 0, peer = None, rx = []\<rparr>"
  obtain t i where t: "place ?x (SOCKETS s) = (t, i)"
    by (cases "place ?x (SOCKETS s)")
  then have "live t = Suc (live (SOCKETS s))"
    using socks.alloc_live [of ?x "SOCKETS s" t i] by simp
  then show ?thesis
    using t by (auto simp: sys_socket_def socket_new_def install_inode_def fds_ok_def split: option.splits dest!: install_bound)
qed

text \<open>A sequence of system calls, up to the end of the program.\<close>

fun run_calls :: "syscall_frame list \<Rightarrow> ('d, 'a) kernel_scheme \<Rightarrow> ('d, 'a) kernel_scheme option" where
  "run_calls [] s = Some s"
| "run_calls (f # fs) s = do {
     (r, s) \<leftarrow> syscall_dispatch f s;
     (case r of Resume _ \<Rightarrow> run_calls fs s | ReturnToKernel \<Rightarrow> Some s)
   }"

lemma dispatch_counts:
  assumes "syscall_dispatch f s = Some (r, s')"
  shows "live (SOCKETS s') = live (SOCKETS s) + (if f_rax f = nr Socket then 1 else 0) \<and> (fds_ok s \<longrightarrow> fds_ok s')"
proof (cases "f_rax f = nr Socket")
  case True
  then show ?thesis
    using assms sys_socket_counts [of "f_rdi f" s] by (auto simp: syscall_dispatch_def ret_def)
next
  case False
  have "holds s s'"
    using assms False sys_open_holds [of s "f_rdi f"] sys_simple_holds [of s "f_rdi f"]
    by (auto simp: syscall_dispatch_def ret_def intro: sys_read_holds sys_write_holds split: if_splits)
      (auto simp: holds_def fds_ok_def)
  then show ?thesis
    using False by (simp add: holds_def)
qed

lemma dispatch_resumes: "syscall_dispatch f s = Some (r, s') \<Longrightarrow> f_rax f \<noteq> nr Exit \<Longrightarrow> \<exists>f'. r = Resume f'"
  by (auto simp: syscall_dispatch_def ret_def split: if_splits)

lemma run_calls_counts:
  assumes "run_calls fs s = Some s'" and "\<forall>f\<in>set fs. f_rax f \<noteq> nr Exit" and "fds_ok s"
  shows "fds_ok s' \<and> live (SOCKETS s') = live (SOCKETS s) + length (filter (\<lambda>f. f_rax f = nr Socket) fs)"
  using assms
proof (induction fs arbitrary: s)
  case (Cons f fs)
  then obtain r t where t: "syscall_dispatch f s = Some (r, t)"
    by (auto simp: bind_eq_Some_conv)
  then obtain f' where "r = Resume f'"
    using dispatch_resumes Cons.prems(2) by fastforce
  with t Cons.prems have "run_calls fs t = Some s'"
    by simp
  then show ?case
    using Cons.IH [of t] Cons.prems dispatch_counts [OF t] by auto
qed simp

lemma socket_calls_return:
  assumes "f_rax f = nr Socket"
  shows "\<exists>s'. run_calls (replicate n f) s = Some s'"
proof (induction n arbitrary: s)
  case (Suc n)
  then show ?case
    using assms by (auto simp: syscall_dispatch_def ret_def)
qed simp

text \<open>C15. Descriptors are bounded, sockets are not: through any sequence of system calls the descriptor table keeps to its
  64 entries, but the number of sockets grows by one with every \<open>socket\<close> call, also one that fails because no
  descriptor is free, and no system call makes it smaller, \<open>close\<close> included. A program that calls \<open>socket\<close> over
  and over gets every call answered and makes the table as long as it likes.\<close>

theorem sockets_accumulate:
  assumes "fds_ok s"
  shows "(run_calls fs s = Some s' \<longrightarrow> (\<forall>f\<in>set fs. f_rax f \<noteq> nr Exit) \<longrightarrow> length (FD_TABLE s') \<le> MAX_FDS \<and>
       live (SOCKETS s') = live (SOCKETS s) + length (filter (\<lambda>f. f_rax f = nr Socket) fs)) \<and>
    (f_rax f = nr Socket \<longrightarrow> (\<exists>s''. run_calls (replicate n f) s = Some s'' \<and> length (FD_TABLE s'') \<le> MAX_FDS \<and>
       live (SOCKETS s'') = live (SOCKETS s) + n))"
proof (intro conjI impI)
  assume "f_rax f = nr Socket"
  moreover from this obtain s'' where "run_calls (replicate n f) s = Some s''"
    using socket_calls_return by blast
  ultimately show "\<exists>s''. run_calls (replicate n f) s = Some s'' \<and> length (FD_TABLE s'') \<le> MAX_FDS \<and>
      live (SOCKETS s'') = live (SOCKETS s) + n"
    using run_calls_counts [of "replicate n f" s s''] assms by (auto simp: fds_ok_def)
qed (use run_calls_counts [of fs s s'] assms in \<open>auto simp: fds_ok_def\<close>)

theorem sockets_accumulate_witness:
  "\<exists>s'. run_calls (replicate 1000 (demo_frame\<lparr>f_rax := nr Socket\<rparr>)) demo_kernel = Some s' \<and> length (FD_TABLE s') \<le> 64 \<and>
     live (SOCKETS s') = 1000"
  using sockets_accumulate [OF demo_kernel_ok(1), of "[]" demo_kernel "demo_frame\<lparr>f_rax := nr Socket\<rparr>" 1000]
  by (simp add: MAX_FDS_def demo_kernel_def live_def)

end
