(* ===== verification/Format.thy ===== *)
theory Format
  imports Serial Fs_Error
begin

unbundle bit_operations_syntax

text \<open>
  From a print to the bytes on the serial line (\<open>serial.rs\<close> and what it uses of \<open>core::fmt\<close>). A format
  string is split into literal bytes and placeholders; a placeholder takes the next argument and
  renders it as its flags, width and style say. A placeholder that names its argument, as in
  \<open>{error_code:#x}\<close>, takes the next one too, because prints are recorded with their arguments in
  the order of the placeholders. \<open>None\<close> is a format string that the compiler refuses, or a
  combination of value and style that no print of the kernel has.

  The rendering of values whose type is in another crate is the parameter \<open>ext\<close>, the state of the
  UART driver has the type \<open>'u\<close>, and its operations are the parameters \<open>port_new\<close>, \<open>port_init\<close> and
  \<open>send\<close>.
\<close>

section \<open>Numbers and text\<close>

definition hex_char :: "nat \<Rightarrow> byte" where
  "hex_char d = word_of_nat (if d < 10 then 48 + d else 87 + d)"

fun hex :: "nat \<Rightarrow> byte list" where
  "hex n = (if n < 16 then [hex_char n] else hex (n div 16) @ [hex_char (n mod 16)])"

declare hex.simps [simp del]

text \<open>The \<open>Debug\<close> form of text; characters outside ASCII count as printable.\<close>

definition escape :: "byte \<Rightarrow> byte list" where
  "escape b =
     (if b = 0 then [0x5c, 0x30]
      else if b = 9 then [0x5c, 0x74]
      else if b = 10 then [0x5c, 0x6e]
      else if b = 13 then [0x5c, 0x72]
      else if b = 0x22 \<or> b = 0x5c then [0x5c, b]
      else if b < 0x20 \<or> b = 0x7f then [0x5c, 0x75, 0x7b] @ hex (unat b) @ [0x7d]
      else [b])"

definition bool_text :: "bool \<Rightarrow> byte list" where
  "bool_text b = str (if b then ''true'' else ''false'')"

fun commas :: "byte list list \<Rightarrow> byte list" where
  "commas [] = []"
| "commas [x] = x"
| "commas (x # y # xs) = x @ str '', '' @ commas (y # xs)"

fun debug :: "(string \<Rightarrow> fmt_arg list \<Rightarrow> byte list) \<Rightarrow> fmt_arg \<Rightarrow> byte list" where
  "debug ext (ANum n) = dec n"
| "debug ext (AStr t) = [0x22] @ concat (map escape t) @ [0x22]"
| "debug ext (ABool b) = bool_text b"
| "debug ext (AList as) = str ''['' @ commas (map (debug ext) as) @ str '']''"
| "debug ext (AVariant v []) = str v"
| "debug ext (AVariant v (a # as)) = str v @ str ''('' @ commas (map (debug ext) (a # as)) @ str '')''"
| "debug ext (AExt t as) = ext t as"

section \<open>Placeholders\<close>

datatype style = Display | Debug | LowerHex | Pointer

datatype align = AlignDefault | AlignLeft | AlignRight

record spec =
  sp_align :: align
  sp_alt :: bool
  sp_zero :: bool
  sp_width :: nat
  sp_style :: style

fun spec_width :: "nat \<Rightarrow> string \<Rightarrow> nat \<times> string" where
  "spec_width w [] = (w, [])"
| "spec_width w (c # s) =
     (if 48 \<le> (of_char c :: nat) \<and> of_char c \<le> (57 :: nat) then spec_width (w * 10 + (of_char c - 48)) s else (w, c # s))"

definition flag :: "char \<Rightarrow> string \<Rightarrow> bool \<times> string" where
  "flag c s = (if s \<noteq> [] \<and> hd s = c then (True, tl s) else (False, s))"

definition spec_style :: "string \<Rightarrow> style option" where
  "spec_style s =
     (if s = '''' then Some Display
      else if s = ''?'' then Some Debug
      else if s = ''x'' then Some LowerHex
      else if s = ''p'' then Some Pointer
      else None)"

definition parse_spec :: "string \<Rightarrow> spec option" where
  "parse_spec s =
     (let (l, s) = flag CHR ''<'' s;
          (r, s) = flag CHR ''>'' s;
          (alt, s) = flag CHR ''#'' s;
          (zero, s) = flag CHR ''0'' s;
          (w, s) = spec_width 0 s
      in case spec_style s of
           None \<Rightarrow> None
         | Some st \<Rightarrow> Some \<lparr>sp_align = (if l then AlignLeft else if r then AlignRight else AlignDefault),
                             sp_alt = alt, sp_zero = zero, sp_width = w, sp_style = st\<rparr>)"

datatype piece = Lit byte | Hole spec

function pieces :: "string \<Rightarrow> piece list option" where
  "pieces [] = Some []"
| "pieces (c # s) =
     (if c = CHR ''{'' then
        (if s \<noteq> [] \<and> hd s = CHR ''{'' then map_option ((#) (Lit 0x7b)) (pieces (tl s))
         else
           (let inner = takeWhile (\<lambda>d. d \<noteq> CHR ''}'') s; rest = dropWhile (\<lambda>d. d \<noteq> CHR ''}'') s in
            case parse_spec (tl (dropWhile (\<lambda>d. d \<noteq> CHR '':'') inner)) of
              None \<Rightarrow> None
            | Some sp \<Rightarrow> if rest = [] then None else map_option ((#) (Hole sp)) (pieces (tl rest))))
      else if c = CHR ''}'' then
        (if s \<noteq> [] \<and> hd s = CHR ''}'' then map_option ((#) (Lit 0x7d)) (pieces (tl s)) else None)
      else map_option ((#) (Lit (of_char c))) (pieces s))"
  by pat_completeness auto
termination
  by (relation "measure length") (auto simp: less_Suc_eq_le intro: order_trans [OF diff_le_self] length_dropWhile_le)

declare pieces.simps [simp del]

section \<open>Rendering\<close>

text \<open>Width counts characters: bytes that do not continue one.\<close>

definition char_count :: "byte list \<Rightarrow> nat" where
  "char_count bs = length (filter (\<lambda>b. b AND 0xc0 \<noteq> 0x80) bs)"

definition pad :: "spec \<Rightarrow> align \<Rightarrow> byte list \<Rightarrow> byte list" where
  "pad sp dflt bs =
     (let fill = replicate (sp_width sp - char_count bs) 0x20;
          a = (if sp_align sp = AlignDefault then dflt else sp_align sp)
      in if a = AlignLeft then bs @ fill else fill @ bs)"

definition pad_integral :: "spec \<Rightarrow> byte list \<Rightarrow> byte list \<Rightarrow> byte list" where
  "pad_integral sp prefix digits =
     (if sp_zero sp then prefix @ replicate (sp_width sp - length (prefix @ digits)) 0x30 @ digits
      else pad sp AlignRight (prefix @ digits))"

fun render_arg :: "(string \<Rightarrow> fmt_arg list \<Rightarrow> byte list) \<Rightarrow> spec \<Rightarrow> fmt_arg \<Rightarrow> byte list option" where
  "render_arg ext sp (ANum n) =
     Some (case sp_style sp of
             LowerHex \<Rightarrow> pad_integral sp (if sp_alt sp then [0x30, 0x78] else []) (hex n)
           | Pointer \<Rightarrow> pad_integral sp [0x30, 0x78] (hex n)
           | _ \<Rightarrow> pad_integral sp [] (dec n))"
| "render_arg ext sp (AStr t) =
     (case sp_style sp of
        Display \<Rightarrow> Some (pad sp AlignLeft t)
      | Debug \<Rightarrow> Some (debug ext (AStr t))
      | _ \<Rightarrow> None)"
| "render_arg ext sp (ABool b) =
     (case sp_style sp of
        Display \<Rightarrow> Some (pad sp AlignLeft (bool_text b))
      | Debug \<Rightarrow> Some (pad sp AlignLeft (bool_text b))
      | _ \<Rightarrow> None)"
| "render_arg ext sp (AExt t as) = Some (ext t as)"
| "render_arg ext sp a = (if sp_style sp = Debug \<and> \<not> sp_alt sp then Some (debug ext a) else None)"

fun render_pieces :: "(string \<Rightarrow> fmt_arg list \<Rightarrow> byte list) \<Rightarrow> piece list \<Rightarrow> fmt_arg list \<Rightarrow> byte list option" where
  "render_pieces ext [] [] = Some []"
| "render_pieces ext (Lit b # ps) as = map_option ((#) b) (render_pieces ext ps as)"
| "render_pieces ext (Hole sp # ps) (a # as) = do {
     t \<leftarrow> render_arg ext sp a;
     ts \<leftarrow> render_pieces ext ps as;
     Some (t @ ts)
   }"
| "render_pieces ext _ _ = None"

definition render :: "(string \<Rightarrow> fmt_arg list \<Rightarrow> byte list) \<Rightarrow> string \<Rightarrow> fmt_arg list \<Rightarrow> byte list option" where
  "render ext fmt args = Option.bind (pieces fmt) (\<lambda>ps. render_pieces ext ps args)"

section \<open>The port\<close>

definition SERIAL1 :: "(u16 \<Rightarrow> 'u) \<Rightarrow> ('u \<Rightarrow> 'u) \<Rightarrow> 'u" where
  "SERIAL1 port_new port_init = port_init (port_new 0x3F8)"

text \<open>The port is created at its first use, which \<open>init\<close> is.\<close>

definition serial_init :: "(u16 \<Rightarrow> 'u) \<Rightarrow> ('u \<Rightarrow> 'u) \<Rightarrow> 'u option \<Rightarrow> 'u option" where
  "serial_init port_new port_init u = (case u of None \<Rightarrow> Some (SERIAL1 port_new port_init) | Some p \<Rightarrow> Some p)"

definition serial_print ::
  "(byte \<Rightarrow> 'u \<Rightarrow> 'u) \<Rightarrow> (string \<Rightarrow> fmt_arg list \<Rightarrow> byte list) \<Rightarrow> string \<Rightarrow> fmt_arg list \<Rightarrow> 'u \<Rightarrow> 'u option" where
  "serial_print send ext fmt args u = map_option (\<lambda>bs. fold send bs u) (render ext fmt args)"

definition serial_write_bytes :: "(byte \<Rightarrow> 'u \<Rightarrow> 'u) \<Rightarrow> byte list \<Rightarrow> 'u \<Rightarrow> 'u" where
  "serial_write_bytes send bytes u = foldl (\<lambda>u b. send b u) u bytes"

section \<open>What the log of prints puts on the line\<close>

fun event_bytes :: "(string \<Rightarrow> fmt_arg list \<Rightarrow> byte list) \<Rightarrow> sevent \<Rightarrow> byte list option" where
  "event_bytes ext (Print fmt args) = render ext fmt args"
| "event_bytes ext (Raw b) = Some [b]"

fun wire :: "(string \<Rightarrow> fmt_arg list \<Rightarrow> byte list) \<Rightarrow> sevent list \<Rightarrow> byte list option" where
  "wire ext [] = Some []"
| "wire ext (e # es) = do {
     t \<leftarrow> event_bytes ext e;
     ts \<leftarrow> wire ext es;
     Some (t @ ts)
   }"

text \<open>The port after the events of a log.\<close>

definition replay :: "(byte \<Rightarrow> 'u \<Rightarrow> 'u) \<Rightarrow> (string \<Rightarrow> fmt_arg list \<Rightarrow> byte list) \<Rightarrow> sevent list \<Rightarrow> 'u \<Rightarrow> 'u option" where
  "replay send ext log u = map_option (\<lambda>bs. fold send bs u) (wire ext log)"

lemma wire_append:
  "wire ext (xs @ ys) = (case wire ext xs of None \<Rightarrow> None | Some t \<Rightarrow> map_option ((@) t) (wire ext ys))"
  by (induction xs; cases "wire ext ys") (auto split: option.splits bind_splits)

lemma wire_Raw: "wire ext (map Raw bs) = Some bs"
  by (induction bs) simp_all

lemma replay_print:
  "replay send ext (serial (print fmt args s)) u = Option.bind (replay send ext (serial s) u) (serial_print send ext fmt args)"
  by (cases "render ext fmt args") (simp_all add: replay_def print_def wire_append serial_print_def split: option.splits)

lemma replay_write_bytes:
  "replay send ext (serial (write_bytes bs s)) u = map_option (serial_write_bytes send bs) (replay send ext (serial s) u)"
  by (simp add: replay_def write_bytes_eq wire_append wire_Raw serial_write_bytes_def foldl_conv_fold split: option.splits)

section \<open>Lemmas on rendering\<close>

lemma map_option_append_Nil [simp]: "map_option ((@) []) x = x"
  by (cases x) simp_all

lemma pieces_plain:
  "CHR ''{'' \<notin> set s \<Longrightarrow> CHR ''}'' \<notin> set s \<Longrightarrow> pieces (s @ t) = map_option ((@) (map Lit (str s))) (pieces t)"
  by (induction s) (auto simp: pieces.simps str_def option.map_comp o_def option.map_ident intro!: map_option_cong)

lemma pieces_hole:
  assumes "CHR ''}'' \<notin> set h" and "h = [] \<or> hd h \<noteq> CHR ''{''" and "parse_spec (tl (dropWhile (\<lambda>d. d \<noteq> CHR '':'') h)) = Some sp"
  shows "pieces (CHR ''{'' # h @ CHR ''}'' # t) = map_option ((#) (Hole sp)) (pieces t)"
proof -
  have "takeWhile (\<lambda>d. d \<noteq> CHR ''}'') (h @ CHR ''}'' # t) = h" "dropWhile (\<lambda>d. d \<noteq> CHR ''}'') (h @ CHR ''}'' # t) = CHR ''}'' # t"
    using assms(1) by (induction h) auto
  moreover have "hd (h @ CHR ''}'' # t) \<noteq> CHR ''{''"
    using assms(2) by (cases h) auto
  ultimately show ?thesis
    using assms(3) by (simp add: pieces.simps)
qed

lemma render_pieces_plain:
  "render_pieces ext (map Lit bs @ ps) as = map_option ((@) bs) (render_pieces ext ps as)"
  by (induction bs) (simp_all add: option.map_comp o_def option.map_ident)

text \<open>A print has a rendering only if it has as many arguments as placeholders.\<close>

definition holes :: "piece list \<Rightarrow> nat" where
  "holes ps = length (filter (\<lambda>p. case p of Hole _ \<Rightarrow> True | _ \<Rightarrow> False) ps)"

lemma render_pieces_arity: "render_pieces ext ps as = Some bs \<Longrightarrow> holes ps = length as"
  by (induction ext ps as arbitrary: bs rule: render_pieces.induct) (auto simp: holes_def bind_eq_Some_conv)

lemma char_count_append [simp]: "char_count (a @ b) = char_count a + char_count b"
  by (simp add: char_count_def)

lemma char_count_replicate_space [simp]: "char_count (replicate n 0x20) = n"
  by (simp add: char_count_def)

lemma char_count_pad: "char_count (pad sp a bs) = max (sp_width sp) (char_count bs)"
  by (auto simp: pad_def Let_def)

end
