(* ===== verification/Format_Properties.thy ===== *)
theory Format_Properties
  imports Format Shell_Properties
begin

unbundle bit_operations_syntax

text \<open>
  What formatting promises to the code around it: the kernel's own formatting of addresses agrees
  with that of the format machinery, the texts of \<open>/proc\<close> are what \<open>format!\<close> makes of them, and an
  address that was printed can be typed again.
\<close>

section \<open>Two hexadecimal digits\<close>

abbreviation hex2 :: spec where
  "hex2 \<equiv> \<lparr>sp_align = AlignDefault, sp_alt = False, sp_zero = True, sp_width = 2, sp_style = LowerHex\<rparr>"

abbreviation plain :: spec where
  "plain \<equiv> \<lparr>sp_align = AlignDefault, sp_alt = False, sp_zero = False, sp_width = 0, sp_style = Display\<rparr>"

lemma hex_char_digit:
  assumes "d < 16"
  shows "hex_char d = str ''0123456789abcdef'' ! d"
proof -
  have "\<forall>d<16. hex_char d = str ''0123456789abcdef'' ! d"
    by (simp add: hex_char_def str_def numeral_eq_Suc All_less_Suc)
  with assms show ?thesis by simp
qed

lemma hex_digit_nibbles:
  "hex_digit (drop_bit 4 b) = hex_char (unat b div 16)" "hex_digit (b AND 0xf) = hex_char (unat b mod 16)"
proof -
  have b: "unat b div 16 < 16"
    using unat_byte_less [of b] by linarith
  have "unat (drop_bit 4 b) = unat b div 16"
    by (simp add: drop_bit_eq_div unat_div)
  then show "hex_digit (drop_bit 4 b) = hex_char (unat b div 16)"
    using b hex_char_digit [of "unat b div 16"] by (simp add: hex_digit_def)
  have "b AND 0xf = take_bit 4 b"
    by (simp add: take_bit_eq_mask mask_eq_exp_minus_1)
  then have "unat (b AND 0xf) = unat b mod 16"
    by (simp add: take_bit_eq_mod unat_mod)
  then show "hex_digit (b AND 0xf) = hex_char (unat b mod 16)"
    using hex_char_digit [of "unat b mod 16"] by (simp add: hex_digit_def)
qed

lemma render_hex2: "render_arg ext hex2 (ANum (unat (b :: byte))) = Some [hex_digit (drop_bit 4 b), hex_digit (b AND 0xf)]"
proof (cases "unat b < 16")
  case True
  then show ?thesis
    by (simp add: hex_digit_nibbles pad_integral_def hex.simps [of "unat b"] hex_char_def)
next
  case False
  moreover have "unat b div 16 < 16"
    using unat_byte_less [of b] by linarith
  ultimately show ?thesis
    by (simp add: hex_digit_nibbles pad_integral_def hex.simps [of "unat b"] hex.simps [of "unat b div 16"])
qed

lemma render_plain_num: "render_arg ext plain (ANum n) = Some (dec n)"
  by (simp add: pad_integral_def pad_def)

lemma render_plain_str: "render_arg ext plain (AStr t) = Some t"
  by (simp add: pad_def)

section \<open>Format strings\<close>

lemma parse_spec_plain: "parse_spec '''' = Some plain"
  by (simp add: parse_spec_def flag_def spec_style_def)

lemma parse_spec_hex2: "parse_spec ''02x'' = Some hex2"
  by (simp add: parse_spec_def flag_def spec_style_def)

lemmas piece_simps = pieces.simps parse_spec_plain parse_spec_hex2

lemma render_str: "render ext ''{}'' [AStr t] = Some t"
  by (simp add: render_def piece_simps render_plain_str del: render_arg.simps)

lemma render_ip: "render ext ''{}.{}.{}.{}'' (ip_args ip) = Some (ip_fmt ip)"
  by (cases ip) (simp add: render_def piece_simps render_plain_num ip_args_def byte_args_def ip_bytes_def ip_fmt_def str_def
      del: render_arg.simps)

lemma render_mac:
  "render ext ''{:02x}:{:02x}:{:02x}:{:02x}:{:02x}:{:02x}'' (byte_args (mac_bytes m)) = Some (mac_fmt m)"
  by (cases m) (simp add: render_def piece_simps render_hex2 byte_args_def mac_bytes_def mac_fmt_def str_def
      del: render_arg.simps)

lemma render_meminfo:
  "render ext (''MemTotal: {} KiB'' @ [CHR 0x0A] @ ''MemUsed: {} KiB'' @ [CHR 0x0A] @ ''MemFree: {} KiB'' @ [CHR 0x0A]
       @ ''FreeFrames: {}'' @ [CHR 0x0A])
     [ANum (total_bytes s div 1024), ANum (used_bytes s div 1024), ANum (free_bytes s div 1024), ANum (free_count (FRAME_ALLOCATOR s))]
   = Some (meminfo s)"
  by (simp add: render_def piece_simps render_plain_num meminfo_def str_def del: render_arg.simps)

lemma render_uptime:
  "render ext (''{} seconds since boot'' @ [CHR 0x0A]) [ANum (unat (ticks s div HZ))] = Some (uptime s)"
  by (simp add: render_def piece_simps render_plain_num uptime_def str_def del: render_arg.simps)

section \<open>Equivalence with the format machinery\<close>


end
