(* ===== verification/Host.thy ===== *)
theory Host
  imports Utf8
begin

text \<open>
  The two programs that run on the host: \<open>build.rs\<close>, which turns the built kernel into a disk image, and
  \<open>src/main.rs\<close>, which starts QEMU on it. Environment variables are the list in which \<open>vars_os\<close> enumerates
  them, each name once; paths are their bytes. The \<open>bootloader\<close> crate is the parameter \<open>create\<close> on a state
  of the disk, QEMU the parameter \<open>qemu\<close> from a command line to an exit status: \<open>None\<close> where it could not
  be started, \<open>Some None\<close> where it was ended by a signal. A panic is \<open>None\<close>.
\<close>

section \<open>The build script\<close>

type_synonym env = "(byte list \<times> byte list) list"

definition CANDIDATES :: "byte list list" where
  "CANDIDATES = [str ''CARGO_BIN_FILE_KERNEL_kernel'', str ''CARGO_BIN_FILE_KERNEL_simplelinux_kernel'',
     str ''CARGO_BIN_FILE_KERNEL'']"

fun first_var :: "env \<Rightarrow> byte list list \<Rightarrow> byte list option" where
  "first_var env [] = None"
| "first_var env (key # keys) = (case map_of env key of Some v \<Rightarrow> Some v | None \<Rightarrow> first_var env keys)"

definition starts_with :: "byte list \<Rightarrow> byte list \<Rightarrow> bool" where
  "starts_with pre s \<longleftrightarrow> take (length pre) s = pre"

definition kernel_bin_path :: "env \<Rightarrow> byte list option" where
  "kernel_bin_path env =
     (case first_var env CANDIDATES of
        Some v \<Rightarrow> Some v
      | None \<Rightarrow> map_option snd (find (\<lambda>(k, v). starts_with (str ''CARGO_BIN_FILE_KERNEL'') (utf8_lossy k)) env))"

text \<open>\<open>join\<close> with a relative file name.\<close>

definition path_join :: "byte list \<Rightarrow> byte list \<Rightarrow> byte list" where
  "path_join dir name = (if dir = [] \<or> last dir = 0x2f then dir @ name else dir @ [0x2f] @ name)"

definition build_main ::
  "(byte list \<Rightarrow> byte list \<Rightarrow> 's \<Rightarrow> 's option) \<Rightarrow> env \<Rightarrow> 's \<Rightarrow> (byte list list \<times> 's) option" where
  "build_main create env disk = do {
     out_dir \<leftarrow> map_of env (str ''OUT_DIR'');
     kernel \<leftarrow> kernel_bin_path env;
     let bios_path = path_join out_dir (str ''bios.img'');
     disk \<leftarrow> create kernel bios_path disk;
     Some ([str ''cargo:rustc-env=BIOS_PATH='' @ utf8_lossy bios_path,
            str ''cargo:rerun-if-changed='' @ utf8_lossy kernel], disk)
   }"

section \<open>The runner\<close>

definition qemu_command :: "byte list \<Rightarrow> byte list list \<Rightarrow> byte list list" where
  "qemu_command bios_path extra =
     [str ''qemu-system-x86_64'', str ''-drive'', str ''format=raw,file='' @ bios_path]
     @ map str [''-m'', ''128M'', ''-serial'', ''stdio'', ''-display'', ''none'', ''-no-reboot'']
     @ map str [''-device'', ''isa-debug-exit,iobase=0xf4,iosize=0x04'']
     @ map str [''-netdev'', ''user,id=n0,hostfwd=tcp::1234-:1234,hostfwd=udp::9999-:9999'']
     @ map str [''-device'', ''e1000,netdev=n0'']
     @ extra"

definition exit_code :: "int option \<Rightarrow> int" where
  "exit_code status =
     (let code = (case status of Some c \<Rightarrow> c | None \<Rightarrow> 1)
      in if code = 0x10 then 0 else if code = 0x11 then 1 else code)"

definition runner_main :: "(byte list list \<Rightarrow> int option option) \<Rightarrow> byte list \<Rightarrow> byte list list \<Rightarrow> int option" where
  "runner_main qemu bios_path args = map_option exit_code (qemu (qemu_command bios_path (drop 1 args)))"

section \<open>What they do\<close>

lemma first_var_Some: "first_var env keys = Some v \<Longrightarrow> \<exists>k\<in>set keys. map_of env k = Some v"
  by (induction keys) (auto split: option.splits)

lemma first_var_None: "first_var env keys = None \<longleftrightarrow> (\<forall>k\<in>set keys. map_of env k = None)"
  by (induction keys) (auto split: option.splits)

text \<open>The path is the value of a variable whose name begins as expected, and the script gives up only if there is none.\<close>

lemma kernel_bin_path_spec:
  assumes "\<And>k v. (k, v) \<in> set env \<Longrightarrow> utf8_lossy k = k"
  shows "case kernel_bin_path env of
     Some p \<Rightarrow> \<exists>k. (k, p) \<in> set env \<and> starts_with (str ''CARGO_BIN_FILE_KERNEL'') k
   | None \<Rightarrow> \<forall>(k, v)\<in>set env. \<not> starts_with (str ''CARGO_BIN_FILE_KERNEL'') k"
proof (cases "first_var env CANDIDATES")
  case (Some p)
  then obtain k where "k \<in> set CANDIDATES" "(k, p) \<in> set env"
    using first_var_Some map_of_SomeD by metis
  moreover from this have "starts_with (str ''CARGO_BIN_FILE_KERNEL'') k"
    by (auto simp: CANDIDATES_def starts_with_def str_def)
  ultimately show ?thesis
    using Some by (auto simp: kernel_bin_path_def)
next
  case None
  then show ?thesis
    using assms by (fastforce simp: kernel_bin_path_def find_None_iff find_Some_iff in_set_conv_nth split: option.splits)
qed

text \<open>QEMU's debug exit device ends with status \<open>2 v + 1\<close> for the value \<open>v\<close> the guest writes: never the one that the
  runner takes for success, whatever the guest reports.\<close>

lemma debug_exit_never_success: "exit_code (Some (2 * v + 1)) \<noteq> 0"
  by (simp add: exit_code_def Let_def) presburger

end
