(* ===== verification/Spec2Isabelle.thy ===== *)
theory Spec2Isabelle
  imports Prelude Serial Pmm Memory Context Scheduler_Properties Checksum E1000_Properties Fs_Error Net_Properties Initrd
    Keyboard Fs_Properties Syscall_Properties Elf_Properties Trap_Properties Shell_Properties Vga Nic_Arp Composition User_Run
    Interrupts Platform Boot Locks Resources Format_Properties Host
begin

text \<open>
  Verification of the SimpleLinux teaching kernel, an x86_64 kernel in Rust (\<open>src/kernel/src\<close>), with
  the generators of its embedded files (\<open>src/tools\<close>) and the host programs that build and start it
  (\<open>src/build.rs\<close>, \<open>src/src/main.rs\<close>).

  \<^bold>\<open>The program.\<close> \<open>kernel_main\<close> sets up segments, interrupt descriptors, timer, memory and heap, then the
  file layer, the keyboard, the network card and the network stack, each with a self test; it runs
  two embedded user programs in ring 3 and hands the processor to a round-robin scheduler whose tasks
  include the shell. User programs enter the kernel by \<open>int 0x80\<close>; system calls act on descriptors, a
  descriptor names an inode, and an inode is a device, a generated file, a file of the initial ramdisk
  or a socket. Sockets receive what the stack decodes from the frames the driver polls from the card.
  Two interrupts, timer and keyboard, run beside all this.

  \<^bold>\<open>Conventions.\<close> A computation that can panic returns an option; \<open>None\<close> is the panic. Arithmetic
  follows the dev profile of the build, where overflow panics (\<open>checked_add\<close> and its like); values that
  the code keeps in \<open>u8\<close> to \<open>u64\<close> are words of that width, indices and lengths of type \<open>usize\<close> are naturals.
  Strings and buffers are byte lists. Errors of the file layer are values of \<open>fs_error\<close> in a sum. The
  global variables are fields of one state, extended by each component: \<open>console\<close>, memory, \<open>e1000\<close>,
  \<open>net\<close>, \<open>kbd\<close>, \<open>kernel\<close>, \<open>mach\<close> (registers) and \<open>board\<close> (platform). The scheduler is the record \<open>sched\<close>,
  put beside the kernel state in \<open>system\<close> and in \<open>kernel_main\<close>. A spin lock's critical section is one
  step, except in \<open>Locks\<close>, which looks inside. Third-party crates, the device, addresses chosen by linker or allocator, and files that the
  build embeds are parameters; what is relied on is a named hypothesis (\<open>mapper_ok\<close>, \<open>gdt_ok\<close>,
  \<open>bootable\<close>), and each property that has one comes with a witness on concrete functions.

  \<^bold>\<open>Theories.\<close>
  \<^item> \<open>Prelude\<close>, \<open>Serial\<close> (\<open>serial.rs\<close>, print macros), \<open>Utf8\<close>, \<open>Fs_Error\<close>: words, encodings, slices, slot
    tables (locale \<open>slot_table\<close>), console events, the parts of the standard library that are used.
  \<^item> \<open>Pmm\<close> (\<open>memory/pmm.rs\<close>; locale \<open>frame_allocator\<close>) and \<open>Memory\<close> (\<open>memory/mod.rs\<close>, \<open>vmm.rs\<close>, \<open>heap.rs\<close>): the
    bitmap refines a set of free frames; which frames are free after seeding; the heap is mapped.
  \<^item> \<open>Context\<close> (\<open>process/context.rs\<close>, stacks of \<open>task.rs\<close>): \<open>__switch\<close> by instructions; switching away and
    back restores a task; a fresh task enters the trampoline.
  \<^item> \<open>Scheduler\<close>, \<open>Scheduler_Invariant\<close>, \<open>Scheduler_Properties\<close> (\<open>process/scheduler.rs\<close>, \<open>task.rs\<close>,
    \<open>timer.rs\<close>): operations, invariant over the reachable states, no panic, no starvation, when blocked
    tasks wake, what an exit leaves behind.
  \<^item> \<open>Interrupts\<close> (timer handler of \<open>interrupts.rs\<close> with the switches it causes): the processor and the
    service of IRQ0 as a step relation that simulates the scheduler's; who holds the interrupt, and how
    the clock can stop.
  \<^item> \<open>Locks\<close> (the operations that take spin locks, each by its locking trace): which operations an interrupt
    handler can deadlock, that the order of the locks is free of cycles, and what becomes of a task that
    waits for a preempted one. A trace lists the locks and the changes of the interrupt flag in the order of
    the code; how often the byte allocator is entered and which branch is taken are parameters.
  \<^item> \<open>Checksum\<close>, \<open>E1000\<close>, \<open>E1000_Properties\<close>, \<open>Nic_Arp\<close> (\<open>drivers/e1000.rs\<close>, \<open>drivers/e1000/arp.rs\<close>): rings as
    queues, frames handed over byte for byte, the two ARP implementations agree.
  \<^item> \<open>Net\<close>, \<open>Net_Properties\<close> (\<open>net/*.rs\<close>; locale \<open>kv_map\<close> for the ARP cache): delivery of datagrams from
    machine to machine, ping, ARP, the exact frames that panic, the pump ends.
  \<^item> \<open>Initrd\<close>, \<open>Keyboard\<close>, \<open>Vfs\<close>, \<open>Fs\<close>, \<open>Fs_Properties\<close> (\<open>fs/*.rs\<close>, \<open>drivers/keyboard.rs\<close>; locale \<open>byte_file\<close>):
    archive parsing, path resolution, descriptors, sequential reads, typed text.
  \<^item> \<open>Syscall\<close>, \<open>Syscall_Properties\<close>, \<open>Trap\<close>, \<open>Trap_Properties\<close> (\<open>syscall/mod.rs\<close>), \<open>Elf\<close>, \<open>Elf_Properties\<close>
    (\<open>process/elf.rs\<close>): results of calls, confinement of reads, transparency of the trap, the return
    from a user program, the loaded image.
  \<^item> \<open>User_Programs\<close>, \<open>User_Run\<close> (\<open>tools/*.py\<close>): the generated files and the execution of their machine code.
  \<^item> \<open>Shell\<close>, \<open>Shell_Properties\<close>, \<open>Vga\<close>, \<open>Composition\<close> (\<open>shell.rs\<close>, \<open>vga.rs\<close>): the commands, the end of an
    idle shell, the screen as a refinement of lines, and lemmas that join shell, files and sockets.
  \<^item> \<open>Format\<close>, \<open>Format_Properties\<close> (\<open>serial.rs\<close>, and what the kernel uses of \<open>core::fmt\<close>): the bytes a print puts on the
    serial line; the kernel's own formatting agrees with the format machinery.
  \<^item> \<open>Resources\<close> (system calls, sockets and the driver together): how far a write to a socket reaches into
    memory, and how descriptors and sockets grow under any sequence of system calls.
  \<^item> \<open>Host\<close> (\<open>src/build.rs\<close>, \<open>src/src/main.rs\<close>): where the built kernel is looked for, the command line of
    QEMU, the translation of its exit status.
  \<^item> \<open>Platform\<close> (\<open>gdt.rs\<close>, \<open>interrupts.rs\<close>, \<open>timer.rs\<close>) and \<open>Boot\<close> (\<open>main.rs\<close>): what ring 3 can reach through
    the gates, and that the boot runs both user programs to their end.

  \<^bold>\<open>Loops.\<close> Loops over data are structural or have a termination proof; no definition takes fuel for
  them. \<open>run_loop\<close> of the shell and \<open>user_exec\<close> may not end and are partial functions; that they return is
  proved for the runs the properties are about. Loops that retry a fixed number of times count down
  the source's own bound. The clock task waits for the clock: \<open>clock_task\<close> recurses over the list of ticks it
  reads and says whether it has finished by the end of it.

  \<^bold>\<open>Limits of the model.\<close> The states of the scheduler and the interrupts during a critical section are in different
  theories: \<open>Locks\<close> has the locks and no task table, and its first part covers one operation between two context
  switches. Exhaustion of the byte
  allocator, page faults on user addresses, and protection bits against the kernel's own writes are not
  represented either. In \<open>kernel_main\<close> timer interrupts before the hand-over are left out: no task
  is current then, so they only count ticks; the bodies of the demo tasks are the sequences of calls they make. The theorems about
  reachable states of \<open>Interrupts\<close> cover the timer; the keyboard handler is in \<open>Platform\<close>.

  Rendering covers the placeholders the kernel uses; in the \<open>Debug\<close> form of text, characters outside ASCII count
  as printable.

  \<^bold>\<open>Not modelled.\<close> The UART driver and the byte allocator (crates; parameters, the allocator's counters are
  unconstrained), the \<open>Debug\<close> form of values from other crates (a parameter), \<open>BOOTLOADER_CONFIG\<close> (data for the boot
  loader), the file output of the generators in \<open>src/tools\<close>, the empty crate \<open>src/user\<close>, and the module
  declarations \<open>process/mod.rs\<close> and \<open>drivers/mod.rs\<close>, which have no code.
\<close>

section \<open>Properties that span components\<close>


text \<open>For the archive the repository ships, this is the last command of the scripted session but one.\<close>

lemma motd_printed:
  assumes "MOUNTS s = []" and "FD_TABLE s = []" and "ustar tar initrd_entries"
  shows "\<exists>s1 s2. fs_init tar s = Some s1 \<and> feed nap (str ''cat /initrd/motd.txt'' @ [10]) [] s1 = Some (Some [], s2) \<and>
    serial s2 = serial s1 @ [Print ''# '' [], Print ''{}'' [AStr (str ''Welcome to SimpleLinux (Phase 6 VFS)!'' @ [10])]]"
proof -
  let ?p = "str ''motd.txt''" and ?e = "initrd_entries ! 3"
  have comps: "components (str ''etc/'') = [str ''etc'']" "components (str ''about.txt'') = [str ''about.txt'']"
    "components (str ''etc/motd'') = [str ''etc'', str ''motd'']" "components ?p = [?p]"
    by (simp_all add: components_def str_def)
  have "str ''motd.txt'' \<noteq> str ''etc''" "str ''motd.txt'' \<noteq> str ''about.txt''"
    by (simp_all add: str_def)
  then have "creator initrd_entries (components ?p) = Some ?e"
    by (simp add: comps creator_def initrd_entries_def)
  moreover have e: "e_path ?e = ?p" "e_data ?e = str ''Welcome to SimpleLinux (Phase 6 VFS)!'' @ [10]" "\<not> is_dir ?e"
    by (simp_all add: initrd_entries_def)
  moreover have "ascii (e_data ?e)" "typeable ?p" "0x20 \<notin> set ?p"
    unfolding e by (simp_all add: ascii_def typeable_def str_def)
  ultimately have "\<exists>s1 s2. fs_init tar s = Some s1 \<and> feed nap (str ''cat /initrd/'' @ ?p @ [10]) [] s1 = Some (Some [], s2) \<and>
      serial s2 = serial s1 @ [Print ''# '' [], Print ''{}'' [AStr (e_data ?e)]]"
    using typed_cat_prints [OF assms, of ?p ?e nap] comps(4) by auto
  moreover have "str ''cat /initrd/'' @ ?p @ [10] = str ''cat /initrd/motd.txt'' @ [10]"
    by (simp add: str_def)
  ultimately show ?thesis
    unfolding e by metis
qed

text \<open>C4. From program to program: on one machine a program opens a UDP socket, connects it to an address and a port and
  writes a buffer; the call reports all bytes (at most 4096) written and the driver has
  transmitted one frame. On any machine where a program has opened a UDP socket and bound it to
  that port, the arrival of this frame makes a read of the socket fill the program's buffer with
  the bytes the first program wrote, as many as both buffers allow, and change no other memory.\<close>

theorem program_to_program:
  assumes "fds_ok a" and "live (FD_TABLE a) < MAX_FDS" and "drv_ok a" and "NIC a \<noteq> None"
    and "fds_ok b" and "live (FD_TABLE b) < MAX_FDS"
  shows "\<exists>fa a1 a2 a3 f a4 fb b1 b2 b3 v b4.
    sys_socket 17 a = (fa, a1) \<and> sys_connect fa ip port a1 = (0, a2) \<and> sys_write fa src len a2 = Some (min len 4096, a3) \<and>
    e1000_send f a2 = Some (True, a4) \<and> driver_of a3 = driver_of a4 \<and>
    sys_socket 17 b = (fb, b1) \<and> sys_bind fb port b1 = (0, b2) \<and> ethernet_handle f b2 = Some b3 \<and>
    sys_read fb dst cap b3 = Some (v, b4) \<and> v = min (min len cap) 4096 \<and>
    load_bytes dst (unat v) (ram b4) = load_bytes src (unat v) (ram a) \<and>
    (\<forall>x. x \<notin> addrs dst (unat v) \<longrightarrow> ram b4 x = ram b x)"
proof -
  obtain fa i a1 where a1: "sys_socket 17 a = (fa, a1)" "driver_of a1 = driver_of a" "sock_fd fa i \<lparr>s_proto = PROTO_UDP, local_port = 0, peer = None, rx = []\<rparr> a1"
    by (rule udp_socket [OF assms(1,2)])
  obtain a2 where a2: "sys_connect fa ip port a1 = (0, a2)" "driver_of a2 = driver_of a1"
    "sock_fd fa i \<lparr>s_proto = PROTO_UDP, local_port = 0, peer = Some (ip_of_word ip, ucast port), rx = []\<rparr> a2"
    by (rule sys_connect_socket [OF a1(3), of ip port]) simp
  obtain fb j b1 where b1: "sys_socket 17 b = (fb, b1)" "driver_of b1 = driver_of b" "sock_fd fb j \<lparr>s_proto = PROTO_UDP, local_port = 0, peer = None, rx = []\<rparr> b1"
    by (rule udp_socket [OF assms(5,6)])
  obtain b2 where b2: "sys_bind fb port b1 = (0, b2)" "driver_of b2 = driver_of b1"
    "sock_fd fb j \<lparr>s_proto = PROTO_UDP, local_port = ucast port, peer = None, rx = []\<rparr> b2"
    by (rule sys_bind_socket [OF b1(3), of port]) simp
  have a: "drv_ok a2" "NIC a2 \<noteq> None" "ram a2 = ram a"
    using a1(2) a2(2) assms(3,4) by (simp_all add: drv_ok_def driver_of_def)
  let ?data = "load_bytes src (unat (min len 4096)) (ram a)"
  have "length ?data \<le> 65507"
    using unat_min_4096(1) [of len] by simp
  then obtain f b3 where f: "udp_send 0 (ip_of_word ip) (ucast port) ?data a2 = e1000_send f a2" "ethernet_handle f b2 = Some b3"
    "SOCKETS b3 = map (\<lambda>sl. if is_bound (ucast port) sl then map_option (enqueue IP 0 ?data) sl else sl) (SOCKETS b2)"
    "driver_of b3 = driver_of b2" "net.more b3 = net.more b2"
    using udp_delivery [of ?data 0 "ip_of_word ip" "ucast port" a2 b2] by blast
  obtain a3 where a3: "sys_write fa src len a2 = Some (min len 4096, a3)" "driver_of a3 = driver_of (after_send f a2)"
    using sys_write_socket [OF a2(3) _ _ a(1,2), of "ip_of_word ip" "ucast port" src len f] f(1) a(3) by auto
  have sent: "e1000_send f a2 = Some (True, after_send f a2)"
    using e1000_send_after [OF a(1)] a(2) by simp
  have "sock_fd fb j \<lparr>s_proto = PROTO_UDP, local_port = ucast port, peer = None, rx = [(IP, 0, ?data)]\<rparr> b3"
    by (rule sock_fd_delivered [OF b2(3) f(3,5)]) (simp_all add: is_bound_def enqueue_def)
  from sys_read_socket [OF this, of IP 0 ?data "[]" dst cap]
  obtain v b4 where b4: "sys_read fb dst cap b3 = Some (v, b4)" "unat v = min (unat (min cap 4096)) (length ?data)"
    "load_bytes dst (unat v) (ram b4) = take (unat v) ?data" "\<forall>a. a \<notin> addrs dst (unat v) \<longrightarrow> ram b4 a = ram b3 a"
    by auto
  have "v = min (min len cap) 4096"
    using b4(2) by (intro word_unat_eq_iff [THEN iffD2]) (auto simp: min_def word_le_nat_alt)
  moreover have "load_bytes dst (unat v) (ram b4) = load_bytes src (unat v) (ram a)"
    using b4(2,3) by (simp add: take_load_bytes)
  moreover have "ram b3 = ram b"
    using f(4) b2(2) b1(2) by (simp add: driver_of_def)
  ultimately show ?thesis
    using a1(1) a2(1) a3 b1(1) b2(1) f(2) b4(1,4) sent by metis
qed

section \<open>Witnesses\<close>


theorem program_to_program_witness:
  "\<exists>fa a1 a2 a3 fb b1 b2 f b3 b4. sys_socket 17 demo_kernel = (fa, a1) \<and> sys_connect fa 0x0a00020f 9999 a1 = (0, a2) \<and>
     sys_write fa 0x5000 300 a2 = Some (300, a3) \<and> sys_socket 17 demo_kernel = (fb, b1) \<and> sys_bind fb 9999 b1 = (0, b2) \<and>
     ethernet_handle f b2 = Some b3 \<and> sys_read fb 0x7000 64 b3 = Some (64, b4) \<and>
     load_bytes 0x7000 64 (ram b4) = load_bytes 0x5000 64 (ram demo_kernel)"
proof -
  have "live (FD_TABLE demo_kernel) < MAX_FDS" "NIC demo_kernel \<noteq> None"
    by (simp_all add: demo_kernel_def MAX_FDS_def live_def)
  moreover have "min 300 4096 = (300 :: u64)" "min (min 300 64) 4096 = (64 :: u64)"
    by (simp_all add: min_def)
  ultimately show ?thesis
    using program_to_program [OF demo_kernel_ok(1) _ demo_kernel_ok(3) _ demo_kernel_ok(1), of "0x0a00020f" 9999 "0x5000" 300 "0x7000" 64]
    by fastforce
qed

end
